(* ===== verification/Prelude.thy ===== *)
theory Prelude
  imports Main "HOL-Library.Word" "HOL-Library.AList" "HOL-Library.Multiset" "HOL-Library.Char_ord" "HOL-Library.List_Lexorder"
begin

text \<open>What the theories share: the lemma collections of the development, bytes, and byte strings as big-endian
  numbers (\<open>be_int\<close> reads one, \<open>be_bytes\<close> writes one of a given length), with the laws of bits and bounds
  the address arithmetic rests on.\<close>

named_theorems pool_simps

named_theorems quiet_rules

unbundle bit_operations_syntax

type_synonym byte = "8 word"

fun be_int :: "byte list \<Rightarrow> int" where
  "be_int [] = 0"
| "be_int (b # bs) = push_bit (8 * length bs) (uint b) OR be_int bs"

lemma bit_be_int:
  "bit (be_int bs) n \<longleftrightarrow> n < 8 * length bs \<and> bit (bs ! (length bs - 1 - n div 8)) (n mod 8)"
proof (induction bs)
  case Nil
  then show ?case by simp
next
  case (Cons b bs)
  show ?case
  proof (cases "n < 8 * length bs")
    case True
    then have "n div 8 < length bs" by (simp add: div_less_iff_less_mult mult.commute)
    then have "length bs - n div 8 = Suc (length bs - 1 - n div 8)" by linarith
    then show ?thesis using True Cons.IH
      by (simp add: bit_simps)
  next
    case False
    then obtain m where m: "n = 8 * length bs + m" using le_Suc_ex not_less by blast
    show ?thesis
    proof (cases "m < 8")
      case True
      then show ?thesis using m Cons.IH by (simp add: bit_simps)
    next
      case f: False
      then have "\<not> bit b m" using bit_imp_le_length [of b m] by auto 
      then show ?thesis using f m Cons.IH by (auto simp add: bit_simps)
    qed
  qed
qed

lemma be_int_nonneg [simp]: "0 \<le> be_int bs"
  by (induction bs) (auto)

lemma be_int_less: "be_int bs < 2 ^ (8 * length bs)"
proof -
  have "take_bit (8 * length bs) (be_int bs) = be_int bs"
    by (rule bit_eqI) (auto simp: bit_simps bit_be_int)
  then show ?thesis by (metis take_bit_int_less_exp)
qed

lemma be_int_append: "be_int (xs @ ys) = push_bit (8 * length ys) (be_int xs) OR be_int ys"
  by (induction xs) (simp_all add: push_bit_or algebra_simps or.assoc)

lemma be_int_inject:
  "length xs = length ys \<Longrightarrow> be_int xs = be_int ys \<longleftrightarrow> xs = ys"
proof
  assume len: "length xs = length ys" and eq: "be_int xs = be_int ys"
  show "xs = ys"
  proof (rule nth_equalityI[OF len])
    fix i assume i: "i < length xs"
    show "xs ! i = ys ! i"
    proof (rule bit_word_eqI)
      fix n assume n: "n < LENGTH(8)"
      let ?m = "8 * (length xs - 1 - i) + n"
      have "?m div 8 = length xs - 1 - i" "?m mod 8 = n" using n by auto
      moreover have "?m < 8 * length xs" using i n by simp
      ultimately show "bit (xs ! i) n = bit (ys ! i) n"
        using arg_cong[OF eq, of "\<lambda>x. bit x ?m"] len i by (auto simp: bit_be_int)
    qed
  qed
qed simp

lemma be_int_map2_and:
  "length xs = length ys \<Longrightarrow> be_int (map2 (AND) xs ys) = be_int xs AND be_int ys"
proof -
  assume "length xs = length ys"
  then show ?thesis
   by (intro bit_eqI)  (auto simp: bit_simps bit_be_int)
qed

fun be_bytes :: "nat \<Rightarrow> int \<Rightarrow> byte list" where
  "be_bytes 0 x = []"
| "be_bytes (Suc n) x = be_bytes n (drop_bit 8 x) @ [word_of_int x]"

lemma length_be_bytes [simp]: "length (be_bytes n x) = n"
  by (induction n arbitrary: x) auto

lemma be_int_be_bytes: "be_int (be_bytes n x) = take_bit (8 * n) x"
proof (induction n arbitrary: x)
  case (Suc n)
  have "be_int (be_bytes (Suc n) x) = push_bit 8 (take_bit (8*n) (drop_bit 8 x)) OR take_bit 8 x"
    by (simp add: be_int_append Suc.IH uint_word_of_int take_bit_eq_mod)
  also have "\<dots> = take_bit (8 * Suc n) x"
    by (rule bit_eqI) (auto simp: bit_simps)
  finally show ?case .
qed simp

end
