(* ===== verification/GoNet.thy ===== *)
theory GoNet
  imports Prelude
begin

text \<open>The part of Go's package \<open>net\<close> the program uses: addresses and masks as byte slices, \<open>IPNet\<close>, \<open>CIDRMask\<close>,
  \<open>IPMask.Size\<close>, \<open>IP.To4\<close>, \<open>IP.Mask\<close> and \<open>IPNet.Contains\<close>; networks in canonical form (\<open>wf_net\<close>), the set of
  addresses of a network, and the test by which the program decides whether two networks intersect.\<close>

type_synonym ip = "byte list"
type_synonym ipmask = "byte list"

record IPNet =
  net_IP :: ip
  net_Mask :: ipmask

definition IPv4len :: nat where "IPv4len = 4"
definition IPv6len :: nat where "IPv6len = 16"

definition v4InV6Prefix :: "byte list" where
  "v4InV6Prefix = replicate 10 0 @ [255, 255]"

definition ip_To4 :: "ip \<Rightarrow> ip option" where
  "ip_To4 ip =
     (if length ip = 4 then Some ip
      else if length ip = 16 \<and> take 12 ip = v4InV6Prefix then Some (drop 12 ip)
      else None)"

definition ip_Mask :: "ip \<Rightarrow> ipmask \<Rightarrow> ip" where
  "ip_Mask ip m =
     (let m = (if length m = 16 \<and> length ip = 4 \<and> list_all (\<lambda>b. b = 255) (take 12 m) then drop 12 m else m);
          ip = (if length m = 4 \<and> length ip = 16 \<and> take 12 ip = v4InV6Prefix then drop 12 ip else ip)
      in if length ip = length m then map2 (AND) ip m else [])"

fun cidr_bytes :: "nat \<Rightarrow> nat \<Rightarrow> byte list" where
  "cidr_bytes n 0 = []"
| "cidr_bytes n (Suc k) =
     (if 8 \<le> n then 255 # cidr_bytes (n - 8) k else NOT (drop_bit n 255) # cidr_bytes 0 k)"

definition CIDRMask :: "int \<Rightarrow> int \<Rightarrow> ipmask" where
  "CIDRMask ones bits =
     (if bits \<noteq> 32 \<and> bits \<noteq> 128 then []
      else if ones < 0 \<or> ones > bits then []
      else cidr_bytes (nat ones) (nat bits div 8))"

fun lead_ones :: "nat \<Rightarrow> byte \<Rightarrow> nat \<times> byte" where
  "lead_ones 0 v = (0, v)"
| "lead_ones (Suc k) v =
     (if v AND 128 \<noteq> 0 then (case lead_ones k (push_bit 1 v) of (n, r) \<Rightarrow> (Suc n, r)) else (0, v))"

fun simpleMaskLength :: "ipmask \<Rightarrow> int" where
  "simpleMaskLength [] = 0"
| "simpleMaskLength (v # vs) =
     (if v = 255 then (let n = simpleMaskLength vs in if n = -1 then -1 else 8 + n)
      else (case lead_ones 8 v of
              (n, r) \<Rightarrow> if r \<noteq> 0 then -1 else if list_all (\<lambda>b. b = 0) vs then int n else -1))"

definition mask_Size :: "ipmask \<Rightarrow> int \<times> int" where
  "mask_Size m = (let ones = simpleMaskLength m in if ones = -1 then (0, 0) else (ones, 8 * int (length m)))"

definition networkNumberAndMask :: "IPNet \<Rightarrow> ip \<times> ipmask" where
  "networkNumberAndMask n =
     (let ip = (case ip_To4 (net_IP n) of Some x \<Rightarrow> x | None \<Rightarrow> net_IP n); m = net_Mask n
      in if ip_To4 (net_IP n) = None \<and> length ip \<noteq> 16 then ([], [])
         else if length m = 4 then (if length ip \<noteq> 4 then ([], []) else (ip, m))
         else if length m = 16 then (ip, if length ip = 4 then drop 12 m else m)
         else ([], []))"

definition net_Contains :: "IPNet \<Rightarrow> ip \<Rightarrow> bool" where
  "net_Contains n ip =
     (case networkNumberAndMask n of (nn, m) \<Rightarrow>
        let ip = (case ip_To4 ip of Some x \<Rightarrow> x | None \<Rightarrow> ip)
        in length ip = length nn \<and> map2 (AND) nn m = map2 (AND) ip m)"

definition plen :: "IPNet \<Rightarrow> nat" where
  "plen n = nat (fst (mask_Size (net_Mask n)))"

definition addr_bits :: "IPNet \<Rightarrow> nat" where
  "addr_bits n = 8 * length (net_IP n)"

definition wf_net :: "IPNet \<Rightarrow> bool" where
  "wf_net n \<longleftrightarrow>
     (length (net_IP n) = 4 \<or> length (net_IP n) = 16 \<and> ip_To4 (net_IP n) = None) \<and>
     plen n \<le> addr_bits n \<and>
     net_Mask n = cidr_bytes (plen n) (length (net_IP n)) \<and>
     map2 (AND) (net_IP n) (net_Mask n) = net_IP n"

definition net_addr :: "IPNet \<Rightarrow> int" where
  "net_addr n = be_int (net_IP n)"

definition net_prefix :: "nat \<Rightarrow> IPNet \<Rightarrow> int" where
  "net_prefix l n = drop_bit (addr_bits n - l) (net_addr n)"

definition addresses :: "IPNet \<Rightarrow> int set" where
  "addresses n =
     {a. 0 \<le> a \<and> a < 2 ^ addr_bits n \<and> drop_bit (addr_bits n - plen n) a = net_prefix (plen n) n}"

lemma length_cidr_bytes [simp]: "length (cidr_bytes n k) = k"
  by (induction n k rule: cidr_bytes.induct) auto

lemma cidr_bytes_zero: "cidr_bytes 0 k = replicate k 0"
  by (induction k) auto

lemma byte_255: "(255::byte) = - 1"
  by simp

lemma bit_not_drop_byte: "n < 8 \<Longrightarrow> m < 8 \<Longrightarrow> bit (NOT (drop_bit n (255::byte))) m \<longleftrightarrow> 8 - n \<le> m"
  unfolding byte_255 by (auto simp: bit_simps)

lemma bit_uint_255: "bit (uint (255::byte)) m \<longleftrightarrow> m < 8"
  unfolding byte_255 by (simp only: bit_uint_iff bit_minus_1_iff) simp

lemma bit_push_or: "bit (push_bit m x OR y) n \<longleftrightarrow> m \<le> n \<and> bit x (n - m) \<or> bit (y::int) n"
  by (simp add: bit_or_iff bit_push_bit_iff)

lemma bit_cidr_bytes:
  assumes "l \<le> 8 * k"
  shows "bit (be_int (cidr_bytes l k)) n \<longleftrightarrow> 8 * k - l \<le> n \<and> n < 8 * k"
  using assms
proof (induction l k rule: cidr_bytes.induct)
  case (1 n)
  then show ?case by simp
next
  case (2 l k)
  show ?case
  proof (cases "8 \<le> l")
    case True
    then have eq: "be_int (cidr_bytes l (Suc k)) = push_bit (8 * k) (uint (255::byte)) OR be_int (cidr_bytes (l - 8) k)"
      by simp
    have ih: "bit (be_int (cidr_bytes (l - 8) k)) n \<longleftrightarrow> 8 * k - (l - 8) \<le> n \<and> n < 8 * k"
      using True "2.IH"(1) "2.prems" by simp
    show ?thesis
      unfolding eq bit_push_or ih bit_uint_255 using True "2.prems" by arith
  next
    case False
    then have eq: "be_int (cidr_bytes l (Suc k)) = push_bit (8 * k) (uint (NOT (drop_bit l (255::byte)))) OR be_int (cidr_bytes 0 k)"
      by simp
    have c: "bit (uint (NOT (drop_bit l (255::byte)))) m \<longleftrightarrow> 8 - l \<le> m \<and> m < 8" for m
    proof (cases "m < 8")
      case True
      then show ?thesis using False bit_not_drop_byte [of l m] by (simp add: bit_uint_iff)
    next
      case f: False
      then have "\<not> bit (NOT (drop_bit l (255::byte))) m"
        using bit_imp_le_length [of "NOT (drop_bit l (255::byte))" m] by auto
      then show ?thesis using f by (simp only: bit_uint_iff) simp
    qed
    have z: "\<not> bit (be_int (cidr_bytes 0 k)) n"
      using "2.IH"(2) False by auto
    show ?thesis
      unfolding eq bit_push_or c using False z by auto
  qed
qed

lemma and_cidr_bytes:
  assumes "l \<le> 8 * k" "length xs = k"
  shows "be_int (map2 (AND) xs (cidr_bytes l k)) = push_bit (8 * k - l) (drop_bit (8 * k - l) (be_int xs))"
proof (rule bit_eqI)
  fix n
  have "bit (be_int xs) n \<Longrightarrow> n < 8 * k"
    using assms by (simp add: bit_be_int)
  then show "bit (be_int (map2 (AND) xs (cidr_bytes l k))) n \<longleftrightarrow>
      bit (push_bit (8 * k - l) (drop_bit (8 * k - l) (be_int xs))) n"
    using assms by (auto simp: be_int_map2_and bit_and_iff bit_push_bit_iff bit_drop_bit_eq bit_cidr_bytes)
qed

lemma lead_ones_small:
  "l < 8 \<Longrightarrow> lead_ones 8 (NOT (drop_bit l 255)) = (l, 0) \<and> NOT (drop_bit l (255::byte)) \<noteq> 255"
proof -
  have "list_all (\<lambda>l. lead_ones 8 (NOT (drop_bit l 255)) = (l, 0) \<and> NOT (drop_bit l (255::byte)) \<noteq> 255) [0..<8]"
    by code_simp
  then show "l < 8 \<Longrightarrow> ?thesis" by (simp add: list_all_iff)
qed

lemma simpleMaskLength_cidr_bytes:
  "l \<le> 8 * k \<Longrightarrow> simpleMaskLength (cidr_bytes l k) = int l"
proof (induction l k rule: cidr_bytes.induct)
  case (1 n)
  then show ?case by simp
next
  case (2 l k)
  show ?case
  proof (cases "8 \<le> l")
    case True
    then show ?thesis using 2 by (simp add: Let_def)
  next
    case False
    moreover have "list_all (\<lambda>b. b = 0) (cidr_bytes 0 k)" by (simp add: cidr_bytes_zero list_all_iff)
    moreover have "lead_ones 8 (NOT (drop_bit l 255)) = (l, 0)" "NOT (drop_bit l (255::byte)) \<noteq> 255"
      using False lead_ones_small by auto
    ultimately show ?thesis
      by (simp del: lead_ones.simps)
  qed
qed


lemma cidr_bytes_nth_full: "i < k \<Longrightarrow> 8 * Suc i \<le> l \<Longrightarrow> cidr_bytes l k ! i = 255"
  by (induction l k arbitrary: i rule: cidr_bytes.induct) (auto simp: nth_Cons split: nat.splits)

lemma cidr_bytes_nth_bit0: "i < k \<Longrightarrow> l < 8 * Suc i \<Longrightarrow> \<not> bit (cidr_bytes l k ! i) 0"
proof (induction l k arbitrary: i rule: cidr_bytes.induct)
  case (2 l k)
  show ?case
  proof (cases "8 \<le> l")
    case True
    then obtain j where "i = Suc j" using "2.prems" by (cases i) auto
    then show ?thesis using True 2 by auto
  next
    case False
    then show ?thesis
      using "2.prems" bit_not_drop_byte [of l 0] by (cases i) (auto simp: cidr_bytes_zero simp del: bit_0)
  qed
qed simp

lemma byte_and_255 [simp]: "(x::byte) AND 255 = x"
  unfolding byte_255 by simp

lemma nth_map2_and: "i < length xs \<Longrightarrow> i < length ys \<Longrightarrow> map2 (AND) xs ys ! i = xs ! i AND ys ! i"
  by simp

lemma To4_masked:
  assumes "length ip = 16" "ip_To4 ip = None"
  shows "ip_To4 (map2 (AND) ip (cidr_bytes l 16)) = None"
proof (rule ccontr)
  let ?m = "map2 (AND) ip (cidr_bytes l 16)"
  assume "ip_To4 ?m \<noteq> None"
  then have pre: "take 12 ?m = v4InV6Prefix"
    using assms by (auto simp: ip_To4_def split: if_splits)
  have "take 12 ?m ! 11 = 255" unfolding pre by (simp add: v4InV6Prefix_def nth_append)
  then have b11: "ip ! 11 AND cidr_bytes l 16 ! 11 = 255"
    using assms(1) by simp
  have "bit (cidr_bytes l 16 ! 11) 0"
    using arg_cong [OF b11, of "\<lambda>b. bit b 0"] by (simp add: bit_and_iff del: bit_0)
  then have l: "96 \<le> l" using cidr_bytes_nth_bit0 [of 11 16 l] by (force simp del: bit_0 intro: leI)
  have "take 12 ?m = take 12 ip"
  proof (rule nth_equalityI)
    fix i assume "i < length (take 12 ?m)"
    then have "i < 12" by simp
    moreover from this l have "cidr_bytes l 16 ! i = 255" by (intro cidr_bytes_nth_full) auto
    ultimately show "take 12 ?m ! i = take 12 ip ! i" using assms(1) by simp
  qed (use assms(1) in simp)
  with pre assms show False by (simp add: ip_To4_def)
qed

lemma wf_net_lengths:
  "wf_net n \<Longrightarrow> length (net_Mask n) = length (net_IP n) \<and> (length (net_IP n) = 4 \<or> length (net_IP n) = 16)"
  unfolding wf_net_def by (metis length_cidr_bytes)

lemma networkNumberAndMask_wf: "wf_net n \<Longrightarrow> networkNumberAndMask n = (net_IP n, net_Mask n)"
  using wf_net_lengths [of n]
  by (auto simp: wf_net_def networkNumberAndMask_def ip_To4_def Let_def)

lemma ip_Mask_same: "length ip = length m \<Longrightarrow> ip_Mask ip m = map2 (AND) ip m"
  by (auto simp: ip_Mask_def Let_def)

lemma net_Contains_masked:
  assumes "wf_net a" "length ip = length (net_IP a)" "length ip = 4 \<or> ip_To4 ip = None"
  shows "net_Contains a (ip_Mask ip (net_Mask a)) \<longleftrightarrow>
    drop_bit (addr_bits a - plen a) (net_addr a) = drop_bit (addr_bits a - plen a) (be_int ip)"
proof -
  let ?k = "length (net_IP a)"
  have len: "length (net_Mask a) = ?k" "?k = 4 \<or> ?k = 16" using wf_net_lengths [OF assms(1)] by auto
  have mask: "net_Mask a = cidr_bytes (plen a) ?k" and pl: "plen a \<le> 8 * ?k"
    and base: "map2 (AND) (net_IP a) (net_Mask a) = net_IP a"
    using assms(1) by (auto simp: wf_net_def addr_bits_def)
  let ?ip = "map2 (AND) ip (net_Mask a)"
  have to4: "(case ip_To4 ?ip of Some x \<Rightarrow> x | None \<Rightarrow> ?ip) = ?ip"
  proof (cases "?k = 4")
    case True
    then show ?thesis using assms(2) len by (simp add: ip_To4_def)
  next
    case False
    then have "ip_To4 ?ip = None"
      using To4_masked [of ip "plen a"] assms(2,3) len mask by auto
    then show ?thesis by simp
  qed
  have idem: "map2 (AND) ?ip (net_Mask a) = ?ip"
    using assms(2) len by (intro nth_equalityI) (auto simp: and.assoc)
  have masked: "ip_Mask ip (net_Mask a) = ?ip"
    using assms(2) len by (simp add: ip_Mask_same)
  have "net_Contains a (ip_Mask ip (net_Mask a)) \<longleftrightarrow> map2 (AND) (net_IP a) (net_Mask a) = ?ip"
    unfolding net_Contains_def networkNumberAndMask_wf [OF assms(1)] masked Let_def prod.case to4 idem
    using assms(2) len by simp
  also have "\<dots> \<longleftrightarrow> be_int (map2 (AND) (net_IP a) (net_Mask a)) = be_int ?ip"
    using assms(2) len by (intro be_int_inject [symmetric]) simp
  also have "\<dots> \<longleftrightarrow> push_bit (8 * ?k - plen a) (drop_bit (8 * ?k - plen a) (net_addr a)) =
      push_bit (8 * ?k - plen a) (drop_bit (8 * ?k - plen a) (be_int ip))"
    using and_cidr_bytes [OF pl, of "net_IP a"] and_cidr_bytes [OF pl, of ip] assms(2) mask
    by (simp add: net_addr_def)
  also have "\<dots> \<longleftrightarrow> drop_bit (8 * ?k - plen a) (net_addr a) = drop_bit (8 * ?k - plen a) (be_int ip)"
    by (simp add: push_bit_eq_mult)
  finally show ?thesis by (simp add: addr_bits_def)
qed

lemma net_Contains_other_family:
  assumes "wf_net a" "wf_net b" "length (net_IP a) \<noteq> length (net_IP b)"
  shows "\<not> net_Contains a (ip_Mask (net_IP b) (net_Mask a))"
  using wf_net_lengths [OF assms(1)] wf_net_lengths [OF assms(2)] assms
  unfolding net_Contains_def networkNumberAndMask_wf [OF assms(1)]
  by (auto simp: ip_Mask_def ip_To4_def Let_def wf_net_def)

definition nets_intersect :: "IPNet \<Rightarrow> IPNet \<Rightarrow> bool" where
  "nets_intersect a b \<longleftrightarrow>
     net_Contains a (ip_Mask (net_IP b) (net_Mask a)) \<or> net_Contains b (ip_Mask (net_IP a) (net_Mask b))"

lemma wf_net_addr_bounds: "wf_net n \<Longrightarrow> 0 \<le> net_addr n \<and> net_addr n < 2 ^ addr_bits n"
  using be_int_less [of "net_IP n"] by (simp add: net_addr_def addr_bits_def)

lemma net_addr_in_addresses: "wf_net n \<Longrightarrow> net_addr n \<in> addresses n"
  using wf_net_addr_bounds by (simp add: addresses_def net_prefix_def)

lemma drop_bit_eq_mono: "drop_bit m (x::int) = drop_bit m y \<Longrightarrow> m \<le> n \<Longrightarrow> drop_bit n x = drop_bit n y"
  by (metis drop_bit_drop_bit le_add_diff_inverse2)

lemma nets_intersect_iff:
  assumes "wf_net a" "wf_net b" "length (net_IP a) = length (net_IP b)"
  shows "nets_intersect a b \<longleftrightarrow> addresses a \<inter> addresses b \<noteq> {}"
proof -
  have bits: "addr_bits a = addr_bits b" using assms(3) by (simp add: addr_bits_def)
  have ca: "net_Contains a (ip_Mask (net_IP b) (net_Mask a)) \<longleftrightarrow>
    drop_bit (addr_bits a - plen a) (net_addr a) = drop_bit (addr_bits a - plen a) (net_addr b)"
    using net_Contains_masked [OF assms(1), of "net_IP b"] assms by (auto simp: wf_net_def net_addr_def)
  have cb: "net_Contains b (ip_Mask (net_IP a) (net_Mask b)) \<longleftrightarrow>
    drop_bit (addr_bits a - plen b) (net_addr a) = drop_bit (addr_bits a - plen b) (net_addr b)"
    using net_Contains_masked [OF assms(2), of "net_IP a"] assms bits by (auto simp: wf_net_def net_addr_def)
  show ?thesis
  proof
    assume "nets_intersect a b"
    then consider "drop_bit (addr_bits a - plen a) (net_addr b) = drop_bit (addr_bits a - plen a) (net_addr a)"
      | "drop_bit (addr_bits a - plen b) (net_addr a) = drop_bit (addr_bits a - plen b) (net_addr b)"
      by (auto simp: nets_intersect_def ca cb)
    then show "addresses a \<inter> addresses b \<noteq> {}"
    proof cases
      case 1
      then have "net_addr b \<in> addresses a"
        using wf_net_addr_bounds [OF assms(2)] bits by (simp add: addresses_def net_prefix_def)
      then show ?thesis using net_addr_in_addresses [OF assms(2)] by blast
    next
      case 2
      then have "net_addr a \<in> addresses b"
        using wf_net_addr_bounds [OF assms(1)] bits by (simp add: addresses_def net_prefix_def)
      then show ?thesis using net_addr_in_addresses [OF assms(1)] by blast
    qed
  next
    assume "addresses a \<inter> addresses b \<noteq> {}"
    then obtain x where x: "drop_bit (addr_bits a - plen a) x = drop_bit (addr_bits a - plen a) (net_addr a)"
      "drop_bit (addr_bits a - plen b) x = drop_bit (addr_bits a - plen b) (net_addr b)"
      using bits by (auto simp: addresses_def net_prefix_def)
    show "nets_intersect a b"
    proof (cases "plen a \<le> plen b")
      case True
      then have "drop_bit (addr_bits a - plen a) x = drop_bit (addr_bits a - plen a) (net_addr b)"
        using drop_bit_eq_mono [OF x(2)] by simp
      then show ?thesis using x(1) by (simp add: nets_intersect_def ca)
    next
      case False
      then have "drop_bit (addr_bits a - plen b) x = drop_bit (addr_bits a - plen b) (net_addr a)"
        using drop_bit_eq_mono [OF x(1)] by simp
      then show ?thesis using x(2) by (simp add: nets_intersect_def cb)
    qed
  qed
qed


end
