(* ===== verification/GoNetString.thy ===== *)
theory GoNetString
  imports GoNet
begin

text \<open>\<open>IPNet.String\<close>: the text of a network, which the program uses as a map key, and the proof that it
  identifies the network.\<close>

fun base_digits :: "nat \<Rightarrow> nat \<Rightarrow> nat list" where
  "base_digits b n = (if n < b \<or> b < 2 then [n] else base_digits b (n div b) @ [n mod b])"

declare base_digits.simps [simp del]

definition hexdigits :: string where
  "hexdigits = ''0123456789abcdef''"

definition digit_char :: "nat \<Rightarrow> char" where
  "digit_char d = hexdigits ! d"

definition uitoa :: "nat \<Rightarrow> string" where
  "uitoa n = map digit_char (base_digits 10 n)"

definition hex_nat :: "nat \<Rightarrow> string" where
  "hex_nat n = map digit_char (base_digits 16 n)"

fun joinc :: "char \<Rightarrow> string list \<Rightarrow> string" where
  "joinc c [] = []"
| "joinc c [t] = t"
| "joinc c (t # u # ts) = t @ c # joinc c (u # ts)"

fun v6_groups :: "byte list \<Rightarrow> nat list" where
  "v6_groups (a # b # bs) = (256 * unat a + unat b) # v6_groups bs"
| "v6_groups _ = []"

definition zero_run :: "nat list \<Rightarrow> nat \<times> nat" where
  "zero_run gs =
     foldl (\<lambda>(zs, ze) i.
        let j = i + length (takeWhile (\<lambda>g. g = 0) (drop i gs))
        in if 2 \<le> j - i \<and> ze - zs < j - i then (i, j) else (zs, ze)) (255, 255) [0..<8]"

definition v6_String :: "ip \<Rightarrow> string" where
  "v6_String ip =
     (let gs = v6_groups ip; toks = map hex_nat gs
      in case zero_run gs of (zs, ze) \<Rightarrow>
           if 8 \<le> zs then joinc (CHR '':'') toks
           else joinc (CHR '':'') (take zs toks) @ ''::'' @ joinc (CHR '':'') (drop ze toks))"

definition hexString :: "byte list \<Rightarrow> string" where
  "hexString bs = concat (map (\<lambda>b. [digit_char (unat b div 16), digit_char (unat b mod 16)]) bs)"

definition ip_String :: "ip \<Rightarrow> string" where
  "ip_String ip =
     (if ip = [] then ''<nil>''
      else case ip_To4 ip of
             Some p4 \<Rightarrow> joinc (CHR ''.'') (map (\<lambda>b. uitoa (unat b)) p4)
           | None \<Rightarrow> if length ip = 16 then v6_String ip else CHR ''?'' # hexString ip)"

definition mask_String :: "ipmask \<Rightarrow> string" where
  "mask_String m = (if m = [] then ''<nil>'' else hexString m)"

definition net_String :: "IPNet \<Rightarrow> string" where
  "net_String n =
     (case networkNumberAndMask n of (nn, m) \<Rightarrow>
        if nn = [] \<or> m = [] then ''<nil>''
        else let l = simpleMaskLength m
             in if l = -1 then ip_String nn @ CHR ''/'' # mask_String m
                else ip_String nn @ CHR ''/'' # uitoa (nat l))"


fun splitc :: "char \<Rightarrow> string \<Rightarrow> string list" where
  "splitc c [] = [[]]"
| "splitc c (x # xs) =
     (if x = c then [] # splitc c xs
      else case splitc c xs of [] \<Rightarrow> [] | t # ts \<Rightarrow> (x # t) # ts)"

lemma splitc_nonempty [simp]: "splitc c xs \<noteq> []"
  by (induction xs) (auto split: list.splits)

lemma splitc_append: "splitc c (xs @ c # ys) = splitc c xs @ splitc c ys"
  by (induction xs) (auto split: list.splits)

lemma splitc_no_sep: "c \<notin> set xs \<Longrightarrow> splitc c xs = [xs]"
  by (induction xs) auto

lemma splitc_joinc:
  "ts \<noteq> [] \<Longrightarrow> (\<And>t. t \<in> set ts \<Longrightarrow> c \<notin> set t) \<Longrightarrow> splitc c (joinc c ts) = ts"
  by (induction c ts rule: joinc.induct) (auto simp: splitc_append splitc_no_sep)

lemma base_digits_bound: "2 \<le> b \<Longrightarrow> d \<in> set (base_digits b n) \<Longrightarrow> d < b"
proof (induction b n rule: base_digits.induct)
  case (1 b n)
  then show ?case by (subst (asm) (2) base_digits.simps) (auto split: if_splits)
qed

lemma base_digits_nonempty [simp]: "base_digits b n \<noteq> []"
  by (subst base_digits.simps) simp

lemma base_digits_value: "2 \<le> b \<Longrightarrow> foldl (\<lambda>a d. a * b + d) 0 (base_digits b n) = n"
proof (induction b n rule: base_digits.induct)
  case (1 b n)
  then show ?case by (subst base_digits.simps) auto
qed

lemma base_digits_inject: "2 \<le> b \<Longrightarrow> base_digits b m = base_digits b n \<longleftrightarrow> m = n"
  by (metis base_digits_value)

lemma digit_char_inj: "inj_on digit_char {..<16}"
proof -
  have "inj_on ((!) hexdigits) {..<16}"
    by (rule inj_on_nth) (simp_all add: hexdigits_def)
  then show ?thesis by (simp add: digit_char_def [abs_def])
qed

lemma digit_char_set: "d < 16 \<Longrightarrow> digit_char d \<in> set hexdigits"
  unfolding digit_char_def by (rule nth_mem) (simp add: hexdigits_def)

lemma map_digit_char_inject:
  "set xs \<subseteq> {..<16} \<Longrightarrow> set ys \<subseteq> {..<16} \<Longrightarrow> map digit_char xs = map digit_char ys \<longleftrightarrow> xs = ys"
  using digit_char_inj by (intro inj_on_map_eq_map inj_on_subset [OF digit_char_inj]) auto

lemma uitoa_inject [simp]: "uitoa m = uitoa n \<longleftrightarrow> m = n"
proof -
  have "set (base_digits 10 k) \<subseteq> {..<16}" for k
    using base_digits_bound [of 10 _ k] by fastforce
  then show ?thesis
    by (simp add: uitoa_def map_digit_char_inject base_digits_inject)
qed

lemma hex_nat_inject [simp]: "hex_nat m = hex_nat n \<longleftrightarrow> m = n"
proof -
  have "set (base_digits 16 k) \<subseteq> {..<16}" for k
    using base_digits_bound [of 16 _ k] by fastforce
  then show ?thesis
    by (simp add: hex_nat_def map_digit_char_inject base_digits_inject)
qed

lemma uitoa_chars: "set (uitoa n) \<subseteq> set hexdigits"
  using base_digits_bound [of 10 _ n] digit_char_set by (fastforce simp: uitoa_def)

lemma hex_nat_chars: "set (hex_nat n) \<subseteq> set hexdigits"
  using base_digits_bound [of 16 _ n] digit_char_set by (fastforce simp: hex_nat_def)

lemma uitoa_no_sep: "c \<notin> set hexdigits \<Longrightarrow> c \<notin> set (uitoa n)"
  using uitoa_chars by blast

lemma hex_nat_no_sep: "c \<notin> set hexdigits \<Longrightarrow> c \<notin> set (hex_nat n)"
  using hex_nat_chars by blast

lemma uitoa_nonempty [simp]: "uitoa n \<noteq> []"
  by (simp add: uitoa_def)

lemma hex_nat_nonempty [simp]: "hex_nat n \<noteq> []"
  by (simp add: hex_nat_def)

lemma set_joinc: "set (joinc c ts) \<subseteq> insert c (\<Union>t\<in>set ts. set t)"
  by (induction c ts rule: joinc.induct) auto


definition zero_range :: "nat list \<Rightarrow> nat \<times> nat \<Rightarrow> bool" where
  "zero_range gs r \<longleftrightarrow> (case r of (zs, ze) \<Rightarrow>
     8 \<le> zs \<or> zs < ze \<and> ze \<le> length gs \<and> take (ze - zs) (drop zs gs) = replicate (ze - zs) 0)"

lemma take_takeWhile_replicate:
  "take (length (takeWhile (\<lambda>g. g = (0::nat)) xs)) xs = replicate (length (takeWhile (\<lambda>g. g = 0) xs)) 0"
  by (induction xs) auto

lemma zero_run_range: "zero_range gs (zero_run gs)"
proof -
  have "zero_range gs r \<Longrightarrow> zero_range gs
     (foldl (\<lambda>(zs, ze) i.
        let j = i + length (takeWhile (\<lambda>g. g = 0) (drop i gs))
        in if 2 \<le> j - i \<and> ze - zs < j - i then (i, j) else (zs, ze)) r is)" for r "is"
  proof (induction "is" arbitrary: r)
    case (Cons i "is")
    obtain zs ze where r: "r = (zs, ze)" by force
    let ?w = "takeWhile (\<lambda>g. g = 0) (drop i gs)"
    have "length ?w \<le> length (drop i gs)" by (rule length_takeWhile_le)
    moreover have "take (length ?w) (drop i gs) = replicate (length ?w) 0"
      by (rule take_takeWhile_replicate)
    ultimately have "2 \<le> length ?w \<Longrightarrow> zero_range gs (i, i + length ?w)"
      unfolding zero_range_def by auto
    then show ?case using Cons by (simp add: r Let_def)
  qed simp
  then show ?thesis by (simp add: zero_run_def zero_range_def)
qed

definition v6_decode :: "string list \<Rightarrow> string list" where
  "v6_decode L =
     (let a = takeWhile (\<lambda>t. t \<noteq> []) L; b = rev (takeWhile (\<lambda>t. t \<noteq> []) (rev L))
      in if a = L then L else a @ replicate (8 - length a - length b) (hex_nat 0) @ b)"

lemma takeWhile_nonempty_tokens:
  assumes "\<And>t. t \<in> set A \<Longrightarrow> t \<noteq> [] \<and> c \<notin> set t"
  shows "takeWhile (\<lambda>t. t \<noteq> []) (splitc c (joinc c A) @ [] # ys) = A"
    and "takeWhile (\<lambda>t. t \<noteq> []) (rev (splitc c (joinc c A)) @ [] # ys) = rev A"
proof -
  have "A = [] \<Longrightarrow> splitc c (joinc c A) = [[]]" by simp
  moreover have "A \<noteq> [] \<Longrightarrow> splitc c (joinc c A) = A" using assms splitc_joinc by blast
  ultimately show "takeWhile (\<lambda>t. t \<noteq> []) (splitc c (joinc c A) @ [] # ys) = A"
    and "takeWhile (\<lambda>t. t \<noteq> []) (rev (splitc c (joinc c A)) @ [] # ys) = rev A"
    using assms by (cases "A = []"; auto simp: takeWhile_append2 takeWhile_tail)+
qed

lemma v6_decode_String:
  assumes "length (v6_groups ip) = 8"
  shows "v6_decode (splitc (CHR '':'') (v6_String ip)) = map hex_nat (v6_groups ip)"
proof -
  let ?c = "CHR '':''"
  let ?gs = "v6_groups ip"
  let ?toks = "map hex_nat ?gs"
  obtain zs ze where zr: "zero_run ?gs = (zs, ze)" by force
  have rng: "zero_range ?gs (zs, ze)" using zero_run_range [of ?gs] zr by simp
  have tok: "t \<noteq> [] \<and> ?c \<notin> set t" if "t \<in> set ?toks" for t
    using that hex_nat_no_sep [of ?c] by (auto simp: hexdigits_def)
  show ?thesis
  proof (cases "8 \<le> zs")
    case True
    then have "splitc ?c (v6_String ip) = ?toks"
      using assms tok by (auto simp: v6_String_def zr Let_def intro!: splitc_joinc)
    moreover have "takeWhile (\<lambda>t. t \<noteq> []) ?toks = ?toks"
      using tok by (simp add: takeWhile_eq_all_conv)
    ultimately show ?thesis by (simp add: v6_decode_def Let_def)
  next
    case False
    let ?A = "take zs ?toks" and ?B = "drop ze ?toks"
    from False rng have z: "zs < ze" "ze \<le> 8" "take (ze - zs) (drop zs ?gs) = replicate (ze - zs) 0"
      using assms by (auto simp: zero_range_def)
    have "v6_String ip = joinc ?c ?A @ ?c # (?c # joinc ?c ?B)"
      using False by (simp add: v6_String_def zr Let_def)
    then have L: "splitc ?c (v6_String ip) = splitc ?c (joinc ?c ?A) @ [] # splitc ?c (joinc ?c ?B)"
      by (simp only: splitc_append) simp
    have tA: "t \<noteq> [] \<and> ?c \<notin> set t" if "t \<in> set ?A" for t
      by (rule tok) (rule in_set_takeD [OF that])
    have tB: "t \<noteq> [] \<and> ?c \<notin> set t" if "t \<in> set ?B" for t
      by (rule tok) (rule in_set_dropD [OF that])
    have a: "takeWhile (\<lambda>t. t \<noteq> []) (splitc ?c (v6_String ip)) = ?A"
      unfolding L by (rule takeWhile_nonempty_tokens(1) [OF tA])
    have b: "takeWhile (\<lambda>t. t \<noteq> []) (rev (splitc ?c (v6_String ip))) = rev ?B"
      unfolding L rev_append rev.simps append_assoc append.simps
      by (rule takeWhile_nonempty_tokens(2) [OF tB])
    have ne: "?A \<noteq> splitc ?c (v6_String ip)"
    proof
      assume "?A = splitc ?c (v6_String ip)"
      then have "[] \<in> set ?A" unfolding L by (metis in_set_conv_decomp)
      then show False using tA by blast
    qed
    have "drop zs ?gs = replicate (ze - zs) 0 @ drop ze ?gs"
      using z append_take_drop_id [of "ze - zs" "drop zs ?gs"] by simp
    then have "?gs = take zs ?gs @ replicate (ze - zs) 0 @ drop ze ?gs"
      using append_take_drop_id [of zs ?gs] by simp
    then have "?toks = ?A @ replicate (ze - zs) (hex_nat 0) @ ?B"
      by (metis map_append map_replicate take_map drop_map)
    moreover have "8 - length ?A - length ?B = ze - zs"
      using assms z by simp
    ultimately show ?thesis
      unfolding v6_decode_def a b Let_def using ne by simp
  qed
qed

lemma length_v6_groups: "length ip = 16 \<Longrightarrow> length (v6_groups ip) = 8"
proof -
  have "even (length ip) \<Longrightarrow> length (v6_groups ip) = length ip div 2"
    by (induction ip rule: v6_groups.induct) auto
  then show "length ip = 16 \<Longrightarrow> ?thesis" by simp
qed

lemma two_digit_inject:
  "(b::nat) < 256 \<Longrightarrow> b' < 256 \<Longrightarrow> 256 * a + b = 256 * a' + b' \<longleftrightarrow> a = a' \<and> b = b'"
proof
  assume b: "b < 256" "b' < 256" and eq: "256 * a + b = 256 * a' + b'"
  have "(256 * a + b) div 256 = a" "(256 * a' + b') div 256 = a'" using b by simp_all
  then have "a = a'" using eq by simp
  then show "a = a' \<and> b = b'" using eq by simp
qed simp

lemma unat_byte_less [simp]: "unat (b::byte) < 256"
  using unsigned_less [where 'a = nat and w = b] by simp

lemma v6_groups_inject:
  "length xs = length ys \<Longrightarrow> even (length xs) \<Longrightarrow> v6_groups xs = v6_groups ys \<longleftrightarrow> xs = ys"
proof (induction xs arbitrary: ys rule: v6_groups.induct)
  case (1 a b bs)
  then obtain a' b' bs' where ys: "ys = a' # b' # bs'"
    by (metis length_Suc_conv)
  have "256 * unat a + unat b = 256 * unat a' + unat b' \<longleftrightarrow> a = a' \<and> b = b'"
    by (simp only: two_digit_inject unat_byte_less word_unat_eq_iff)
  moreover have "v6_groups bs = v6_groups bs' \<longleftrightarrow> bs = bs'"
    using "1.IH" "1.prems" ys by simp
  ultimately show ?case unfolding ys v6_groups.simps list.inject by blast
qed auto

lemma v6_String_inject:
  "length xs = 16 \<Longrightarrow> length ys = 16 \<Longrightarrow> v6_String xs = v6_String ys \<longleftrightarrow> xs = ys"
proof
  assume len: "length xs = 16" "length ys = 16" and eq: "v6_String xs = v6_String ys"
  have "map hex_nat (v6_groups xs) = map hex_nat (v6_groups ys)"
    using v6_decode_String [of xs] v6_decode_String [of ys] len eq by (simp add: length_v6_groups)
  then have "v6_groups xs = v6_groups ys"
    by (metis (no_types, lifting) hex_nat_inject injI inj_map_eq_map)
  then show "xs = ys" using v6_groups_inject len by simp
qed simp

lemma v4_String_inject:
  assumes "length xs = length ys" "xs \<noteq> []"
    and "joinc (CHR ''.'') (map (\<lambda>b. uitoa (unat (b::byte))) xs) = joinc (CHR ''.'') (map (\<lambda>b. uitoa (unat b)) ys)"
  shows "xs = ys"
proof -
  have "CHR ''.'' \<notin> set (uitoa k)" for k by (rule uitoa_no_sep) (simp add: hexdigits_def)
  then have "splitc (CHR ''.'') (joinc (CHR ''.'') (map (\<lambda>b. uitoa (unat (b::byte))) zs)) = map (\<lambda>b. uitoa (unat b)) zs"
    if "zs \<noteq> []" for zs using that by (intro splitc_joinc) auto
  then have "map (\<lambda>b. uitoa (unat b)) xs = map (\<lambda>b. uitoa (unat b)) ys"
    using assms by (metis length_0_conv)
  then show ?thesis
    by (metis (mono_tags, lifting) uitoa_inject injI inj_map_eq_map word_unat_eq_iff)
qed

lemma v6_String_has_colon: "length ip = 16 \<Longrightarrow> CHR '':'' \<in> set (v6_String ip)"
proof -
  assume "length ip = 16"
  then have "length (v6_groups ip) = 8" by (rule length_v6_groups)
  then obtain a b cs where "v6_groups ip = a # b # cs"
    by (metis (no_types, opaque_lifting) Suc_length_conv numeral_eq_Suc pred_numeral_simps(2) pred_numeral_simps(3))
  moreover obtain zs ze where "zero_run (v6_groups ip) = (zs, ze)" by force
  ultimately show ?thesis by (auto simp: v6_String_def Let_def)
qed

lemma ip_String_no_slash:
  assumes "length ip = 4 \<or> length ip = 16 \<and> ip_To4 ip = None"
  shows "CHR ''/'' \<notin> set (ip_String ip)"
proof -
  have d: "CHR ''/'' \<notin> set (uitoa k)" "CHR ''/'' \<notin> set (hex_nat k)" for k
    by (rule uitoa_no_sep hex_nat_no_sep; simp add: hexdigits_def)+
  have j: "CHR ''/'' \<notin> set (joinc c ts)" if "c \<noteq> CHR ''/''" "\<And>t. t \<in> set ts \<Longrightarrow> CHR ''/'' \<notin> set t" for c ts
    using set_joinc [of c ts] that by blast
  obtain zs ze where zr: "zero_run (v6_groups ip) = (zs, ze)" by force
  have t: "CHR ''/'' \<notin> set t" if "t \<in> set (map hex_nat (v6_groups ip))" for t
    using that d by auto
  have "CHR ''/'' \<notin> set (v6_String ip)"
    unfolding v6_String_def Let_def zr prod.case
    using j [of "CHR '':''" "map hex_nat (v6_groups ip)"]
      j [of "CHR '':''" "take zs (map hex_nat (v6_groups ip))"]
      j [of "CHR '':''" "drop ze (map hex_nat (v6_groups ip))"] t
    by (auto dest: in_set_takeD in_set_dropD simp del: set_map)
  moreover have "CHR ''/'' \<notin> set (joinc (CHR ''.'') (map (\<lambda>b. uitoa (unat b)) (ip::byte list)))"
    by (rule j) (auto simp: d)
  ultimately show ?thesis using assms by (auto simp: ip_String_def ip_To4_def)
qed

lemma net_String_wf:
  "wf_net n \<Longrightarrow> net_String n = ip_String (net_IP n) @ CHR ''/'' # uitoa (plen n)"
proof -
  assume wf: "wf_net n"
  then have m: "net_Mask n = cidr_bytes (plen n) (length (net_IP n))" and pl: "plen n \<le> 8 * length (net_IP n)"
    by (simp_all add: wf_net_def addr_bits_def)
  have "simpleMaskLength (net_Mask n) = int (plen n)"
    using simpleMaskLength_cidr_bytes [OF pl] m by simp
  then show ?thesis
    using wf_net_lengths [OF wf] by (auto simp: net_String_def networkNumberAndMask_wf [OF wf] Let_def)
qed

lemma net_String_inject:
  assumes "wf_net a" "wf_net b"
  shows "net_String a = net_String b \<longleftrightarrow> a = b"
proof
  let ?s = "CHR ''/''"
  assume "net_String a = net_String b"
  moreover have "splitc ?s (net_String n) = [ip_String (net_IP n), uitoa (plen n)]" if "wf_net n" for n
  proof -
    have "?s \<notin> set (ip_String (net_IP n))"
      using that by (intro ip_String_no_slash) (auto simp: wf_net_def)
    moreover have "?s \<notin> set (uitoa (plen n))" by (rule uitoa_no_sep) (simp add: hexdigits_def)
    ultimately show ?thesis by (simp add: net_String_wf [OF that] splitc_append splitc_no_sep)
  qed
  ultimately have ips: "ip_String (net_IP a) = ip_String (net_IP b)" and pl: "plen a = plen b"
    using assms by (metis list.inject, metis list.inject uitoa_inject)
  have v4: "CHR '':'' \<notin> set (ip_String ip)" if "length ip = 4" for ip
  proof -
    have "CHR '':'' \<notin> set (uitoa k)" for k by (rule uitoa_no_sep) (simp add: hexdigits_def)
    then show ?thesis
      using that set_joinc [of "CHR ''.''" "map (\<lambda>b. uitoa (unat b)) ip"] by (auto simp: ip_String_def ip_To4_def)
  qed
  have v6: "ip_String ip = v6_String ip" if "length ip = 16" "ip_To4 ip = None" for ip
    using that by (auto simp: ip_String_def)
  have "net_IP a = net_IP b"
  proof (cases "length (net_IP a) = 4")
    case True
    then have "length (net_IP b) = 4"
      using assms(2) ips v4 [of "net_IP a"] v6 [of "net_IP b"] v6_String_has_colon [of "net_IP b"]
      by (auto simp: wf_net_def)
    then show ?thesis
      using True ips by (intro v4_String_inject) (auto simp: ip_String_def ip_To4_def split: if_splits)
  next
    case False
    then have a: "length (net_IP a) = 16" "ip_To4 (net_IP a) = None"
      using assms(1) by (auto simp: wf_net_def)
    then have b: "length (net_IP b) = 16" "ip_To4 (net_IP b) = None"
      using assms(2) ips v4 [of "net_IP b"] v6 [of "net_IP a"] v6_String_has_colon [of "net_IP a"]
      by (auto simp: wf_net_def)
    show ?thesis using a b ips v6 v6_String_inject by metis
  qed
  moreover from this pl assms have "net_Mask a = net_Mask b" by (simp add: wf_net_def)
  ultimately show "a = b" by simp
qed simp

end
