(* ===== verification/GoBits.thy ===== *)
theory GoBits
  imports Prelude
begin

text \<open>Go's unsigned integers at their width: shifts by any count (a count of the width or more
  gives 0), the conversions \<open>uint32(x)\<close> and \<open>uint64(x)\<close>, \<open>encoding/binary\<close> reads of a big-endian
  byte slice (\<open>None\<close> where Go panics on a short slice) and \<open>math/bits\<close>.\<close>

definition go_shl :: "'a::len word \<Rightarrow> nat \<Rightarrow> 'a word" where
  "go_shl w n = (if n < LENGTH('a) then push_bit n w else 0)"

definition go_shr :: "'a::len word \<Rightarrow> nat \<Rightarrow> 'a word" where
  "go_shr w n = (if n < LENGTH('a) then drop_bit n w else 0)"

definition to_uint32 :: "int \<Rightarrow> 32 word" where "to_uint32 = word_of_int"
definition to_uint64 :: "int \<Rightarrow> 64 word" where "to_uint64 = word_of_int"

definition BE_Uint32 :: "byte list \<Rightarrow> 32 word option" where
  "BE_Uint32 b = (if length b < 4 then None else Some (word_of_int (be_int (take 4 b))))"

definition BE_Uint64 :: "byte list \<Rightarrow> 64 word option" where
  "BE_Uint64 b = (if length b < 8 then None else Some (word_of_int (be_int (take 8 b))))"

definition LeadingZeros64 :: "64 word \<Rightarrow> nat" where
  "LeadingZeros64 w = length (takeWhile (\<lambda>i. \<not> bit w (63 - i)) [0..<64])"

lemma bit_int_less: "0 \<le> (x::int) \<Longrightarrow> x < 2 ^ L \<Longrightarrow> bit x n \<Longrightarrow> n < L"
  by (metis bit_take_bit_iff take_bit_int_eq_self_iff)

lemma bit_word_of_int: "bit (word_of_int a :: 'a::len word) n \<longleftrightarrow> n < LENGTH('a) \<and> bit a n"
  by (simp add: bit_word_of_int_iff)

lemma bit_go_shl: "bit (go_shl (w::'a::len word) k) n \<longleftrightarrow> n < LENGTH('a) \<and> k \<le> n \<and> bit w (n - k)"
  by (auto simp: go_shl_def bit_push_bit_iff possible_bit_def)

lemma bit_go_shr: "bit (go_shr (w::'a::len word) k) n \<longleftrightarrow> bit w (n + k)"
  using bit_imp_le_length [of w "n + k"] by (auto simp: go_shr_def bit_drop_bit_eq add.commute)

lemma push_bit_less: "0 \<le> (i::int) \<Longrightarrow> i < 2 ^ d \<Longrightarrow> h + d \<le> L \<Longrightarrow> bit (push_bit h i) n \<Longrightarrow> n < L"
  using bit_int_less [of i d "n - h"] by (auto simp: bit_push_bit_iff)

lemma uint_or_shl:
  assumes "0 \<le> a" "a < 2 ^ LENGTH('a)" "0 \<le> i" "i < 2 ^ d" "h + d \<le> LENGTH('a)"
  shows "uint (word_of_int a OR go_shl (word_of_int i :: 'a::len word) h) = a OR push_bit h i"
proof (rule bit_eqI)
  fix n
  have "bit a n \<Longrightarrow> n < LENGTH('a)" by (rule bit_int_less [OF assms(1,2)])
  moreover have "bit (push_bit h i) n \<Longrightarrow> n < LENGTH('a)" by (rule push_bit_less [OF assms(3-5)])
  ultimately show "bit (uint (word_of_int a OR go_shl (word_of_int i :: 'a word) h)) n \<longleftrightarrow> bit (a OR push_bit h i) n"
    by (auto simp: bit_uint_iff bit_or_iff bit_go_shl bit_word_of_int bit_push_bit_iff)
qed

lemma be_bytes_append: "be_bytes (m + n) x = be_bytes m (drop_bit (8 * n) x) @ be_bytes n x"
  by (induction n arbitrary: x) (simp_all add: algebra_simps drop_bit_drop_bit)

lemma be_bytes_cong: "take_bit (8 * n) x = take_bit (8 * n) y \<Longrightarrow> be_bytes n x = be_bytes n y"
  by (simp add: be_int_be_bytes flip: be_int_inject)

lemma be_bytes_16: "be_bytes 16 x = be_bytes 8 (drop_bit 64 x) @ be_bytes 8 x"
  using be_bytes_append [of 8 8 x] by simp

lemma be_bytes_be_int: "length bs = n \<Longrightarrow> be_bytes n (be_int bs) = bs"
proof -
  assume len: "length bs = n"
  have "take_bit (8 * n) (be_int bs) = be_int bs"
    using be_int_less [of bs] len by (simp add: take_bit_int_eq_self_iff)
  then show ?thesis using len be_int_inject [of "be_bytes n (be_int bs)" bs] by (simp add: be_int_be_bytes)
qed

lemma uint_to_uint32: "0 \<le> x \<Longrightarrow> x < 2 ^ 32 \<Longrightarrow> uint (to_uint32 x) = x"
  unfolding to_uint32_def uint_word_of_int by simp

lemma uint_to_uint64: "0 \<le> x \<Longrightarrow> x < 2 ^ 64 \<Longrightarrow> uint (to_uint64 x) = x"
  unfolding to_uint64_def uint_word_of_int by simp

lemma unat_to_uint32: "0 \<le> x \<Longrightarrow> x < 2 ^ 32 \<Longrightarrow> unat (to_uint32 x) = nat x"
  by (simp only: unat_eq_nat_uint uint_to_uint32)

lemma unat_to_uint64: "0 \<le> x \<Longrightarrow> x < 2 ^ 64 \<Longrightarrow> unat (to_uint64 x) = nat x"
  by (simp only: unat_eq_nat_uint uint_to_uint64)

lemma BE_Uint32_exact: "length b = 4 \<Longrightarrow> BE_Uint32 b = Some (to_uint32 (be_int b))"
  by (simp add: BE_Uint32_def to_uint32_def)

lemma BE_Uint64_halves:
  assumes "length b = 16"
  shows "BE_Uint64 (take 8 b) = Some (word_of_int (drop_bit 64 (be_int b)))"
    and "BE_Uint64 (drop 8 b) = Some (word_of_int (take_bit 64 (be_int b)))"
proof -
  have b: "be_int b = push_bit 64 (be_int (take 8 b)) OR be_int (drop 8 b)"
    using be_int_append [of "take 8 b" "drop 8 b"] assms by simp
  have lt: "be_int (drop 8 b) < 2 ^ 64" using be_int_less [of "drop 8 b"] assms by simp
  have hi: "bit (be_int (drop 8 b)) n \<Longrightarrow> n < 64" for n by (rule bit_int_less [OF be_int_nonneg lt])
  have "drop_bit 64 (be_int b) = be_int (take 8 b)" and "take_bit 64 (be_int b) = be_int (drop 8 b)"
    unfolding b by (auto intro!: bit_eqI simp: bit_simps dest: hi)
  then show "BE_Uint64 (take 8 b) = Some (word_of_int (drop_bit 64 (be_int b)))"
    and "BE_Uint64 (drop 8 b) = Some (word_of_int (take_bit 64 (be_int b)))"
    using assms by (auto simp: BE_Uint64_def)
qed

lemma LeadingZeros64_bit: "bit w n \<Longrightarrow> n < 64 - LeadingZeros64 w"
proof -
  assume bn: "bit w n"
  then have n: "n < 64" using bit_imp_le_length [of w n] by simp
  show ?thesis
  proof (rule ccontr)
    assume "\<not> ?thesis"
    then have lz: "63 - n < LeadingZeros64 w" using n by linarith
    let ?t = "takeWhile (\<lambda>i. \<not> bit w (63 - i)) [0..<64]"
    have "?t ! (63 - n) = 63 - n" using lz takeWhile_nth [of "63 - n" "\<lambda>i. \<not> bit w (63 - i)" "[0..<64]"] n
      unfolding LeadingZeros64_def by simp
    moreover have "?t ! (63 - n) \<in> set ?t" using lz unfolding LeadingZeros64_def by (rule nth_mem)
    ultimately have "\<not> bit w (63 - (63 - n))" by (metis set_takeWhileD)
    then show False using bn n by simp
  qed
qed

end
