(* ===== verification/MultiCIDRSet.thy ===== *)
theory MultiCIDRSet
  imports GoNetString GoBits
begin

text \<open>\<open>pkg/controller/ipam/multicidrset\<close>: the set of equally sized node blocks of one cluster CIDR. A method is a
  function from the set to the new set and an outcome; \<open>Panic\<close> stands for a run-time panic. The functions of
  \<open>k8s.io/utils/net\<close> are the parameter \<open>NetUtils\<close>. A loop over block numbers recurses on the number of blocks
  left.\<close>

datatype go_error =
    CIDRRangeNoCIDRsRemainingErr string
  | CIDRSetSubNetTooBigErr string int int
  | Errorf string
  | Wrap string go_error

datatype 'a outcome = Ret 'a | Fail go_error | Panic

record NetUtils =
  IsIPv4 :: "ip \<Rightarrow> bool"
  IsIPv6 :: "ip \<Rightarrow> bool"
  IsIPv4CIDR :: "IPNet \<Rightarrow> bool"
  IsIPv6CIDR :: "IPNet \<Rightarrow> bool"
  ParseCIDRSloppy :: "string \<Rightarrow> go_error + ip \<times> IPNet"

text \<open>One constructor per metric vector of \<open>metrics.go\<close>: what a set reports under its labels
  \<open>(Label, clusterCIDRName)\<close>. The usage gauge is the fraction \<open>allocatedCIDRs / MaxCIDRs\<close>, kept as the pair.\<close>

datatype metric =
    cidrSetAllocations_Inc
  | cidrSetReleases_Inc
  | cidrSetMaxCidrs_Set int
  | cidrSetUsage_Set int int
  | cidrSetAllocationTries_Observe int

record MultiCIDRSet =
  set_ClusterCIDR :: IPNet
  NodeMaskSize :: int
  MaxCIDRs :: int
  set_Label :: string
  allocatedCIDRMap :: "(string \<times> bool) list"
  clusterMaskSize :: int
  clusterCIDRName :: string
  nodeMask :: ipmask
  allocatedCIDRs :: int
  nextCandidate :: int
  set_metrics :: "metric list"

definition observe :: "metric \<Rightarrow> MultiCIDRSet \<Rightarrow> MultiCIDRSet" where
  "observe m s = s\<lparr>set_metrics := set_metrics s @ [m]\<rparr>"

definition report_usage :: "MultiCIDRSet \<Rightarrow> MultiCIDRSet" where
  "report_usage s = observe (cidrSetUsage_Set (allocatedCIDRs s) (MaxCIDRs s)) s"

definition clusterSubnetMaxDiff :: int where "clusterSubnetMaxDiff = 16"
definition halfIPv6Len :: nat where "halfIPv6Len = 8"

definition getMaxCIDRs :: "int \<Rightarrow> int \<Rightarrow> int" where
  "getMaxCIDRs sub cms =
     sint (go_shl (1 :: 64 word) (unat (to_uint32 (sub - cms))))"

definition NewMultiCIDRSet :: "NetUtils \<Rightarrow> string \<Rightarrow> IPNet \<Rightarrow> int \<Rightarrow> MultiCIDRSet outcome" where
  "NewMultiCIDRSet nu name cidrConfig perNodeHostBits =
     (case mask_Size (net_Mask cidrConfig) of (cms, bits) \<Rightarrow>
        let sub = (if IsIPv4 nu (net_IP cidrConfig) then 32 - perNodeHostBits
                   else if IsIPv6 nu (net_IP cidrConfig) then 128 - perNodeHostBits
                   else 0)
        in if IsIPv6 nu (net_IP cidrConfig) \<and> sub - cms > clusterSubnetMaxDiff
           then Fail (CIDRSetSubNetTooBigErr (net_String cidrConfig) sub cms)
           else Ret \<lparr> set_ClusterCIDR = cidrConfig,
                      NodeMaskSize = sub,
                      MaxCIDRs = getMaxCIDRs sub cms,
                      set_Label = net_String cidrConfig,
                      allocatedCIDRMap = [],
                      clusterMaskSize = cms,
                      clusterCIDRName = name,
                      nodeMask = CIDRMask sub bits,
                      allocatedCIDRs = 0,
                      nextCandidate = 0,
                      set_metrics = [cidrSetMaxCidrs_Set (getMaxCIDRs sub cms)] \<rparr>)"

definition index_ip_v4 :: "MultiCIDRSet \<Rightarrow> int \<Rightarrow> ip option" where
  "index_ip_v4 s index =
     (case BE_Uint32 (net_IP (set_ClusterCIDR s)) of
        None \<Rightarrow> None
      | Some c \<Rightarrow>
          let j = go_shl (to_uint32 index) (unat (to_uint32 (32 - NodeMaskSize s)))
          in Some (be_bytes 4 (uint (c OR j))))"

definition index_ip_v6 :: "MultiCIDRSet \<Rightarrow> int \<Rightarrow> ip option" where
  "index_ip_v6 s index =
     (case (BE_Uint64 (take halfIPv6Len (net_IP (set_ClusterCIDR s))),
            BE_Uint64 (drop halfIPv6Len (net_IP (set_ClusterCIDR s)))) of
        (Some leftClusterIP, Some rightClusterIP) \<Rightarrow>
          Some (
            if NodeMaskSize s \<le> 64 then
              be_bytes 8 (uint (leftClusterIP OR go_shl (to_uint64 index) (unat (to_uint64 (64 - NodeMaskSize s))))) @
              be_bytes 8 (uint rightClusterIP)
            else
              let btl = unat (to_uint64 (NodeMaskSize s - 64));
                  indexMaxBit = 64 - LeadingZeros64 (to_uint64 index);
                  left = (if clusterMaskSize s < 64 \<and> btl < indexMaxBit
                          then leftClusterIP OR go_shr (to_uint64 index) btl
                          else leftClusterIP);
                  right = rightClusterIP OR go_shl (to_uint64 index) (unat (to_uint64 (128 - NodeMaskSize s)))
              in be_bytes 8 (uint left) @ be_bytes 8 (uint right))
      | _ \<Rightarrow> None)"

definition indexToCIDRBlock :: "NetUtils \<Rightarrow> MultiCIDRSet \<Rightarrow> int \<Rightarrow> IPNet outcome" where
  "indexToCIDRBlock nu s index =
     (if IsIPv4 nu (net_IP (set_ClusterCIDR s)) then
        (case index_ip_v4 s index of
           None \<Rightarrow> Panic
         | Some ip \<Rightarrow> Ret \<lparr> net_IP = ip, net_Mask = nodeMask s \<rparr>)
      else if IsIPv6 nu (net_IP (set_ClusterCIDR s)) then
        (case index_ip_v6 s index of
           None \<Rightarrow> Panic
         | Some ip \<Rightarrow> Ret \<lparr> net_IP = ip, net_Mask = nodeMask s \<rparr>)
      else Fail (Errorf ''invalid IP''))"

definition getIndexForIP :: "NetUtils \<Rightarrow> MultiCIDRSet \<Rightarrow> ip \<Rightarrow> int outcome" where
  "getIndexForIP nu s ip =
     (case ip_To4 ip of
        Some ip4 \<Rightarrow>
          (case (BE_Uint32 (net_IP (set_ClusterCIDR s)), BE_Uint32 ip4) of
             (Some c, Some a) \<Rightarrow>
               let cidrIndex = go_shr (c XOR a) (unat (to_uint32 (32 - NodeMaskSize s)))
               in if cidrIndex \<ge> to_uint32 (MaxCIDRs s)
                  then Fail (Errorf ''CIDR is out of the range of CIDR allocator'')
                  else Ret (uint cidrIndex)
           | _ \<Rightarrow> Panic)
      | None \<Rightarrow>
          if IsIPv6 nu ip then
            (let bigIP = be_int (net_IP (set_ClusterCIDR s)) XOR be_int ip;
                 cidrIndex = to_uint64 (drop_bit (unat (to_uint64 (128 - NodeMaskSize s))) bigIP)
             in if cidrIndex \<ge> to_uint64 (MaxCIDRs s)
                then Fail (Errorf ''CIDR is out of the range of CIDR allocator'')
                else Ret (sint cidrIndex))
          else Fail (Errorf ''invalid IP''))"

fun next_candidate_loop ::
    "NetUtils \<Rightarrow> MultiCIDRSet \<Rightarrow> nat \<Rightarrow> int \<Rightarrow> int \<Rightarrow> MultiCIDRSet \<times> (IPNet \<times> int) outcome" where
  "next_candidate_loop nu s 0 i candidate = (s, Fail (CIDRRangeNoCIDRsRemainingErr (set_Label s)))"
| "next_candidate_loop nu s (Suc n) i candidate =
     (case indexToCIDRBlock nu s candidate of
        Panic \<Rightarrow> (s, Panic)
      | Fail e \<Rightarrow> (s, Fail e)
      | Ret nextCandidateCIDR \<Rightarrow>
          if map_of (allocatedCIDRMap s) (net_String nextCandidateCIDR) = None
          then (s\<lparr>nextCandidate := (candidate + 1) mod MaxCIDRs s\<rparr>, Ret (nextCandidateCIDR, i))
          else next_candidate_loop nu s n (i + 1) ((candidate + 1) mod MaxCIDRs s))"

definition NextCandidate :: "NetUtils \<Rightarrow> MultiCIDRSet \<Rightarrow> MultiCIDRSet \<times> (IPNet \<times> int) outcome" where
  "NextCandidate nu s =
     (if allocatedCIDRs s = MaxCIDRs s
      then (s, Fail (CIDRRangeNoCIDRsRemainingErr (set_Label s)))
      else next_candidate_loop nu s (nat (MaxCIDRs s)) 0 (nextCandidate s))"

definition last_ip_v4 :: "IPNet \<Rightarrow> nat \<Rightarrow> ip option" where
  "last_ip_v4 cidr ipSize =
     (case (BE_Uint32 (net_IP cidr), BE_Uint32 (net_Mask cidr)) of
        (Some a, Some m) \<Rightarrow> Some (be_bytes 4 (uint (a OR NOT m)) @ replicate (ipSize - 4) 0)
      | _ \<Rightarrow> None)"

definition last_ip_v6 :: "IPNet \<Rightarrow> nat \<Rightarrow> ip option" where
  "last_ip_v6 cidr ipSize =
     (case (BE_Uint64 (take 8 (net_IP cidr)), BE_Uint64 (take 8 (net_Mask cidr)),
            BE_Uint64 (drop 8 (net_IP cidr)), BE_Uint64 (drop 8 (net_Mask cidr))) of
        (Some al, Some ml, Some ar, Some mr) \<Rightarrow>
          if ipSize < 16 then None
          else Some (be_bytes 8 (uint (al OR NOT ml)) @ be_bytes 8 (uint (ar OR NOT mr)))
      | _ \<Rightarrow> None)"

definition getBeginningAndEndIndices ::
    "NetUtils \<Rightarrow> MultiCIDRSet \<Rightarrow> IPNet option \<Rightarrow> (int \<times> int) outcome" where
  "getBeginningAndEndIndices nu s pcidr =
     (case pcidr of
        None \<Rightarrow> Fail (Errorf ''error getting indices for cluster cidr, cidr is nil'')
      | Some cidr \<Rightarrow>
          let c = set_ClusterCIDR s; maskSize = fst (mask_Size (net_Mask cidr))
          in if \<not> net_Contains c (ip_Mask (net_IP cidr) (net_Mask c)) \<and>
                \<not> net_Contains cidr (ip_Mask (net_IP c) (net_Mask cidr))
             then Fail (Errorf ''cidr is out the range of cluster cidr'')
             else if clusterMaskSize s < maskSize then
               let ipSize = (if IsIPv6 nu (net_IP cidr) then IPv6len else IPv4len)
               in (case getIndexForIP nu s (ip_Mask (net_IP cidr) (nodeMask s)) of
                     Panic \<Rightarrow> Panic
                   | Fail e \<Rightarrow> Fail e
                   | Ret begin \<Rightarrow>
                       (case (if IsIPv4 nu (net_IP cidr) then last_ip_v4 cidr ipSize else last_ip_v6 cidr ipSize) of
                          None \<Rightarrow> Panic
                        | Some ip \<Rightarrow>
                            (case getIndexForIP nu s (ip_Mask ip (nodeMask s)) of
                               Panic \<Rightarrow> Panic
                             | Fail e \<Rightarrow> Fail e
                             | Ret end \<Rightarrow> Ret (begin, end))))
             else Ret (0, MaxCIDRs s - 1))"

fun release_loop :: "NetUtils \<Rightarrow> MultiCIDRSet \<Rightarrow> nat \<Rightarrow> int \<Rightarrow> MultiCIDRSet \<times> unit outcome" where
  "release_loop nu s 0 i = (report_usage s, Ret ())"
| "release_loop nu s (Suc n) i =
     (case indexToCIDRBlock nu s i of
        Panic \<Rightarrow> (s, Panic)
      | Fail e \<Rightarrow> (s, Fail e)
      | Ret currCIDR \<Rightarrow>
          release_loop nu
            (if map_of (allocatedCIDRMap s) (net_String currCIDR) \<noteq> None
             then observe cidrSetReleases_Inc
                    (s\<lparr>allocatedCIDRMap := AList.delete (net_String currCIDR) (allocatedCIDRMap s),
                       allocatedCIDRs := allocatedCIDRs s - 1\<rparr>)
             else s) n (i + 1))"

definition set_Release :: "NetUtils \<Rightarrow> MultiCIDRSet \<Rightarrow> IPNet option \<Rightarrow> MultiCIDRSet \<times> unit outcome" where
  "set_Release nu s cidr =
     (case getBeginningAndEndIndices nu s cidr of
        Panic \<Rightarrow> (s, Panic)
      | Fail e \<Rightarrow> (s, Fail e)
      | Ret (begin, end) \<Rightarrow> release_loop nu s (nat (end - begin + 1)) begin)"

fun occupy_loop :: "NetUtils \<Rightarrow> MultiCIDRSet \<Rightarrow> nat \<Rightarrow> int \<Rightarrow> MultiCIDRSet \<times> unit outcome" where
  "occupy_loop nu s 0 i = (report_usage s, Ret ())"
| "occupy_loop nu s (Suc n) i =
     (case indexToCIDRBlock nu s i of
        Panic \<Rightarrow> (s, Panic)
      | Fail e \<Rightarrow> (s, Fail e)
      | Ret currCIDR \<Rightarrow>
          occupy_loop nu
            (if map_of (allocatedCIDRMap s) (net_String currCIDR) = None
             then (observe cidrSetAllocations_Inc
                     (s\<lparr>allocatedCIDRMap := AList.update (net_String currCIDR) True (allocatedCIDRMap s)\<rparr>))
                  \<lparr>allocatedCIDRs := allocatedCIDRs s + 1\<rparr>
             else s) n (i + 1))"

definition set_Occupy :: "NetUtils \<Rightarrow> MultiCIDRSet \<Rightarrow> IPNet option \<Rightarrow> MultiCIDRSet \<times> unit outcome" where
  "set_Occupy nu s cidr =
     (case getBeginningAndEndIndices nu s cidr of
        Panic \<Rightarrow> (s, Panic)
      | Fail e \<Rightarrow> (s, Fail e)
      | Ret (begin, end) \<Rightarrow> occupy_loop nu s (nat (end - begin + 1)) begin)"

definition UpdateEvaluatedCount :: "MultiCIDRSet \<Rightarrow> int \<Rightarrow> MultiCIDRSet" where
  "UpdateEvaluatedCount s evaluated = observe (cidrSetAllocationTries_Observe evaluated) s"

definition CIDRAllocated :: "MultiCIDRSet \<Rightarrow> IPNet \<Rightarrow> bool" where
  "CIDRAllocated s cidr \<longleftrightarrow> map_of (allocatedCIDRMap s) (net_String cidr) \<noteq> None"

fun overlaps_loop :: "NetUtils \<Rightarrow> (string \<times> bool) list \<Rightarrow> IPNet \<Rightarrow> bool" where
  "overlaps_loop nu [] cidr = False"
| "overlaps_loop nu ((allocated, _) # rest) cidr =
     (case ParseCIDRSloppy nu allocated of
        Inl _ \<Rightarrow> overlaps_loop nu rest cidr
      | Inr (_, allocatedCIDR) \<Rightarrow>
          if nets_intersect cidr allocatedCIDR then True else overlaps_loop nu rest cidr)"

definition CIDROverlaps :: "NetUtils \<Rightarrow> MultiCIDRSet \<Rightarrow> IPNet \<Rightarrow> bool" where
  "CIDROverlaps nu s cidr = overlaps_loop nu (allocatedCIDRMap s) cidr"

end
