(* ===== verification/CIDRGeometry.thy ===== *)
theory CIDRGeometry
  imports MultiCIDRSet
begin

text \<open>The geometry of a set of blocks: which addresses block number \<open>i\<close> of a cluster CIDR holds,
  which block an address falls into, and which blocks a CIDR touches. The address arithmetic of
  \<open>indexToCIDRBlock\<close>, \<open>getIndexForIP\<close> and \<open>getBeginningAndEndIndices\<close> is proved equal to these
  descriptions for both address families.\<close>

definition set_bits :: "MultiCIDRSet \<Rightarrow> nat" where
  "set_bits s = addr_bits (set_ClusterCIDR s)"

definition host_bits :: "MultiCIDRSet \<Rightarrow> nat" where
  "host_bits s = nat (int (set_bits s) - NodeMaskSize s)"

definition sub_bits :: "MultiCIDRSet \<Rightarrow> nat" where
  "sub_bits s = nat (NodeMaskSize s - clusterMaskSize s)"

definition blk :: "MultiCIDRSet \<Rightarrow> int \<Rightarrow> IPNet" where
  "blk s i =
     \<lparr> net_IP = be_bytes (length (net_IP (set_ClusterCIDR s))) (net_addr (set_ClusterCIDR s) OR push_bit (host_bits s) i),
       net_Mask = nodeMask s \<rparr>"

definition wf_geometry :: "MultiCIDRSet \<Rightarrow> bool" where
  "wf_geometry s \<longleftrightarrow>
     wf_net (set_ClusterCIDR s) \<and>
     (length (net_IP (set_ClusterCIDR s)) = 16 \<longrightarrow> take 10 (net_IP (set_ClusterCIDR s)) \<noteq> replicate 10 0) \<and>
     clusterMaskSize s = int (plen (set_ClusterCIDR s)) \<and>
     clusterMaskSize s \<le> NodeMaskSize s \<and> NodeMaskSize s \<le> int (set_bits s) \<and>
     NodeMaskSize s - clusterMaskSize s < 32 \<and>
     MaxCIDRs s = 2 ^ sub_bits s \<and>
     nodeMask s = cidr_bytes (nat (NodeMaskSize s)) (length (net_IP (set_ClusterCIDR s)))"

definition netutils_families :: "NetUtils \<Rightarrow> bool" where
  "netutils_families nu \<longleftrightarrow>
     (\<forall>ip. length ip = 4 \<or> length ip = 16 \<longrightarrow>
        IsIPv4 nu ip = (ip_To4 ip \<noteq> None) \<and> IsIPv6 nu ip = (ip_To4 ip = None))"

definition in_range :: "MultiCIDRSet \<Rightarrow> int \<Rightarrow> bool" where
  "in_range s i \<longleftrightarrow> 0 \<le> i \<and> i < MaxCIDRs s"

lemma wf_geometry_family:
  "wf_geometry s \<Longrightarrow> length (net_IP (set_ClusterCIDR s)) = 4 \<and> set_bits s = 32 \<or>
     length (net_IP (set_ClusterCIDR s)) = 16 \<and> set_bits s = 128 \<and> ip_To4 (net_IP (set_ClusterCIDR s)) = None"
  by (auto simp: wf_geometry_def wf_net_def set_bits_def addr_bits_def)

lemma geometry_bits:
  assumes "wf_geometry s"
  shows "host_bits s + sub_bits s + nat (clusterMaskSize s) = set_bits s"
    and "host_bits s + sub_bits s \<le> set_bits s"
    and "int (host_bits s) = int (set_bits s) - NodeMaskSize s"
    and "sub_bits s < 32"
  using assms by (auto simp: wf_geometry_def host_bits_def sub_bits_def nat_le_iff)

lemma index_ip_v4_eq:
  assumes "wf_geometry s" "length (net_IP (set_ClusterCIDR s)) = 4" "in_range s i"
  shows "index_ip_v4 s i = Some (net_IP (blk s i))"
proof -
  let ?c = "set_ClusterCIDR s"
  have W: "set_bits s = 32" using wf_geometry_family [OF assms(1)] assms(2) by auto
  note g = geometry_bits [OF assms(1)]
  have h: "unat (to_uint32 (32 - NodeMaskSize s)) = host_bits s"
    using assms(1) W unat_to_uint32 [of "32 - NodeMaskSize s"] by (simp add: host_bits_def wf_geometry_def)
  have "i < 2 ^ sub_bits s" "0 \<le> i" using assms(1,3) by (simp_all add: in_range_def wf_geometry_def)
  moreover have "0 \<le> be_int (net_IP ?c)" "be_int (net_IP ?c) < 2 ^ 32"
    using be_int_less [of "net_IP ?c"] assms(2) by simp_all
  ultimately have "uint (word_of_int (be_int (net_IP ?c)) OR go_shl (word_of_int i :: 32 word) (host_bits s)) =
      be_int (net_IP ?c) OR push_bit (host_bits s) i"
    using g W by (intro uint_or_shl) auto
  then show ?thesis
    unfolding to_uint32_def [symmetric]
    using assms(2) by (simp add: index_ip_v4_def BE_Uint32_exact h Let_def blk_def net_addr_def)
qed


lemma index_ip_v6_eq:
  assumes "wf_geometry s" "length (net_IP (set_ClusterCIDR s)) = 16" "in_range s i"
  shows "index_ip_v6 s i = Some (net_IP (blk s i))"
proof -
  define a where "a = be_int (net_IP (set_ClusterCIDR s))"
  define h where "h = host_bits s"
  define d where "d = sub_bits s"
  have W: "set_bits s = 128" using wf_geometry_family [OF assms(1)] assms(2) by auto
  note g = geometry_bits [OF assms(1), folded h_def d_def, unfolded W]
  have nms: "NodeMaskSize s = 128 - int h" "0 \<le> NodeMaskSize s" "NodeMaskSize s \<le> 128"
    using g(3) assms(1) W by (auto simp: wf_geometry_def)
  have i: "0 \<le> i" "i < 2 ^ d" using assms(1,3) by (simp_all add: in_range_def wf_geometry_def d_def)
  have "(2::int) ^ d < 2 ^ 32" using g(4) by (intro power_strict_increasing) auto
  then have i64: "i < 2 ^ 64" using i by simp
  have bi: "bit i n \<Longrightarrow> n < d" for n by (rule bit_int_less [OF i])
  have a: "0 \<le> a" "a < 2 ^ 128" using be_int_less [of "net_IP (set_ClusterCIDR s)"] assms(2) by (simp_all add: a_def)
  have ba: "bit a n \<Longrightarrow> n < 128" for n by (rule bit_int_less [OF a])
  note halves = BE_Uint64_halves [OF assms(2), folded a_def]
  let ?L = "word_of_int (drop_bit 64 a) :: 64 word" and ?R = "word_of_int (take_bit 64 a) :: 64 word"
  let ?x = "a OR push_bit h i"
  have goal: "net_IP (blk s i) = be_bytes 8 (drop_bit 64 ?x) @ be_bytes 8 ?x"
    using assms(2) by (simp add: blk_def net_addr_def be_bytes_16 a_def h_def)
  show ?thesis
  proof (cases "NodeMaskSize s \<le> 64")
    case True
    then have k: "unat (to_uint64 (64 - NodeMaskSize s)) = h - 64"
      using nms unat_to_uint64 [of "64 - NodeMaskSize s"] by simp
    have h: "64 \<le> h" using True nms by simp
    have "uint (?L OR go_shl (to_uint64 i) (h - 64)) = drop_bit 64 ?x"
      using h g by (intro bit_eqI)
        (auto simp: bit_uint_iff bit_or_iff bit_go_shl bit_word_of_int bit_drop_bit_eq bit_push_bit_iff to_uint64_def add.commute
          dest: ba bi)
    moreover have "be_bytes 8 (uint ?R) = be_bytes 8 ?x"
      using h by (intro be_bytes_cong bit_eqI)
        (auto simp: bit_uint_iff bit_or_iff bit_take_bit_iff bit_word_of_int bit_push_bit_iff)
    ultimately show ?thesis
      using True by (simp add: index_ip_v6_def halfIPv6Len_def halves k goal)
  next
    case False
    then have k: "unat (to_uint64 (128 - NodeMaskSize s)) = h" "unat (to_uint64 (NodeMaskSize s - 64)) = 64 - h"
      using nms unat_to_uint64 [of "128 - NodeMaskSize s"] unat_to_uint64 [of "NodeMaskSize s - 64"] by simp_all
    have h: "h < 64" using False nms by simp
    let ?cond = "clusterMaskSize s < 64 \<and> 64 - h < 64 - LeadingZeros64 (to_uint64 i)"
    let ?left = "if ?cond then ?L OR go_shr (to_uint64 i) (64 - h) else ?L"
    have hi: "?cond" if "bit i n" "64 \<le> n + h" for n
    proof -
      have "n < d" by (rule bi [OF that(1)])
      then have "clusterMaskSize s < 64" using that(2) g(1) by linarith
      moreover have "bit (to_uint64 i) n"
        using that(1) \<open>n < d\<close> g(4) by (simp add: to_uint64_def bit_word_of_int)
      then have "n < 64 - LeadingZeros64 (to_uint64 i)" by (rule LeadingZeros64_bit)
      ultimately show ?thesis using that(2) by linarith
    qed
    have "uint ?left = drop_bit 64 ?x"
    proof (rule bit_eqI)
      fix n
      have "bit (uint ?left) n \<longleftrightarrow> n < 64 \<and> (bit a (n + 64) \<or> ?cond \<and> bit i (n + (64 - h)))"
        using h g(4) by (auto simp: bit_uint_iff bit_or_iff bit_go_shr bit_word_of_int bit_drop_bit_eq to_uint64_def add.commute
             dest: bi ba)
      also have "\<dots> \<longleftrightarrow> bit a (n + 64) \<or> bit i (n + (64 - h))"
        using hi [of "n + (64 - h)"] h g(4) ba [of "n + 64"] bi [of "n + (64 - h)"] by auto
      finally show "bit (uint ?left) n \<longleftrightarrow> bit (drop_bit 64 ?x) n"
        using h by (simp add: bit_drop_bit_eq bit_or_iff bit_push_bit_iff add.commute)
    qed
    moreover have "be_bytes 8 (uint (?R OR go_shl (to_uint64 i) h)) = be_bytes 8 ?x"
      by (intro be_bytes_cong bit_eqI)
        (auto simp: bit_uint_iff bit_or_iff bit_take_bit_iff bit_word_of_int bit_push_bit_iff bit_go_shl to_uint64_def)
    ultimately show ?thesis
      using False by (simp add: index_ip_v6_def halfIPv6Len_def halves k goal Let_def)
  qed
qed


lemma in_range_bounds: "wf_geometry s \<Longrightarrow> in_range s i \<longleftrightarrow> 0 \<le> i \<and> i < 2 ^ sub_bits s"
  by (simp add: in_range_def wf_geometry_def)

lemma indexToCIDRBlock_eq:
  assumes "netutils_families nu" "wf_geometry s" "in_range s i"
  shows "indexToCIDRBlock nu s i = Ret (blk s i)"
proof -
  let ?ip = "net_IP (set_ClusterCIDR s)"
  have m: "nodeMask s = net_Mask (blk s i)" by (simp add: blk_def)
  from wf_geometry_family [OF assms(2)] consider "length ?ip = 4" | "length ?ip = 16" "ip_To4 ?ip = None"
    by auto
  then show ?thesis
  proof cases
    case 1
    then have "IsIPv4 nu ?ip" using assms(1) by (auto simp: netutils_families_def ip_To4_def)
    then show ?thesis using index_ip_v4_eq [OF assms(2) 1 assms(3)] by (simp add: indexToCIDRBlock_def m)
  next
    case 2
    then have "IsIPv6 nu ?ip" "\<not> IsIPv4 nu ?ip" using assms(1) by (auto simp: netutils_families_def)
    then show ?thesis using index_ip_v6_eq [OF assms(2) 2(1) assms(3)] by (simp add: indexToCIDRBlock_def m)
  qed
qed

definition in_cluster :: "MultiCIDRSet \<Rightarrow> int \<Rightarrow> bool" where
  "in_cluster s a \<longleftrightarrow> a \<in> addresses (set_ClusterCIDR s)"

definition slot :: "MultiCIDRSet \<Rightarrow> int \<Rightarrow> int" where
  "slot s a = drop_bit (host_bits s) (net_addr (set_ClusterCIDR s) XOR a)"

lemma wf_net_addr_low:
  assumes "wf_net n" "bit (net_addr n) k"
  shows "addr_bits n - plen n \<le> k"
proof -
  have "net_addr n = push_bit (addr_bits n - plen n) (drop_bit (addr_bits n - plen n) (net_addr n))"
  proof -
    have "map2 (AND) (net_IP n) (cidr_bytes (plen n) (length (net_IP n))) = net_IP n" and "plen n \<le> 8 * length (net_IP n)"
      using assms(1) by (auto simp: wf_net_def addr_bits_def)
    then show ?thesis
      using and_cidr_bytes [of "plen n" "length (net_IP n)" "net_IP n"] by (simp add: net_addr_def addr_bits_def)
  qed
  then show ?thesis using assms(2) by (metis bit_push_bit_iff)
qed

lemma cluster_low_bits:
  assumes "wf_geometry s"
  shows "set_bits s - plen (set_ClusterCIDR s) = host_bits s + sub_bits s"
  using geometry_bits(1) [OF assms] assms by (simp add: wf_geometry_def)

lemma cluster_addr_low:
  assumes "wf_geometry s" "bit (net_addr (set_ClusterCIDR s)) k"
  shows "host_bits s + sub_bits s \<le> k"
proof -
  have "set_bits s - plen (set_ClusterCIDR s) \<le> k"
    using wf_net_addr_low [OF _ assms(2)] assms(1) by (simp add: set_bits_def wf_geometry_def)
  then show ?thesis using cluster_low_bits [OF assms(1)] by simp
qed

lemma drop_bit_eq_iff: "drop_bit e (a::int) = drop_bit e b \<longleftrightarrow> (\<forall>k \<ge> e. bit a k = bit b k)"
proof
  assume "drop_bit e a = drop_bit e b"
  then have eq: "bit (drop_bit e a) (k - e) = bit (drop_bit e b) (k - e)" for k by simp
  show "\<forall>k \<ge> e. bit a k = bit b k"
  proof (intro allI impI)
    fix k assume "e \<le> k"
    then show "bit a k = bit b k" using eq [of k] by (simp add: bit_drop_bit_eq)
  qed
qed (auto intro: bit_eqI simp: bit_drop_bit_eq)

lemma be_int_take: "k \<le> length b \<Longrightarrow> drop_bit (8 * (length b - k)) (be_int b) = be_int (take k b)"
proof -
  assume "k \<le> length b"
  then have b: "be_int b = push_bit (8 * (length b - k)) (be_int (take k b)) OR be_int (drop k b)"
    using be_int_append [of "take k b" "drop k b"] by simp
  have lt: "be_int (drop k b) < 2 ^ (8 * (length b - k))" using be_int_less [of "drop k b"] by simp
  have "bit (be_int (drop k b)) n \<Longrightarrow> n < 8 * (length b - k)" for n
    by (rule bit_int_less [OF be_int_nonneg lt])
  then have "\<not> bit (be_int (drop k b)) (8 * (length b - k) + n)" for n by fastforce
  then show ?thesis
    unfolding b by (auto intro!: bit_eqI simp: bit_drop_bit_eq bit_or_iff bit_push_bit_iff)
qed

lemma in_cluster_iff:
  assumes "wf_geometry s"
  shows "in_cluster s a \<longleftrightarrow> 0 \<le> a \<and> a < 2 ^ set_bits s \<and>
    (\<forall>k \<ge> host_bits s + sub_bits s. bit a k = bit (net_addr (set_ClusterCIDR s)) k)"
proof -
  show ?thesis
    using drop_bit_eq_iff cluster_low_bits [OF assms] by (auto simp: in_cluster_def addresses_def net_prefix_def set_bits_def)
qed

lemma cluster_addr_bounds:
  assumes "wf_geometry s"
  shows "0 \<le> net_addr (set_ClusterCIDR s)" "net_addr (set_ClusterCIDR s) < 2 ^ set_bits s"
  using wf_net_addr_bounds [of "set_ClusterCIDR s"] assms by (auto simp: wf_geometry_def set_bits_def)

lemma slot_in_range:
  assumes "wf_geometry s" "in_cluster s a"
  shows "in_range s (slot s a)"
proof -
  have "take_bit (sub_bits s) (slot s a) = slot s a"
    using assms(2) unfolding in_cluster_iff [OF assms(1)] slot_def
    by (intro bit_eqI) (auto simp: bit_take_bit_iff bit_drop_bit_eq bit_xor_iff, metis add_le_cancel_left linorder_not_le)
  moreover have "0 \<le> slot s a"
    using assms cluster_addr_bounds(1) [OF assms(1)] in_cluster_iff [OF assms(1)] by (simp add: slot_def)
  ultimately show ?thesis
    using in_range_bounds [OF assms(1)] by (metis take_bit_int_less_exp)
qed

lemma net_addr_blk:
  assumes "wf_geometry s" "in_range s i"
  shows "net_addr (blk s i) = net_addr (set_ClusterCIDR s) OR push_bit (host_bits s) i"
    and "addr_bits (blk s i) = set_bits s"
proof -
  let ?x = "net_addr (set_ClusterCIDR s) OR push_bit (host_bits s) i"
  have i: "0 \<le> i" "i < 2 ^ sub_bits s" using assms in_range_bounds by auto
  have "take_bit (set_bits s) ?x = ?x"
    using bit_int_less [OF cluster_addr_bounds [OF assms(1)]]
      push_bit_less [OF i geometry_bits(2) [OF assms(1)]]
    by (intro bit_eqI) (auto simp: bit_take_bit_iff bit_or_iff)
  then show "net_addr (blk s i) = ?x"
    by (simp add: blk_def net_addr_def be_int_be_bytes set_bits_def addr_bits_def)
  show "addr_bits (blk s i) = set_bits s"
    by (simp add: blk_def addr_bits_def set_bits_def)
qed

lemma be_int_replicate_0 [simp]: "be_int (replicate n 0) = 0"
  by (induction n) auto

lemma in_cluster_To4:
  assumes "wf_geometry s" "length (net_IP (set_ClusterCIDR s)) = 16" "length ip = 16" "in_cluster s (be_int ip)"
  shows "ip_To4 ip = None"
proof (rule ccontr)
  have top: "drop_bit 48 (be_int b) = be_int (take 10 b)" if "length b = 16" for b
    using be_int_take [of 10 b] that by simp
  let ?c = "net_IP (set_ClusterCIDR s)"
  assume "ip_To4 ip \<noteq> None"
  then have "take 12 ip = v4InV6Prefix" using assms(3) by (auto simp: ip_To4_def split: if_splits)
  then have "take 10 (take 12 ip) = replicate 10 0" by (simp add: v4InV6Prefix_def)
  then have "be_int (take 10 ip) = be_int (replicate 10 0)" by simp
  then have z: "drop_bit 48 (be_int ip) = 0" using top [OF assms(3)] by (simp only: be_int_replicate_0)
  have "be_int (take 10 ?c) \<noteq> 0"
  proof
    assume "be_int (take 10 ?c) = 0"
    then have "be_int (take 10 ?c) = be_int (replicate 10 0)" by (simp only: be_int_replicate_0)
    then have "take 10 ?c = replicate 10 0" using assms(2) by (subst (asm) be_int_inject) simp_all
    then show False using assms(1,2) by (simp add: wf_geometry_def)
  qed
  then have "drop_bit 48 (net_addr (set_ClusterCIDR s)) \<noteq> 0" using top [OF assms(2)] by (simp add: net_addr_def)
  then obtain k where k: "bit (net_addr (set_ClusterCIDR s)) (48 + k)"
    by (auto simp: bit_eq_iff [of _ "0::int"] bit_drop_bit_eq)
  then have "bit (be_int ip) (48 + k)"
    using cluster_addr_low [OF assms(1) k] assms(4) by (simp add: in_cluster_iff [OF assms(1)])
  then have "bit (drop_bit 48 (be_int ip)) k" by (simp add: bit_drop_bit_eq)
  then show False unfolding z by simp
qed


lemma blk_in_cluster:
  assumes "wf_geometry s" "in_range s i"
  shows "in_cluster s (net_addr (blk s i))"
proof -
  have i: "0 \<le> i" "i < 2 ^ sub_bits s" using assms in_range_bounds by auto
  have "net_addr (blk s i) < 2 ^ set_bits s"
    using be_int_less [of "net_IP (blk s i)"] net_addr_blk(2) [OF assms] by (simp add: net_addr_def addr_bits_def)
  moreover have "0 \<le> net_addr (blk s i)" by (simp add: net_addr_def)
  moreover have "\<not> bit (push_bit (host_bits s) i) k" if "host_bits s + sub_bits s \<le> k" for k
    using that bit_int_less [OF i, of "k - host_bits s"] by (auto simp: bit_push_bit_iff)
  ultimately show ?thesis
    unfolding in_cluster_iff [OF assms(1)] net_addr_blk(1) [OF assms] by (auto simp: bit_or_iff)
qed

lemma blk_addr_low:
  assumes "wf_geometry s" "in_range s i" "bit (net_addr (blk s i)) n"
  shows "host_bits s \<le> n"
  using assms(3) cluster_addr_low [OF assms(1), of n]
  by (auto simp: net_addr_blk [OF assms(1,2)] bit_or_iff bit_push_bit_iff)

lemma wf_net_blk:
  assumes "wf_geometry s" "in_range s i"
  shows "wf_net (blk s i)" and "plen (blk s i) = nat (NodeMaskSize s)"
    and "length (net_IP (blk s i)) = length (net_IP (set_ClusterCIDR s))"
proof -
  let ?k = "length (net_IP (set_ClusterCIDR s))" and ?l = "nat (NodeMaskSize s)"
  show len: "length (net_IP (blk s i)) = ?k" by (simp add: blk_def)
  have mask: "net_Mask (blk s i) = cidr_bytes ?l ?k" using assms(1) by (simp add: blk_def wf_geometry_def)
  have l: "?l \<le> 8 * ?k" using assms(1) by (simp add: wf_geometry_def set_bits_def addr_bits_def nat_le_iff)
  then show pl: "plen (blk s i) = ?l"
    by (simp add: plen_def mask mask_Size_def simpleMaskLength_cidr_bytes Let_def)
  have h: "8 * ?k - ?l = host_bits s"
    using assms(1) by (simp add: wf_geometry_def host_bits_def set_bits_def addr_bits_def nat_diff_distrib')
  have "be_int (map2 (AND) (net_IP (blk s i)) (net_Mask (blk s i))) = be_int (net_IP (blk s i))"
  proof (rule bit_eqI)
    fix n
    have "bit (net_addr (blk s i)) n \<Longrightarrow> host_bits s \<le> n"
      by (rule blk_addr_low [OF assms])
    then show "bit (be_int (map2 (AND) (net_IP (blk s i)) (net_Mask (blk s i)))) n = bit (be_int (net_IP (blk s i))) n"
      unfolding mask and_cidr_bytes [OF l len] h
      by (auto simp: bit_push_bit_iff bit_drop_bit_eq net_addr_def)
  qed
  then have "map2 (AND) (net_IP (blk s i)) (net_Mask (blk s i)) = net_IP (blk s i)"
    by (subst (asm) be_int_inject) (simp_all add: mask len)
  moreover have "?k = 4 \<or> ?k = 16 \<and> ip_To4 (net_IP (blk s i)) = None"
    using wf_geometry_family [OF assms(1)] in_cluster_To4 [OF assms(1) _ _ blk_in_cluster [OF assms, unfolded net_addr_def]] len
    by auto
  ultimately show "wf_net (blk s i)"
    using l mask len pl by (auto simp: wf_net_def addr_bits_def)
qed

lemma addresses_blk:
  assumes "wf_geometry s" "in_range s i"
  shows "a \<in> addresses (blk s i) \<longleftrightarrow> in_cluster s a \<and> slot s a = i"
proof -
  let ?h = "host_bits s" and ?d = "sub_bits s" and ?c = "net_addr (set_ClusterCIDR s)"
  have i: "0 \<le> i" "i < 2 ^ ?d" using assms in_range_bounds by auto
  have bi: "bit i n \<Longrightarrow> n < ?d" for n by (rule bit_int_less [OF i])
  have bc: "bit ?c n \<Longrightarrow> ?h + ?d \<le> n" for n by (rule cluster_addr_low [OF assms(1)])
  have h: "set_bits s - plen (blk s i) = ?h"
    using wf_net_blk(2) [OF assms] assms(1)
    by (simp add: host_bits_def wf_geometry_def nat_diff_distrib')
  have "a \<in> addresses (blk s i) \<longleftrightarrow> 0 \<le> a \<and> a < 2 ^ set_bits s \<and> (\<forall>k \<ge> ?h. bit a k \<longleftrightarrow> bit ?c k \<or> bit i (k - ?h))"
    unfolding addresses_def net_prefix_def mem_Collect_eq net_addr_blk [OF assms] h drop_bit_eq_iff
    by (auto simp: bit_or_iff bit_push_bit_iff)
  also have "(\<forall>k \<ge> ?h. bit a k \<longleftrightarrow> bit ?c k \<or> bit i (k - ?h)) \<longleftrightarrow>
     (\<forall>k \<ge> ?h + ?d. bit a k = bit ?c k) \<and> slot s a = i" (is "?l \<longleftrightarrow> ?r")
  proof
    assume l: ?l
    have "bit a k = bit ?c k" if "?h + ?d \<le> k" for k
      using l that bi [of "k - ?h"] by force
    moreover have "slot s a = i"
    proof (rule bit_eqI)
      fix n
      have "bit a (?h + n) \<longleftrightarrow> bit ?c (?h + n) \<or> bit i n" using l [rule_format, of "?h + n"] by simp
      then show "bit (slot s a) n = bit i n"
        using bc [of "?h + n"] bi [of n] by (auto simp: slot_def bit_drop_bit_eq bit_xor_iff)
    qed
    ultimately show ?r by blast
  next
    assume r: ?r
    show ?l
    proof (intro allI impI)
      fix k assume k: "?h \<le> k"
      have "bit i (k - ?h) \<longleftrightarrow> bit ?c k \<noteq> bit a k"
        using conjunct2 [OF r] k by (auto simp: slot_def bit_drop_bit_eq bit_xor_iff)
      then show "bit a k \<longleftrightarrow> bit ?c k \<or> bit i (k - ?h)"
        using bc [of k] bi [of "k - ?h"] conjunct1 [OF r] by (cases "?h + ?d \<le> k") auto
    qed
  qed
  finally show ?thesis by (auto simp: in_cluster_iff [OF assms(1)])
qed

lemma slot_blk: "wf_geometry s \<Longrightarrow> in_range s i \<Longrightarrow> slot s (net_addr (blk s i)) = i"
  using addresses_blk net_addr_in_addresses wf_net_blk(1) by blast

lemma blk_inject: "wf_geometry s \<Longrightarrow> in_range s i \<Longrightarrow> in_range s j \<Longrightarrow> blk s i = blk s j \<longleftrightarrow> i = j"
  by (metis slot_blk)

lemma blk_String_inject:
  "wf_geometry s \<Longrightarrow> in_range s i \<Longrightarrow> in_range s j \<Longrightarrow> net_String (blk s i) = net_String (blk s j) \<longleftrightarrow> i = j"
  using net_String_inject wf_net_blk(1) blk_inject by metis

lemma blk_disjoint:
  "wf_geometry s \<Longrightarrow> in_range s i \<Longrightarrow> in_range s j \<Longrightarrow> i \<noteq> j \<Longrightarrow> addresses (blk s i) \<inter> addresses (blk s j) = {}"
  by (auto simp: addresses_blk)

lemma slot_masked:
  "slot s (push_bit (host_bits s) (drop_bit (host_bits s) a)) = slot s a"
  by (intro bit_eqI) (simp add: slot_def bit_drop_bit_eq bit_xor_iff bit_push_bit_iff)

lemma getIndexForIP_eq:
  assumes "netutils_families nu" "wf_geometry s" "length ip = length (net_IP (set_ClusterCIDR s))"
    "in_cluster s (be_int ip)"
  shows "getIndexForIP nu s ip = Ret (slot s (be_int ip))"
proof -
  have r: "0 \<le> slot s (be_int ip)" "slot s (be_int ip) < 2 ^ sub_bits s"
    using slot_in_range [OF assms(2,4)] in_range_bounds [OF assms(2)] by auto
  have d: "(2::int) ^ sub_bits s < 2 ^ 32"
    using geometry_bits(4) [OF assms(2)] by (intro power_strict_increasing) auto
  have mx: "MaxCIDRs s = 2 ^ sub_bits s" using assms(2) by (simp add: wf_geometry_def)
  from wf_geometry_family [OF assms(2)]
  consider "length ip = 4" "set_bits s = 32" | "length ip = 16" "set_bits s = 128"
    using assms(3) by auto
  then show ?thesis
  proof cases
    case 1
    let ?c = "net_IP (set_ClusterCIDR s)"
    have h: "unat (to_uint32 (32 - NodeMaskSize s)) = host_bits s"
      using assms(2) 1 unat_to_uint32 [of "32 - NodeMaskSize s"] by (simp add: host_bits_def wf_geometry_def)
    let ?idx = "go_shr (to_uint32 (be_int ?c) XOR to_uint32 (be_int ip)) (host_bits s)"
    have "bit (be_int b) n \<Longrightarrow> n < 32" if "length b = 4" for b n
      using that by (simp add: bit_be_int)
    then have idx: "uint ?idx = slot s (be_int ip)"
      using 1 assms(3) by (intro bit_eqI)
        (auto simp: slot_def net_addr_def bit_uint_iff bit_go_shr bit_xor_iff to_uint32_def bit_word_of_int bit_drop_bit_eq
           add.commute bit_be_int)
    have "uint (to_uint32 (MaxCIDRs s)) = 2 ^ sub_bits s"
      using uint_to_uint32 [of "MaxCIDRs s"] d by (simp add: mx)
    then have "\<not> to_uint32 (MaxCIDRs s) \<le> ?idx" using idx r by (simp add: word_le_def)
    then show ?thesis
      using 1 assms(3) idx by (simp add: getIndexForIP_def ip_To4_def BE_Uint32_exact h Let_def)
  next
    case 2
    have h: "unat (to_uint64 (128 - NodeMaskSize s)) = host_bits s"
      using assms(2) 2 unat_to_uint64 [of "128 - NodeMaskSize s"] by (simp add: host_bits_def wf_geometry_def)
    have t4: "ip_To4 ip = None" using in_cluster_To4 [OF assms(2) _ 2(1) assms(4)] 2 assms(3) by simp
    then have v6: "IsIPv6 nu ip" using assms(1) 2 by (auto simp: netutils_families_def)
    let ?idx = "to_uint64 (slot s (be_int ip))"
    have idx: "uint ?idx = slot s (be_int ip)" using uint_to_uint64 r d by simp
    have "uint (to_uint64 (MaxCIDRs s)) = 2 ^ sub_bits s"
      using uint_to_uint64 [of "MaxCIDRs s"] d by (simp add: mx)
    then have nle: "\<not> to_uint64 (MaxCIDRs s) \<le> ?idx" using idx r by (simp add: word_le_def)
    have "sint ?idx = slot s (be_int ip)"
      using idx r d by (simp add: sint_uint signed_take_bit_int_eq_self)
    then show ?thesis
      using t4 v6 nle by (simp add: getIndexForIP_def h Let_def slot_def net_addr_def)
  qed
qed


lemma bit_push_drop: "bit (push_bit e (drop_bit e (x::int))) n \<longleftrightarrow> e \<le> n \<and> bit x n"
  by (auto simp: bit_push_bit_iff bit_drop_bit_eq)

definition net_last :: "IPNet \<Rightarrow> int" where
  "net_last n = net_addr n OR mask (addr_bits n - plen n)"

lemma net_addr_split:
  assumes "wf_net n"
  shows "net_addr n = push_bit (addr_bits n - plen n) (drop_bit (addr_bits n - plen n) (net_addr n))"
  by (rule bit_eqI) (auto simp: bit_push_drop dest: wf_net_addr_low [OF assms])

lemma net_last_eq:
  assumes "wf_net n"
  shows "net_last n = net_addr n + 2 ^ (addr_bits n - plen n) - 1"
proof -
  let ?e = "addr_bits n - plen n"
  have "take_bit ?e (net_last n) = mask ?e"
    by (rule bit_eqI) (auto simp: net_last_def bit_take_bit_iff bit_or_iff bit_mask_iff)
  moreover have "push_bit ?e (drop_bit ?e (net_last n)) = net_addr n"
    by (rule bit_eqI) (auto simp: net_last_def bit_push_drop bit_or_iff bit_mask_iff dest: wf_net_addr_low [OF assms])
  ultimately show ?thesis
    using bits_ident [of ?e "net_last n"] by (simp add: mask_eq_exp_minus_1)
qed

lemma int_div_eq_iff:
  fixes a b q :: int
  assumes "0 < b"
  shows "a div b = q \<longleftrightarrow> q * b \<le> a \<and> a < (q + 1) * b"
proof
  assume "a div b = q"
  then have "a = q * b + a mod b" by (metis div_mult_mod_eq)
  then show "q * b \<le> a \<and> a < (q + 1) * b"
    using pos_mod_bound [OF assms, of a] pos_mod_sign [OF assms, of a] by (simp add: algebra_simps)
next
  assume "q * b \<le> a \<and> a < (q + 1) * b"
  then show "a div b = q"
    by (intro int_div_pos_eq [of a b q "a - b * q"]) (simp_all add: algebra_simps)
qed

lemma addresses_interval:
  assumes "wf_net n"
  shows "a \<in> addresses n \<longleftrightarrow> net_addr n \<le> a \<and> a \<le> net_last n"
proof -
  let ?e = "addr_bits n - plen n"
  define q where "q = drop_bit ?e (net_addr n)"
  have c: "net_addr n = q * 2 ^ ?e" using net_addr_split [OF assms] by (simp add: q_def push_bit_eq_mult)
  have pos: "(0::int) < 2 ^ ?e" by simp
  have "net_addr n < 2 ^ addr_bits n" "0 \<le> net_addr n" using wf_net_addr_bounds [OF assms] by auto
  have W: "(2::int) ^ addr_bits n = 2 ^ plen n * 2 ^ ?e"
    using assms by (simp add: wf_net_def flip: power_add)
  have "q < 2 ^ plen n" using \<open>net_addr n < 2 ^ addr_bits n\<close> unfolding c W by simp
  then have "(q + 1) * 2 ^ ?e \<le> 2 ^ plen n * 2 ^ ?e" using pos by (intro mult_right_mono) auto
  then have top: "net_last n < 2 ^ addr_bits n"
    unfolding net_last_eq [OF assms] c W by (simp add: algebra_simps)
  have "a \<in> addresses n \<longleftrightarrow> 0 \<le> a \<and> a < 2 ^ addr_bits n \<and> a div 2 ^ ?e = q"
    by (simp add: addresses_def net_prefix_def q_def drop_bit_eq_div)
  also have "a div 2 ^ ?e = q \<longleftrightarrow> q * 2 ^ ?e \<le> a \<and> a < (q + 1) * 2 ^ ?e"
    by (rule int_div_eq_iff [OF pos])
  also have "(q * 2 ^ ?e \<le> a \<and> a < (q + 1) * 2 ^ ?e) \<longleftrightarrow> net_addr n \<le> a \<and> a \<le> net_last n"
    unfolding net_last_eq [OF assms] c by (simp add: algebra_simps) linarith
  finally show ?thesis using top \<open>0 \<le> net_addr n\<close> by auto
qed


lemma net_last_in_addresses: "wf_net n \<Longrightarrow> net_last n \<in> addresses n"
  by (simp add: addresses_interval net_last_eq)

lemma subnet_addresses:
  assumes "wf_net a" "wf_net b" "length (net_IP a) = length (net_IP b)" "nets_intersect a b" "plen a \<le> plen b"
  shows "addresses b \<subseteq> addresses a"
proof
  have bits: "addr_bits a = addr_bits b" using assms(3) by (simp add: addr_bits_def)
  obtain x where x: "drop_bit (addr_bits a - plen a) x = drop_bit (addr_bits a - plen a) (net_addr a)"
    "drop_bit (addr_bits a - plen b) x = drop_bit (addr_bits a - plen b) (net_addr b)"
    using assms(1-4) bits unfolding nets_intersect_iff [OF assms(1-3)] by (auto simp: addresses_def net_prefix_def)
  fix y assume y: "y \<in> addresses b"
  then have "drop_bit (addr_bits a - plen b) y = drop_bit (addr_bits a - plen b) x"
    using x(2) bits by (simp add: addresses_def net_prefix_def)
  then have "drop_bit (addr_bits a - plen a) y = drop_bit (addr_bits a - plen a) x"
    using assms(5) by (rule_tac drop_bit_eq_mono) auto
  then show "y \<in> addresses a" using y x(1) bits by (simp add: addresses_def net_prefix_def)
qed

lemma in_cluster_masked:
  assumes "wf_geometry s" "in_cluster s a"
  shows "in_cluster s (push_bit (host_bits s) (drop_bit (host_bits s) a))"
proof -
  let ?h = "host_bits s"
  have eq: "push_bit ?h (drop_bit ?h a) = a - take_bit ?h a"
    using bits_ident [of ?h a] by linarith
  have a: "0 \<le> a" "a < 2 ^ set_bits s" using assms by (auto simp: in_cluster_iff)
  have "0 \<le> push_bit ?h (drop_bit ?h a)" using a by simp
  moreover have "push_bit ?h (drop_bit ?h a) < 2 ^ set_bits s"
    unfolding eq using a take_bit_nonnegative [of ?h a] by linarith
  ultimately show ?thesis
    using assms(2) unfolding in_cluster_iff [OF assms(1)] by (auto simp: bit_push_bit_iff bit_drop_bit_eq)
qed

lemma slot_arith:
  assumes "wf_geometry s" "in_cluster s a"
  shows "slot s a = a div 2 ^ host_bits s - net_addr (set_ClusterCIDR s) div 2 ^ host_bits s"
proof -
  let ?h = "host_bits s" and ?n = "host_bits s + sub_bits s" and ?c = "net_addr (set_ClusterCIDR s)"
  note a = assms(2) [unfolded in_cluster_iff [OF assms(1)]]
  have "slot s a = drop_bit ?h (take_bit ?n a)"
  proof (rule bit_eqI)
    fix k
    show "bit (slot s a) k = bit (drop_bit ?h (take_bit ?n a)) k"
      using a cluster_addr_low [OF assms(1), of "?h + k"]
      by (cases "k < sub_bits s") (auto simp: slot_def bit_drop_bit_eq bit_xor_iff bit_take_bit_iff)
  qed
  moreover have "push_bit ?n (drop_bit ?n a) = ?c"
    using a by (intro bit_eqI) (auto simp: bit_push_drop dest: cluster_addr_low [OF assms(1)])
  then have "take_bit ?n a = a - ?c" using bits_ident [of ?n a] by linarith
  moreover have "?c = (?c div 2 ^ ?h) * 2 ^ ?h"
    using \<open>push_bit ?n (drop_bit ?n a) = ?c\<close> by (metis dvd_div_mult_self dvd_mult le_add1 le_imp_power_dvd push_bit_eq_mult)
  then have "(a - ?c) div 2 ^ ?h = a div 2 ^ ?h - ?c div 2 ^ ?h"
    using div_mult_self1 [of "2 ^ ?h" a "- (?c div 2 ^ ?h)"] by simp
  ultimately show ?thesis by (simp add: drop_bit_eq_div)
qed


lemma slot_mono:
  assumes "wf_geometry s" "in_cluster s a" "in_cluster s b" "a \<le> b"
  shows "slot s a \<le> slot s b"
  using slot_arith [OF assms(1,2)] slot_arith [OF assms(1,3)] zdiv_mono1 [OF assms(4), of "2 ^ host_bits s"] by simp

lemma blk_addr_least:
  assumes "wf_geometry s" "in_range s i" "in_cluster s a" "i \<le> slot s a"
  shows "net_addr (blk s i) \<le> a"
proof -
  let ?h = "host_bits s"
  have "net_addr (blk s i) = push_bit ?h (drop_bit ?h (net_addr (blk s i)))"
    by (intro bit_eqI) (auto simp: bit_push_drop dest: blk_addr_low [OF assms(1,2)])
  also have "\<dots> = (net_addr (blk s i) div 2 ^ ?h) * 2 ^ ?h" by (simp add: push_bit_eq_mult drop_bit_eq_div)
  also have "\<dots> \<le> (a div 2 ^ ?h) * 2 ^ ?h"
    using slot_arith [OF assms(1) blk_in_cluster [OF assms(1,2)]] slot_arith [OF assms(1,3)] slot_blk [OF assms(1,2)] assms(4)
    by (intro mult_right_mono) auto
  also have "\<dots> \<le> a"
    using pos_mod_sign [of "2 ^ ?h" a] by (simp add: minus_mod_eq_div_mult [symmetric])
  finally show ?thesis .
qed

definition touching :: "MultiCIDRSet \<Rightarrow> IPNet \<Rightarrow> int set" where
  "touching s c = {i. in_range s i \<and> addresses (blk s i) \<inter> addresses c \<noteq> {}}"

lemma touching_inside:
  assumes "wf_geometry s" "wf_net c" "addresses c \<subseteq> addresses (set_ClusterCIDR s)"
  shows "touching s c = {slot s (net_addr c)..slot s (net_last c)}"
proof -
  have first: "in_cluster s (net_addr c)" and last: "in_cluster s (net_last c)"
    using assms net_addr_in_addresses net_last_in_addresses by (auto simp: in_cluster_def)
  show ?thesis
  proof (intro equalityI subsetI)
    fix i assume "i \<in> touching s c"
    then obtain a where i: "in_range s i" and a: "a \<in> addresses (blk s i)" "a \<in> addresses c"
      by (auto simp: touching_def)
    then have "in_cluster s a" "slot s a = i" by (auto simp: addresses_blk [OF assms(1)])
    moreover have "net_addr c \<le> a" "a \<le> net_last c" using a(2) addresses_interval [OF assms(2)] by auto
    ultimately show "i \<in> {slot s (net_addr c)..slot s (net_last c)}"
      using slot_mono [OF assms(1)] first last by auto
  next
    fix i assume i: "i \<in> {slot s (net_addr c)..slot s (net_last c)}"
    then have r: "in_range s i"
      using slot_in_range [OF assms(1) first] slot_in_range [OF assms(1) last] by (auto simp: in_range_def)
    have "\<exists>a. in_cluster s a \<and> slot s a = i \<and> a \<in> addresses c"
    proof (cases "i = slot s (net_addr c)")
      case True
      then show ?thesis using first net_addr_in_addresses [OF assms(2)] by blast
    next
      case False
      let ?b = "net_addr (blk s i)"
      have b: "in_cluster s ?b" "slot s ?b = i" using blk_in_cluster [OF assms(1) r] slot_blk [OF assms(1) r] by auto
      have "net_addr c \<le> ?b"
        using slot_mono [OF assms(1) b(1) first] b(2) i False by fastforce
      moreover have "?b \<le> net_last c" using blk_addr_least [OF assms(1) r last] i by simp
      ultimately show ?thesis using b addresses_interval [OF assms(2)] by blast
    qed
    then show "i \<in> touching s c" using r by (auto simp: touching_def addresses_blk [OF assms(1)])
  qed
qed

lemma touching_outside:
  assumes "wf_geometry s" "addresses (set_ClusterCIDR s) \<subseteq> addresses c"
  shows "touching s c = {i. in_range s i}"
proof -
  have "net_addr (blk s i) \<in> addresses (blk s i) \<inter> addresses c" if "in_range s i" for i
    using that assms net_addr_in_addresses [OF wf_net_blk(1) [OF assms(1) that]] blk_in_cluster [OF assms(1) that]
    by (auto simp: in_cluster_def)
  then show ?thesis by (auto simp: touching_def)
qed


lemma mask_Size_wf: "wf_net c \<Longrightarrow> mask_Size (net_Mask c) = (int (plen c), int (addr_bits c))"
proof -
  assume wf: "wf_net c"
  then have "simpleMaskLength (net_Mask c) = int (plen c)"
    using simpleMaskLength_cidr_bytes [of "plen c" "length (net_IP c)"] by (simp add: wf_net_def addr_bits_def)
  then show ?thesis using wf_net_lengths [OF wf] by (simp add: mask_Size_def addr_bits_def)
qed

lemma bit_net_last: "wf_net c \<Longrightarrow> bit (net_last c) n \<longleftrightarrow> bit (net_addr c) n \<or> n < addr_bits c - plen c"
  by (auto simp: net_last_def bit_or_iff bit_mask_iff)

lemma bit_wf_mask:
  "wf_net c \<Longrightarrow> bit (be_int (net_Mask c)) n \<longleftrightarrow> addr_bits c - plen c \<le> n \<and> n < addr_bits c"
  using bit_cidr_bytes [of "plen c" "length (net_IP c)" n] by (simp add: wf_net_def addr_bits_def)

lemma last_ip_v4_eq:
  assumes "wf_net c" "length (net_IP c) = 4"
  shows "\<exists>ip. last_ip_v4 c 4 = Some ip \<and> length ip = 4 \<and> be_int ip = net_last c"
proof -
  have m: "length (net_Mask c) = 4" using wf_net_lengths [OF assms(1)] assms(2) by simp
  let ?x = "uint (to_uint32 (net_addr c) OR NOT (to_uint32 (be_int (net_Mask c))))"
  have ba: "bit (net_addr c) n \<Longrightarrow> n < 32" for n using assms(2) by (simp add: net_addr_def bit_be_int)
  have "?x = net_last c"
    by (rule bit_eqI)
      (auto simp: bit_uint_iff bit_or_iff bit_not_iff to_uint32_def bit_word_of_int bit_net_last [OF assms(1)] bit_wf_mask [OF assms(1)]
        addr_bits_def assms(2) possible_bit_def dest: ba)
  moreover have "take_bit 32 (net_last c) = net_last c"
    using ba assms(2) by (intro bit_eqI) (auto simp: bit_take_bit_iff bit_net_last [OF assms(1)] addr_bits_def)
  ultimately show ?thesis
    using assms(2) m by (simp add: last_ip_v4_def BE_Uint32_exact be_int_be_bytes net_addr_def)
qed

lemma last_ip_v6_eq:
  assumes "wf_net c" "length (net_IP c) = 16"
  shows "\<exists>ip. last_ip_v6 c 16 = Some ip \<and> length ip = 16 \<and> be_int ip = net_last c"
proof -
  have m: "length (net_Mask c) = 16" using wf_net_lengths [OF assms(1)] assms(2) by simp
  let ?a = "net_addr c" and ?m = "be_int (net_Mask c)"
  let ?l = "word_of_int (drop_bit 64 ?a) OR NOT (word_of_int (drop_bit 64 ?m) :: 64 word)"
  let ?r = "word_of_int (take_bit 64 ?a) OR NOT (word_of_int (take_bit 64 ?m) :: 64 word)"
  have ba: "bit ?a n \<Longrightarrow> n < 128" for n using assms(2) by (simp add: net_addr_def bit_be_int)
  have eq: "last_ip_v6 c 16 = Some (be_bytes 8 (uint ?l) @ be_bytes 8 (uint ?r))"
    using BE_Uint64_halves [OF assms(2)] BE_Uint64_halves [OF m] by (simp add: last_ip_v6_def net_addr_def)
  have bl: "bit (uint ?l) n \<longleftrightarrow> n < 64 \<and> bit (net_last c) (64 + n)" for n
    by (auto simp: bit_uint_iff bit_or_iff bit_not_iff bit_word_of_int bit_drop_bit_eq bit_net_last [OF assms(1)] bit_wf_mask [OF assms(1)]
        addr_bits_def assms(2) possible_bit_def)
  have br: "bit (uint ?r) n \<longleftrightarrow> n < 64 \<and> bit (net_last c) n" for n
    by (auto simp: bit_uint_iff bit_or_iff bit_not_iff bit_word_of_int bit_take_bit_iff bit_net_last [OF assms(1)] bit_wf_mask [OF assms(1)]
        addr_bits_def assms(2) possible_bit_def)
  have bn: "bit (net_last c) n \<Longrightarrow> n < 128" for n
    using ba assms(2) by (auto simp: bit_net_last [OF assms(1)] addr_bits_def)
  have "push_bit 64 (uint ?l) OR uint ?r = net_last c"
  proof (rule bit_eqI)
    fix n
    show "bit (push_bit 64 (uint ?l) OR uint ?r) n = bit (net_last c) n"
      using bn [of n] by (cases "n < 64") (auto simp: bit_or_iff bit_push_bit_iff bl br)
  qed
  moreover have "be_int (be_bytes 8 (uint w)) = uint w" for w :: "64 word"
    using uint_lt2p [of w] by (simp add: be_int_be_bytes take_bit_int_eq_self_iff)
  ultimately show ?thesis unfolding eq by (simp add: be_int_append)
qed

definition same_family :: "MultiCIDRSet \<Rightarrow> IPNet \<Rightarrow> bool" where
  "same_family s c \<longleftrightarrow> length (net_IP c) = length (net_IP (set_ClusterCIDR s))"

lemma masked_index:
  assumes "netutils_families nu" "wf_geometry s" "length ip = length (net_IP (set_ClusterCIDR s))"
    "in_cluster s (be_int ip)"
  shows "getIndexForIP nu s (ip_Mask ip (nodeMask s)) = Ret (slot s (be_int ip))"
proof -
  let ?k = "length (net_IP (set_ClusterCIDR s))" and ?l = "nat (NodeMaskSize s)"
  have m: "nodeMask s = cidr_bytes ?l ?k" and l: "?l \<le> 8 * ?k"
    using assms(2) by (auto simp: wf_geometry_def set_bits_def addr_bits_def nat_le_iff)
  have h: "8 * ?k - ?l = host_bits s"
    using assms(2) by (simp add: wf_geometry_def host_bits_def set_bits_def addr_bits_def nat_diff_distrib')
  have eq: "ip_Mask ip (nodeMask s) = map2 (AND) ip (cidr_bytes ?l ?k)"
    using assms(3) by (simp add: m ip_Mask_same)
  have val: "be_int (ip_Mask ip (nodeMask s)) = push_bit (host_bits s) (drop_bit (host_bits s) (be_int ip))"
    unfolding eq and_cidr_bytes [OF l assms(3)] h ..
  show ?thesis
    using getIndexForIP_eq [OF assms(1,2), of "ip_Mask ip (nodeMask s)"] in_cluster_masked [OF assms(2,4)] assms(3)
    unfolding val slot_masked by (simp add: eq)
qed

lemma getBeginningAndEndIndices_out:
  assumes "\<not> nets_intersect (set_ClusterCIDR s) c"
  shows "getBeginningAndEndIndices nu s (Some c) = Fail (Errorf ''cidr is out the range of cluster cidr'')"
  using assms by (simp add: getBeginningAndEndIndices_def nets_intersect_def)

lemma getBeginningAndEndIndices_in:
  assumes "netutils_families nu" "wf_geometry s" "wf_net c" "same_family s c"
    "nets_intersect (set_ClusterCIDR s) c"
  shows "\<exists>b e. getBeginningAndEndIndices nu s (Some c) = Ret (b, e) \<and> {b..e} = touching s c"
proof (cases "clusterMaskSize s < int (plen c)")
  case False
  have wfC: "wf_net (set_ClusterCIDR s)" and pl: "clusterMaskSize s = int (plen (set_ClusterCIDR s))"
    using assms(2) by (auto simp: wf_geometry_def)
  have "nets_intersect c (set_ClusterCIDR s)" using assms(5) by (auto simp: nets_intersect_def)
  then have "addresses (set_ClusterCIDR s) \<subseteq> addresses c"
    using False assms(3,4) wfC pl by (intro subnet_addresses) (auto simp: same_family_def)
  then have "touching s c = {0..MaxCIDRs s - 1}"
    using touching_outside [OF assms(2)] by (auto simp: in_range_def)
  moreover have "getBeginningAndEndIndices nu s (Some c) = Ret (0, MaxCIDRs s - 1)"
    using False assms(3,5) by (auto simp: getBeginningAndEndIndices_def nets_intersect_def Let_def mask_Size_wf)
  ultimately show ?thesis by auto
next
  case True
  let ?k = "length (net_IP (set_ClusterCIDR s))"
  have wfC: "wf_net (set_ClusterCIDR s)" and pl: "clusterMaskSize s = int (plen (set_ClusterCIDR s))"
    using assms(2) by (auto simp: wf_geometry_def)
  have sub: "addresses c \<subseteq> addresses (set_ClusterCIDR s)"
    using True assms(3-5) wfC pl by (intro subnet_addresses) (auto simp: same_family_def)
  have len: "length (net_IP c) = ?k" using assms(4) by (simp add: same_family_def)
  have first: "in_cluster s (be_int (net_IP c))" and last: "in_cluster s (net_last c)"
    using sub net_addr_in_addresses [OF assms(3)] net_last_in_addresses [OF assms(3)]
    by (auto simp: in_cluster_def net_addr_def)
  obtain ip where ip: "(if IsIPv4 nu (net_IP c) then last_ip_v4 c (if IsIPv6 nu (net_IP c) then IPv6len else IPv4len)
       else last_ip_v6 c (if IsIPv6 nu (net_IP c) then IPv6len else IPv4len)) = Some ip"
    and lip: "length ip = ?k" "be_int ip = net_last c"
  proof (cases "?k = 4")
    case True
    then have "IsIPv4 nu (net_IP c)" "\<not> IsIPv6 nu (net_IP c)"
      using assms(1) len by (auto simp: netutils_families_def ip_To4_def)
    then show thesis using that last_ip_v4_eq [OF assms(3)] len True by (auto simp: IPv4len_def)
  next
    case False
    then have "?k = 16" "ip_To4 (net_IP c) = None" using assms(3) len by (auto simp: wf_net_def)
    moreover from this have "\<not> IsIPv4 nu (net_IP c)" "IsIPv6 nu (net_IP c)"
      using assms(1) len by (auto simp: netutils_families_def)
    ultimately show thesis using that last_ip_v6_eq [OF assms(3)] len by (auto simp: IPv6len_def)
  qed
  have "getBeginningAndEndIndices nu s (Some c) = Ret (slot s (net_addr c), slot s (net_last c))"
    using True assms(5) ip masked_index [OF assms(1,2) len first]
      masked_index [OF assms(1,2) lip(1)] lip(2) last
    by (auto simp: getBeginningAndEndIndices_def nets_intersect_def Let_def mask_Size_wf [OF assms(3)] net_addr_def)
  then show ?thesis using touching_inside [OF assms(2,3) sub] by simp
qed

end
