(* ===== verification/CIDRSetOps.thy ===== *)
theory CIDRSetOps
  imports CIDRGeometry
begin

text \<open>The operations of \<open>MultiCIDRSet\<close> over the geometry: the invariant \<open>wf_set\<close> of a set (its map
  holds exactly the texts of allocated blocks, once each, and both counters agree with it), the set
  \<open>used\<close> of block numbers it stands for, and what every operation does to it.\<close>

definition block_key :: "MultiCIDRSet \<Rightarrow> int \<Rightarrow> string" where
  "block_key s i = net_String (blk s i)"

definition used :: "MultiCIDRSet \<Rightarrow> int set" where
  "used s = {i. in_range s i \<and> map_of (allocatedCIDRMap s) (block_key s i) \<noteq> None}"

definition same_pool :: "MultiCIDRSet \<Rightarrow> MultiCIDRSet \<Rightarrow> bool" where
  "same_pool s t \<longleftrightarrow>
     set_ClusterCIDR t = set_ClusterCIDR s \<and> NodeMaskSize t = NodeMaskSize s \<and> MaxCIDRs t = MaxCIDRs s \<and>
     clusterMaskSize t = clusterMaskSize s \<and> nodeMask t = nodeMask s \<and> set_Label t = set_Label s \<and>
     clusterCIDRName t = clusterCIDRName s"

definition net_allocations :: "metric list \<Rightarrow> int" where
  "net_allocations ms = int (count_list ms cidrSetAllocations_Inc) - int (count_list ms cidrSetReleases_Inc)"

definition wf_set :: "MultiCIDRSet \<Rightarrow> bool" where
  "wf_set s \<longleftrightarrow>
     wf_geometry s \<and>
     distinct (map fst (allocatedCIDRMap s)) \<and>
     fst ` set (allocatedCIDRMap s) \<subseteq> block_key s ` {i. in_range s i} \<and>
     allocatedCIDRs s = int (length (allocatedCIDRMap s)) \<and>
     in_range s (nextCandidate s) \<and>
     allocatedCIDRs s = net_allocations (set_metrics s)"

lemma same_pool_refl [simp]: "same_pool s s"
  by (simp add: same_pool_def)

lemma same_pool_trans: "same_pool s t \<Longrightarrow> same_pool t u \<Longrightarrow> same_pool s u"
  by (simp add: same_pool_def)

lemma same_pool_update [pool_simps]:
  "same_pool s (t\<lparr>allocatedCIDRMap := m\<rparr>) \<longleftrightarrow> same_pool s t"
  "same_pool s (t\<lparr>allocatedCIDRs := n\<rparr>) \<longleftrightarrow> same_pool s t"
  "same_pool s (t\<lparr>nextCandidate := k\<rparr>) \<longleftrightarrow> same_pool s t"
  "same_pool s (observe e t) \<longleftrightarrow> same_pool s t"
  "same_pool s (report_usage t) \<longleftrightarrow> same_pool s t"
  by (simp_all add: same_pool_def observe_def report_usage_def)

lemma same_pool_geometry:
  assumes "same_pool s t"
  shows "wf_geometry t = wf_geometry s" "blk t = blk s" "in_range t = in_range s" "block_key t = block_key s"
    "slot t = slot s" "touching t = touching s" "same_family t = same_family s" "in_cluster t = in_cluster s"
    "set_ClusterCIDR t = set_ClusterCIDR s" "MaxCIDRs t = MaxCIDRs s" "set_Label t = set_Label s"
proof -
  note [simp] = assms [unfolded same_pool_def]
  show b: "blk t = blk s" "in_range t = in_range s" "block_key t = block_key s"
    by (auto simp: fun_eq_iff blk_def in_range_def block_key_def host_bits_def set_bits_def)
  show "wf_geometry t = wf_geometry s" "slot t = slot s" "same_family t = same_family s" "in_cluster t = in_cluster s"
    "set_ClusterCIDR t = set_ClusterCIDR s" "MaxCIDRs t = MaxCIDRs s" "set_Label t = set_Label s"
    by (auto simp: fun_eq_iff wf_geometry_def slot_def same_family_def in_cluster_def host_bits_def set_bits_def sub_bits_def)
  show "touching t = touching s" by (auto simp: fun_eq_iff touching_def b)
qed

lemma key_inject: "wf_geometry s \<Longrightarrow> in_range s i \<Longrightarrow> in_range s j \<Longrightarrow> block_key s i = block_key s j \<longleftrightarrow> i = j"
  by (simp add: block_key_def blk_String_inject)

lemma map_of_None_iff: "map_of m k = None \<longleftrightarrow> k \<notin> fst ` set m"
  by (simp add: map_of_eq_None_iff)

lemma used_iff: "i \<in> used s \<longleftrightarrow> in_range s i \<and> block_key s i \<in> fst ` set (allocatedCIDRMap s)"
  by (auto simp: used_def map_of_eq_None_iff)

lemma wf_setD:
  assumes "wf_set s"
  shows "wf_geometry s" and "distinct (map fst (allocatedCIDRMap s))"
    and "allocatedCIDRs s = int (length (allocatedCIDRMap s))" and "in_range s (nextCandidate s)"
    and "allocatedCIDRs s = net_allocations (set_metrics s)"
  using assms unfolding wf_set_def by blast+

lemma wf_set_keys:
  assumes "wf_set s"
  shows "fst ` set (allocatedCIDRMap s) = block_key s ` used s"
proof (intro equalityI subsetI)
  fix k assume k: "k \<in> fst ` set (allocatedCIDRMap s)"
  then obtain i where "in_range s i" "k = block_key s i" using assms by (auto simp: wf_set_def)
  then show "k \<in> block_key s ` used s" using k by (auto simp: used_iff)
qed (auto simp: used_iff)

lemma finite_in_range [simp]: "finite {i. in_range s i}"
  by (rule finite_subset [of _ "{0..MaxCIDRs s}"]) (auto simp: in_range_def)

lemma used_subset: "used s \<subseteq> {i. in_range s i}"
  by (auto simp: used_iff)

lemma finite_used [simp]: "finite (used s)"
  by (rule finite_subset [OF used_subset finite_in_range])

lemma card_used:
  assumes "wf_set s"
  shows "allocatedCIDRs s = int (card (used s))"
proof -
  have inj: "inj_on (block_key s) (used s)"
    using assms by (auto intro!: inj_onI simp: used_iff wf_set_def key_inject)
  have "length (allocatedCIDRMap s) = card (set (map fst (allocatedCIDRMap s)))"
    using assms distinct_card by (fastforce simp: wf_set_def)
  also have "\<dots> = card (used s)"
    using wf_set_keys [OF assms] card_image [OF inj] by simp
  finally show ?thesis using wf_setD(3) [OF assms] by simp
qed

lemma card_in_range: "wf_geometry s \<Longrightarrow> int (card {i. in_range s i}) = MaxCIDRs s"
proof -
  assume "wf_geometry s"
  then have "0 \<le> MaxCIDRs s" by (simp add: wf_geometry_def)
  moreover have "{i. in_range s i} = {0..<MaxCIDRs s}" by (auto simp: in_range_def)
  ultimately show ?thesis by simp
qed

lemma full_iff:
  assumes "wf_set s"
  shows "allocatedCIDRs s = MaxCIDRs s \<longleftrightarrow> used s = {i. in_range s i}"
proof -
  have "allocatedCIDRs s = MaxCIDRs s \<longleftrightarrow> card (used s) = card {i. in_range s i}"
    using card_used [OF assms] card_in_range [OF wf_setD(1) [OF assms]] by linarith
  also have "\<dots> \<longleftrightarrow> used s = {i. in_range s i}"
    using card_subset_eq [OF finite_in_range used_subset] by auto
  finally show ?thesis .
qed

lemma allocated_bounds: "wf_set s \<Longrightarrow> 0 \<le> allocatedCIDRs s \<and> allocatedCIDRs s \<le> MaxCIDRs s"
  using card_used [of s] card_in_range [OF wf_setD(1), of s] card_mono [OF finite_in_range used_subset, of s]
  by simp

definition mark :: "MultiCIDRSet \<Rightarrow> int \<Rightarrow> MultiCIDRSet" where
  "mark s i = (if map_of (allocatedCIDRMap s) (block_key s i) = None
     then (observe cidrSetAllocations_Inc
             (s\<lparr>allocatedCIDRMap := AList.update (block_key s i) True (allocatedCIDRMap s)\<rparr>))
          \<lparr>allocatedCIDRs := allocatedCIDRs s + 1\<rparr> else s)"

definition unmark :: "MultiCIDRSet \<Rightarrow> int \<Rightarrow> MultiCIDRSet" where
  "unmark s i = (if map_of (allocatedCIDRMap s) (block_key s i) \<noteq> None
     then observe cidrSetReleases_Inc
            (s\<lparr>allocatedCIDRMap := AList.delete (block_key s i) (allocatedCIDRMap s),
               allocatedCIDRs := allocatedCIDRs s - 1\<rparr>) else s)"

lemma mark_same_pool [simp]: "same_pool s (mark s i)"
  by (simp add: mark_def pool_simps)

lemma unmark_same_pool [simp]: "same_pool s (unmark s i)"
  by (simp add: unmark_def pool_simps)

lemma update_fresh: "map_of m k = None \<Longrightarrow> AList.update k v m = m @ [(k, v)]"
  by (induction m) (auto split: if_splits)

lemma delete_absent: "k \<notin> fst ` set m \<Longrightarrow> AList.delete k m = m"
  by (induction m) (auto simp: AList.delete_eq)

lemma length_delete_key:
  "distinct (map fst m) \<Longrightarrow> k \<in> fst ` set m \<Longrightarrow> Suc (length (AList.delete k m)) = length m"
  by (induction m) (auto simp: delete_absent)

lemma wf_set_pool:
  assumes "same_pool s t"
  shows "wf_set t \<longleftrightarrow> wf_geometry s \<and> distinct (map fst (allocatedCIDRMap t)) \<and>
    fst ` set (allocatedCIDRMap t) \<subseteq> block_key s ` {i. in_range s i} \<and>
    allocatedCIDRs t = int (length (allocatedCIDRMap t)) \<and> in_range s (nextCandidate t) \<and>
    allocatedCIDRs t = net_allocations (set_metrics t)"
  by (simp add: wf_set_def same_pool_geometry [OF assms])

lemma net_allocations_append [simp]:
  "net_allocations [] = 0"
  "net_allocations (ms @ ns) = net_allocations ms + net_allocations ns"
  "net_allocations [cidrSetAllocations_Inc] = 1"
  "net_allocations [cidrSetReleases_Inc] = -1"
  "net_allocations [cidrSetMaxCidrs_Set m] = 0"
  "net_allocations [cidrSetUsage_Set a m] = 0"
  "net_allocations [cidrSetAllocationTries_Observe e] = 0"
  by (simp_all add: net_allocations_def)

lemma observe_fields [simp]:
  "set_metrics (observe m s) = set_metrics s @ [m]"
  "allocatedCIDRMap (observe m s) = allocatedCIDRMap s" "allocatedCIDRs (observe m s) = allocatedCIDRs s"
  "nextCandidate (observe m s) = nextCandidate s"
  by (simp_all add: observe_def)

lemma observe_spec:
  assumes "net_allocations [m] = 0"
  shows "same_pool s (observe m s)" "wf_set (observe m s) = wf_set s" "used (observe m s) = used s"
proof -
  show p: "same_pool s (observe m s)" by (simp add: pool_simps)
  show "used (observe m s) = used s" by (simp add: used_def same_pool_geometry [OF p])
  show "wf_set (observe m s) = wf_set s" using assms by (auto simp: wf_set_def same_pool_geometry [OF p])
qed

lemma report_usage_spec [simp]:
  "same_pool s (report_usage s)" "wf_set (report_usage s) = wf_set s" "used (report_usage s) = used s"
  "nextCandidate (report_usage s) = nextCandidate s"
  by (simp_all add: report_usage_def observe_spec)

lemma UpdateEvaluatedCount_spec [simp]:
  "same_pool s (UpdateEvaluatedCount s e)" "wf_set (UpdateEvaluatedCount s e) = wf_set s"
  "used (UpdateEvaluatedCount s e) = used s"
  by (simp_all add: UpdateEvaluatedCount_def observe_spec)

lemma mark_fields:
  "allocatedCIDRMap (mark s i) = (if block_key s i \<in> fst ` set (allocatedCIDRMap s) then allocatedCIDRMap s
     else allocatedCIDRMap s @ [(block_key s i, True)])"
  "allocatedCIDRs (mark s i) = (if block_key s i \<in> fst ` set (allocatedCIDRMap s) then allocatedCIDRs s else allocatedCIDRs s + 1)"
  "nextCandidate (mark s i) = nextCandidate s"
  "allocatedCIDRs (mark s i) - net_allocations (set_metrics (mark s i)) = allocatedCIDRs s - net_allocations (set_metrics s)"
  by (auto simp: mark_def update_fresh map_of_eq_None_iff)

lemma unmark_fields:
  "allocatedCIDRMap (unmark s i) = AList.delete (block_key s i) (allocatedCIDRMap s)"
  "allocatedCIDRs (unmark s i) = (if block_key s i \<in> fst ` set (allocatedCIDRMap s) then allocatedCIDRs s - 1 else allocatedCIDRs s)"
  "nextCandidate (unmark s i) = nextCandidate s"
  "allocatedCIDRs (unmark s i) - net_allocations (set_metrics (unmark s i)) = allocatedCIDRs s - net_allocations (set_metrics s)"
  by (auto simp: unmark_def map_of_eq_None_iff delete_absent)

lemma keys_delete: "fst ` set (AList.delete k m) = fst ` set m - {k}"
  by (auto simp: AList.delete_eq)

lemma mark_spec:
  assumes "wf_set s" "in_range s i"
  shows "wf_set (mark s i)" and "used (mark s i) = insert i (used s)"
proof -
  have g: "wf_geometry s" by (rule wf_setD(1) [OF assms(1)])
  note P = same_pool_geometry [OF mark_same_pool [of s i]]
  have "fst ` set (allocatedCIDRMap (mark s i)) = insert (block_key s i) (fst ` set (allocatedCIDRMap s))"
    by (auto simp: mark_fields)
  then show "used (mark s i) = insert i (used s)"
    using assms(2) g by (auto simp: used_iff P key_inject)
  show "wf_set (mark s i)"
    unfolding wf_set_pool [OF mark_same_pool [of s i]] using assms mark_fields(4) [of s i]
    by (auto simp: wf_set_def mark_fields(1-3))
qed

lemma unmark_spec:
  assumes "wf_set s" "in_range s i"
  shows "wf_set (unmark s i)" and "used (unmark s i) = used s - {i}"
proof -
  have g: "wf_geometry s" by (rule wf_setD(1) [OF assms(1)])
  note P = same_pool_geometry [OF unmark_same_pool [of s i]]
  have keys: "fst ` set (allocatedCIDRMap (unmark s i)) = fst ` set (allocatedCIDRMap s) - {block_key s i}"
    by (simp add: unmark_fields keys_delete)
  then show "used (unmark s i) = used s - {i}"
    using assms(2) g by (auto simp: used_iff P key_inject)
  have "distinct (map fst (allocatedCIDRMap (unmark s i)))"
    using assms(1) by (simp add: unmark_fields wf_set_def distinct_delete)
  moreover have "allocatedCIDRs (unmark s i) = int (length (allocatedCIDRMap (unmark s i)))"
    using assms(1) length_delete_key [of "allocatedCIDRMap s" "block_key s i"]
    by (cases "block_key s i \<in> fst ` set (allocatedCIDRMap s)") (simp_all add: unmark_fields wf_set_def delete_absent)
  ultimately show "wf_set (unmark s i)"
    unfolding wf_set_pool [OF unmark_same_pool [of s i]] keys using assms(1) unmark_fields(4) [of s i]
    by (auto simp: wf_set_def unmark_fields(3))
qed


lemma occupy_loop_Suc:
  assumes "netutils_families nu" "wf_geometry s" "in_range s i"
  shows "occupy_loop nu s (Suc n) i = occupy_loop nu (mark s i) n (i + 1)"
  by (simp add: indexToCIDRBlock_eq [OF assms] mark_def block_key_def)

lemma release_loop_Suc:
  assumes "netutils_families nu" "wf_geometry s" "in_range s i"
  shows "release_loop nu s (Suc n) i = release_loop nu (unmark s i) n (i + 1)"
  by (simp add: indexToCIDRBlock_eq [OF assms] unmark_def block_key_def)

lemma occupy_loop_spec:
  assumes "netutils_families nu" "wf_set s" "\<And>j. i \<le> j \<Longrightarrow> j < i + int n \<Longrightarrow> in_range s j"
  shows "\<exists>t. occupy_loop nu s n i = (t, Ret ()) \<and> wf_set t \<and> same_pool s t \<and>
    nextCandidate t = nextCandidate s \<and> used t = used s \<union> {i..<i + int n}"
  using assms(2,3)
proof (induction n arbitrary: s i)
  case 0
  then show ?case by simp
next
  case (Suc n)
  have r: "in_range s i" using Suc.prems(2) [of i] by simp
  note m = mark_spec [OF Suc.prems(1) r]
  have "\<And>j. i + 1 \<le> j \<Longrightarrow> j < i + 1 + int n \<Longrightarrow> in_range (mark s i) j"
    using Suc.prems(2) by (simp add: same_pool_geometry [OF mark_same_pool])
  from Suc.IH [OF m(1) this] obtain t where t: "occupy_loop nu (mark s i) n (i + 1) = (t, Ret ())"
    "wf_set t" "same_pool (mark s i) t" "nextCandidate t = nextCandidate (mark s i)"
    "used t = used (mark s i) \<union> {i + 1..<i + 1 + int n}" by blast
  have "occupy_loop nu s (Suc n) i = (t, Ret ())"
    using occupy_loop_Suc [OF assms(1) _ r, of n] wf_setD(1) [OF Suc.prems(1)] t(1) by simp
  moreover have "{i..<i + int (Suc n)} = insert i {i + 1..<i + 1 + int n}" by auto
  then have "used t = used s \<union> {i..<i + int (Suc n)}" using t(5) m(2) by blast
  ultimately show ?case
    using t(2,4) same_pool_trans [OF mark_same_pool t(3)] mark_fields(3) [of s i] by metis
qed

lemma release_loop_spec:
  assumes "netutils_families nu" "wf_set s" "\<And>j. i \<le> j \<Longrightarrow> j < i + int n \<Longrightarrow> in_range s j"
  shows "\<exists>t. release_loop nu s n i = (t, Ret ()) \<and> wf_set t \<and> same_pool s t \<and>
    nextCandidate t = nextCandidate s \<and> used t = used s - {i..<i + int n}"
  using assms(2,3)
proof (induction n arbitrary: s i)
  case 0
  then show ?case by simp
next
  case (Suc n)
  have r: "in_range s i" using Suc.prems(2) [of i] by simp
  note m = unmark_spec [OF Suc.prems(1) r]
  have "\<And>j. i + 1 \<le> j \<Longrightarrow> j < i + 1 + int n \<Longrightarrow> in_range (unmark s i) j"
    using Suc.prems(2) by (simp add: same_pool_geometry [OF unmark_same_pool])
  from Suc.IH [OF m(1) this] obtain t where t: "release_loop nu (unmark s i) n (i + 1) = (t, Ret ())"
    "wf_set t" "same_pool (unmark s i) t" "nextCandidate t = nextCandidate (unmark s i)"
    "used t = used (unmark s i) - {i + 1..<i + 1 + int n}" by blast
  have "release_loop nu s (Suc n) i = (t, Ret ())"
    using release_loop_Suc [OF assms(1) _ r, of n] wf_setD(1) [OF Suc.prems(1)] t(1) by simp
  moreover have "{i..<i + int (Suc n)} = insert i {i + 1..<i + 1 + int n}" by auto
  then have "used t = used s - {i..<i + int (Suc n)}" using t(5) m(2) by blast
  ultimately show ?case
    using t(2,4) same_pool_trans [OF unmark_same_pool t(3)] unmark_fields(3) [of s i] by metis
qed

lemma loop_span: "{b..<b + int (nat (e - b + 1))} = {b..e}"
  by (cases "b \<le> e + 1") auto

lemma touching_range: "touching s c \<subseteq> {i. in_range s i}"
  by (auto simp: touching_def)

lemma set_Occupy_in:
  assumes "netutils_families nu" "wf_set s" "wf_net c" "same_family s c" "nets_intersect (set_ClusterCIDR s) c"
  shows "\<exists>t. set_Occupy nu s (Some c) = (t, Ret ()) \<and> wf_set t \<and> same_pool s t \<and>
    nextCandidate t = nextCandidate s \<and> used t = used s \<union> touching s c"
proof -
  obtain b e where be: "getBeginningAndEndIndices nu s (Some c) = Ret (b, e)" and rng: "{b..e} = touching s c"
    using getBeginningAndEndIndices_in [OF assms(1) wf_setD(1) [OF assms(2)] assms(3-5)] by blast
  have "in_range s j" if "b \<le> j" "j < b + int (nat (e - b + 1))" for j
    using that touching_range [of s c] loop_span [of b e] rng by (metis atLeastLessThan_iff in_mono mem_Collect_eq)
  from occupy_loop_spec [where i = b and n = "nat (e - b + 1)", OF assms(1,2) this]
  show ?thesis unfolding set_Occupy_def be loop_span rng by simp
qed

lemma set_Release_in:
  assumes "netutils_families nu" "wf_set s" "wf_net c" "same_family s c" "nets_intersect (set_ClusterCIDR s) c"
  shows "\<exists>t. set_Release nu s (Some c) = (t, Ret ()) \<and> wf_set t \<and> same_pool s t \<and>
    nextCandidate t = nextCandidate s \<and> used t = used s - touching s c"
proof -
  obtain b e where be: "getBeginningAndEndIndices nu s (Some c) = Ret (b, e)" and rng: "{b..e} = touching s c"
    using getBeginningAndEndIndices_in [OF assms(1) wf_setD(1) [OF assms(2)] assms(3-5)] by blast
  have "in_range s j" if "b \<le> j" "j < b + int (nat (e - b + 1))" for j
    using that touching_range [of s c] loop_span [of b e] rng by (metis atLeastLessThan_iff in_mono mem_Collect_eq)
  from release_loop_spec [where i = b and n = "nat (e - b + 1)", OF assms(1,2) this]
  show ?thesis unfolding set_Release_def be loop_span rng by simp
qed

lemma set_Occupy_out: "\<not> nets_intersect (set_ClusterCIDR s) c \<Longrightarrow>
  set_Occupy nu s (Some c) = (s, Fail (Errorf ''cidr is out the range of cluster cidr''))"
  by (simp add: set_Occupy_def getBeginningAndEndIndices_out)

lemma set_Release_out: "\<not> nets_intersect (set_ClusterCIDR s) c \<Longrightarrow>
  set_Release nu s (Some c) = (s, Fail (Errorf ''cidr is out the range of cluster cidr''))"
  by (simp add: set_Release_def getBeginningAndEndIndices_out)

lemma nets_intersect_family: "wf_net a \<Longrightarrow> wf_net b \<Longrightarrow> nets_intersect a b \<Longrightarrow> length (net_IP a) = length (net_IP b)"
  using net_Contains_other_family [of a b] net_Contains_other_family [of b a] unfolding nets_intersect_def by metis

lemma next_candidate_loop_spec:
  assumes "netutils_families nu" "wf_geometry s" "in_range s c"
  shows "(\<forall>j < n. (c + int j) mod MaxCIDRs s \<in> used s) \<and>
      next_candidate_loop nu s n i c = (s, Fail (CIDRRangeNoCIDRsRemainingErr (set_Label s))) \<or>
    (\<exists>k < n. (\<forall>j < k. (c + int j) mod MaxCIDRs s \<in> used s) \<and> (c + int k) mod MaxCIDRs s \<notin> used s \<and>
      next_candidate_loop nu s n i c =
        (s\<lparr>nextCandidate := (c + int k + 1) mod MaxCIDRs s\<rparr>, Ret (blk s ((c + int k) mod MaxCIDRs s), i + int k)))"
  using assms(3)
proof (induction n arbitrary: i c)
  case 0
  then show ?case by simp
next
  case (Suc n)
  let ?M = "MaxCIDRs s"
  have M: "0 < ?M" using assms(2) by (simp add: wf_geometry_def)
  have c: "c mod ?M = c" using Suc.prems by (simp add: in_range_def)
  have r: "in_range s ((c + 1) mod ?M)" using M by (simp add: in_range_def)
  have shift: "((c + 1) mod ?M + int j) mod ?M = (c + int (Suc j)) mod ?M" for j
    using mod_add_left_eq [of "c + 1" ?M "int j"] by (simp add: algebra_simps)
  show ?case
  proof (cases "c \<in> used s")
    case False
    then have "next_candidate_loop nu s (Suc n) i c = (s\<lparr>nextCandidate := (c + 1) mod ?M\<rparr>, Ret (blk s c, i))"
      using Suc.prems by (simp add: indexToCIDRBlock_eq [OF assms(1,2)] used_iff map_of_eq_None_iff block_key_def)
    then show ?thesis using False c by (intro disjI2 exI [of _ 0]) auto
  next
    case True
    then have eq: "next_candidate_loop nu s (Suc n) i c = next_candidate_loop nu s n (i + 1) ((c + 1) mod ?M)"
      using Suc.prems by (auto simp: indexToCIDRBlock_eq [OF assms(1,2)] used_iff map_of_eq_None_iff block_key_def)
    have less_Suc: "(\<forall>j < Suc k. P j) \<longleftrightarrow> P 0 \<and> (\<forall>j < k. P (Suc j))" for P k
      by (auto simp: less_Suc_eq_0_disj)
    from Suc.IH [OF r, of "i + 1"] show ?thesis
    proof (elim disjE exE conjE)
      assume "\<forall>j < n. ((c + 1) mod ?M + int j) mod ?M \<in> used s"
        "next_candidate_loop nu s n (i + 1) ((c + 1) mod ?M) = (s, Fail (CIDRRangeNoCIDRsRemainingErr (set_Label s)))"
      then show ?thesis unfolding eq less_Suc shift using True c by simp
    next
      fix k assume k: "k < n" "\<forall>j < k. ((c + 1) mod ?M + int j) mod ?M \<in> used s" "((c + 1) mod ?M + int k) mod ?M \<notin> used s"
        "next_candidate_loop nu s n (i + 1) ((c + 1) mod ?M) =
          (s\<lparr>nextCandidate := ((c + 1) mod ?M + int k + 1) mod ?M\<rparr>, Ret (blk s (((c + 1) mod ?M + int k) mod ?M), i + 1 + int k))"
      have "((c + 1) mod ?M + int k + 1) mod ?M = (c + int (Suc k) + 1) mod ?M"
        by (metis shift mod_add_left_eq)
      then show ?thesis
        unfolding eq using k True c by (intro disjI2 exI [of _ "Suc k"]) (simp only: less_Suc shift, simp)
    qed
  qed
qed

lemma wf_net_intersect_blk:
  assumes "wf_geometry s" "in_range s i" "wf_net c"
  shows "nets_intersect c (blk s i) \<longleftrightarrow> same_family s c \<and> i \<in> touching s c"
proof (cases "same_family s c")
  case True
  then have "nets_intersect c (blk s i) \<longleftrightarrow> addresses c \<inter> addresses (blk s i) \<noteq> {}"
    using nets_intersect_iff [OF assms(3) wf_net_blk(1) [OF assms(1,2)]] wf_net_blk(3) [OF assms(1,2)]
    by (simp add: same_family_def)
  then show ?thesis using True assms(2) by (auto simp: touching_def)
next
  case False
  then show ?thesis
    using nets_intersect_family [OF assms(3) wf_net_blk(1) [OF assms(1,2)]] wf_net_blk(3) [OF assms(1,2)]
    by (auto simp: same_family_def)
qed

lemma NextCandidate_full:
  "wf_set s \<Longrightarrow> used s = {i. in_range s i} \<Longrightarrow>
     NextCandidate nu s = (s, Fail (CIDRRangeNoCIDRsRemainingErr (set_Label s)))"
  by (simp add: NextCandidate_def full_iff)

lemma NextCandidate_free:
  assumes "netutils_families nu" "wf_set s" "used s \<noteq> {i. in_range s i}"
  shows "\<exists>k i. 0 \<le> k \<and> k < MaxCIDRs s \<and> i = (nextCandidate s + k) mod MaxCIDRs s \<and> in_range s i \<and> i \<notin> used s \<and>
     (\<forall>j. 0 \<le> j \<and> j < k \<longrightarrow> (nextCandidate s + j) mod MaxCIDRs s \<in> used s) \<and>
     NextCandidate nu s = (s\<lparr>nextCandidate := (i + 1) mod MaxCIDRs s\<rparr>, Ret (blk s i, k))"
proof -
  let ?M = "MaxCIDRs s" and ?c = "nextCandidate s"
  have g: "wf_geometry s" and c: "in_range s ?c" using wf_setD [OF assms(2)] by simp_all
  have M: "0 < ?M" using g by (simp add: wf_geometry_def)
  have nf: "allocatedCIDRs s \<noteq> ?M" using assms(2,3) full_iff by blast
  have eq: "NextCandidate nu s = next_candidate_loop nu s (nat ?M) 0 ?c"
    using nf by (simp add: NextCandidate_def)
  obtain f where f: "in_range s f" "f \<notin> used s" using assms(3) used_subset by blast
  have "\<not> (\<forall>j < nat ?M. (?c + int j) mod ?M \<in> used s)"
  proof
    assume all: "\<forall>j < nat ?M. (?c + int j) mod ?M \<in> used s"
    let ?j = "nat ((f - ?c) mod ?M)"
    have "int ?j = (f - ?c) mod ?M" using M by simp
    then have "(?c + int ?j) mod ?M = (?c + (f - ?c)) mod ?M"
      by (simp only: mod_add_right_eq)
    also have "\<dots> = f" using f(1) by (simp add: in_range_def)
    finally have fj: "(?c + int ?j) mod ?M = f" .
    have "?j < nat ?M" using M by simp
    with all have "(?c + int ?j) mod ?M \<in> used s" by blast
    with fj f(2) show False by simp
  qed
  with next_candidate_loop_spec [OF assms(1) g c, of "nat ?M" 0] obtain k where
    k: "k < nat ?M" "\<forall>j < k. (?c + int j) mod ?M \<in> used s" "(?c + int k) mod ?M \<notin> used s"
    and r: "NextCandidate nu s = (s\<lparr>nextCandidate := (?c + int k + 1) mod ?M\<rparr>, Ret (blk s ((?c + int k) mod ?M), int k))"
    unfolding eq by (simp only: add_0) blast
  have "(?c + int k + 1) mod ?M = ((?c + int k) mod ?M + 1) mod ?M" by (simp add: mod_add_left_eq)
  moreover have "(?c + j) mod ?M \<in> used s" if "0 \<le> j" "j < int k" for j
    using k(2) [rule_format, of "nat j"] that by simp
  moreover have "in_range s ((?c + int k) mod ?M)" using M by (simp add: in_range_def)
  moreover have "int k < ?M" using k(1) by simp
  ultimately show ?thesis using k(3) r
    by (intro exI [of _ "int k"] exI [of _ "(?c + int k) mod ?M"]) simp
qed

lemma getMaxCIDRs_pow:
  assumes "0 \<le> sub - cms" "sub - cms \<le> 62"
  shows "getMaxCIDRs sub cms = 2 ^ nat (sub - cms)"
proof -
  define n where "n = nat (sub - cms)"
  have u: "unat (to_uint32 (sub - cms)) = n" using assms unat_to_uint32 [of "sub - cms"] by (simp add: n_def)
  have n63: "n < 63" using assms by (simp add: n_def)
  have lt: "(2::int) ^ n < 2 ^ 63" using n63 by (intro power_strict_increasing) auto
  have w: "go_shl (1::64 word) n = word_of_int (2 ^ n)"
    using n63 by (simp add: go_shl_def push_bit_eq_mult)
  have "sint (go_shl (1::64 word) n) = signed_take_bit (LENGTH(64) - 1) (2 ^ n)"
    unfolding w by (rule sint_sbintrunc')
  also have "\<dots> = signed_take_bit 63 (2 ^ n)" by simp
  also have "\<dots> = 2 ^ n" using lt by (intro signed_take_bit_int_eq_self) (auto intro: order_trans [of _ 0])
  finally show ?thesis unfolding getMaxCIDRs_def u n_def .
qed

lemma getMaxCIDRs_negative:
  assumes "- (2 ^ 31) \<le> sub - cms" "sub - cms < 0"
  shows "getMaxCIDRs sub cms = 0"
proof -
  define d where "d = sub - cms"
  have "d mod 4294967296 = (d + 4294967296) mod 4294967296" by simp
  also have "\<dots> = d + 4294967296" using assms by (intro mod_pos_pos_trivial) (auto simp: d_def)
  finally have "uint (to_uint32 d) = d + 4294967296"
    by (simp add: to_uint32_def uint_word_of_int)
  then have "64 \<le> unat (to_uint32 d)"
    using assms by (simp add: unat_eq_nat_uint d_def)
  then show ?thesis by (simp add: getMaxCIDRs_def go_shl_def d_def [symmetric])
qed

lemma overlaps_loop_iff:
  "overlaps_loop nu m c \<longleftrightarrow> (\<exists>k \<in> fst ` set m. \<exists>ip n. ParseCIDRSloppy nu k = Inr (ip, n) \<and> nets_intersect c n)"
  by (induction nu m c rule: overlaps_loop.induct) (auto split: sum.splits)

definition netutils_parse :: "NetUtils \<Rightarrow> bool" where
  "netutils_parse nu \<longleftrightarrow> (\<forall>n. wf_net n \<longrightarrow> (\<exists>ip. ParseCIDRSloppy nu (net_String n) = Inr (ip, n)))"

lemma CIDROverlaps_iff:
  assumes "netutils_parse nu" "wf_set s" "wf_net c"
  shows "CIDROverlaps nu s c \<longleftrightarrow> same_family s c \<and> touching s c \<inter> used s \<noteq> {}"
proof -
  have g: "wf_geometry s" by (rule wf_setD(1) [OF assms(2)])
  have p: "\<exists>ip. ParseCIDRSloppy nu (block_key s i) = Inr (ip, blk s i)" if "i \<in> used s" for i
    using assms(1) wf_net_blk(1) [OF g] that by (simp add: netutils_parse_def block_key_def used_iff)
  have "CIDROverlaps nu s c \<longleftrightarrow> (\<exists>i \<in> used s. nets_intersect c (blk s i))"
    unfolding CIDROverlaps_def overlaps_loop_iff wf_set_keys [OF assms(2)] using p by fastforce
  also have "\<dots> \<longleftrightarrow> (\<exists>i \<in> used s. same_family s c \<and> i \<in> touching s c)"
    using wf_net_intersect_blk [OF g _ assms(3)] by (auto simp: used_iff)
  finally show ?thesis by blast
qed

lemma CIDRAllocated_iff:
  assumes "wf_set s" "wf_net c"
  shows "CIDRAllocated s c \<longleftrightarrow> (\<exists>i \<in> used s. c = blk s i)"
proof -
  have g: "wf_geometry s" by (rule wf_setD(1) [OF assms(1)])
  have "CIDRAllocated s c \<longleftrightarrow> net_String c \<in> block_key s ` used s"
    using wf_set_keys [OF assms(1)] by (simp add: CIDRAllocated_def map_of_eq_None_iff)
  also have "\<dots> \<longleftrightarrow> (\<exists>i \<in> used s. net_String c = net_String (blk s i))"
    by (auto simp: block_key_def)
  also have "\<dots> \<longleftrightarrow> (\<exists>i \<in> used s. c = blk s i)"
    using net_String_inject [OF assms(2) wf_net_blk(1) [OF g]] used_subset by blast
  finally show ?thesis .
qed

definition fits :: "IPNet \<Rightarrow> int \<Rightarrow> bool" where
  "fits c p \<longleftrightarrow> wf_net c \<and> 0 \<le> p \<and> int (plen c) + p \<le> int (addr_bits c) \<and>
     (if length (net_IP c) = 4 then int (addr_bits c) - p - int (plen c) < 32
      else int (addr_bits c) - p - int (plen c) \<le> clusterSubnetMaxDiff \<and> take 10 (net_IP c) \<noteq> replicate 10 0)"

lemma NewMultiCIDRSet_eq:
  assumes "netutils_families nu" "wf_net c"
  shows "NewMultiCIDRSet nu name c p =
    (if length (net_IP c) = 16 \<and> int (addr_bits c) - p - int (plen c) > clusterSubnetMaxDiff
     then Fail (CIDRSetSubNetTooBigErr (net_String c) (int (addr_bits c) - p) (int (plen c)))
     else Ret \<lparr> set_ClusterCIDR = c, NodeMaskSize = int (addr_bits c) - p,
       MaxCIDRs = getMaxCIDRs (int (addr_bits c) - p) (int (plen c)), set_Label = net_String c,
       allocatedCIDRMap = [], clusterMaskSize = int (plen c), clusterCIDRName = name,
       nodeMask = CIDRMask (int (addr_bits c) - p) (int (addr_bits c)), allocatedCIDRs = 0, nextCandidate = 0,
       set_metrics = [cidrSetMaxCidrs_Set (getMaxCIDRs (int (addr_bits c) - p) (int (plen c)))] \<rparr>)"
proof -
  have m: "mask_Size (net_Mask c) = (int (plen c), int (addr_bits c))"
    using mask_Size_wf [OF assms(2)] by simp
  have fam: "length (net_IP c) = 4 \<or> length (net_IP c) = 16 \<and> ip_To4 (net_IP c) = None"
    using assms(2) by (simp add: wf_net_def)
  then have "IsIPv4 nu (net_IP c) = (length (net_IP c) = 4)" "IsIPv6 nu (net_IP c) = (length (net_IP c) = 16)"
    using assms(1) by (auto simp: netutils_families_def ip_To4_def)
  moreover have "addr_bits c = (if length (net_IP c) = 4 then 32 else 128)" using fam by (auto simp: addr_bits_def)
  ultimately show ?thesis using fam unfolding NewMultiCIDRSet_def m by (auto simp: Let_def)
qed

lemma NewMultiCIDRSet_ok:
  assumes "netutils_families nu" "fits c p"
  shows "\<exists>s. NewMultiCIDRSet nu name c p = Ret s \<and> wf_set s \<and> used s = {} \<and> set_ClusterCIDR s = c \<and>
    NodeMaskSize s = int (addr_bits c) - p \<and> MaxCIDRs s = 2 ^ (addr_bits c - plen c - nat p) \<and>
    clusterCIDRName s = name \<and> set_Label s = net_String c \<and> nextCandidate s = 0"
proof -
  let ?sub = "int (addr_bits c) - p" and ?cms = "int (plen c)"
  have wf: "wf_net c" and p: "0 \<le> p" "?cms + p \<le> int (addr_bits c)"
    using assms(2) by (simp_all add: fits_def)
  have d: "?sub - ?cms < 32" using assms(2) by (auto simp: fits_def clusterSubnetMaxDiff_def split: if_splits)
  have fam: "length (net_IP c) = 4 \<or> length (net_IP c) = 16" using wf by (auto simp: wf_net_def)
  have e: "nat (?sub - ?cms) = addr_bits c - plen c - nat p" using p by linarith
  have M: "getMaxCIDRs ?sub ?cms = 2 ^ (addr_bits c - plen c - nat p)"
    using getMaxCIDRs_pow [of ?sub ?cms] p d e by simp
  have nm: "CIDRMask ?sub (int (addr_bits c)) = cidr_bytes (nat ?sub) (length (net_IP c))"
    using p fam by (auto simp: CIDRMask_def addr_bits_def)
  define s where "s = \<lparr> set_ClusterCIDR = c, NodeMaskSize = ?sub,
       MaxCIDRs = getMaxCIDRs ?sub ?cms, set_Label = net_String c,
       allocatedCIDRMap = [], clusterMaskSize = ?cms, clusterCIDRName = name,
       nodeMask = CIDRMask ?sub (int (addr_bits c)), allocatedCIDRs = 0, nextCandidate = 0,
       set_metrics = [cidrSetMaxCidrs_Set (getMaxCIDRs ?sub ?cms)] \<rparr>"
  have "NewMultiCIDRSet nu name c p = Ret s"
    unfolding NewMultiCIDRSet_eq [OF assms(1) wf] s_def using assms(2) by (auto simp: fits_def)
  moreover have "wf_geometry s"
    using assms(2) p d e by (auto simp: wf_geometry_def s_def fits_def M nm set_bits_def sub_bits_def)
  moreover from this have "wf_set s" by (simp add: wf_set_def s_def in_range_def M)
  ultimately show ?thesis by (auto simp: s_def used_def M)
qed

lemma NewMultiCIDRSet_too_big:
  assumes "netutils_families nu" "wf_net c" "length (net_IP c) = 16" "128 - p - int (plen c) > 16"
  shows "NewMultiCIDRSet nu name c p = Fail (CIDRSetSubNetTooBigErr (net_String c) (128 - p) (int (plen c)))"
  using assms by (simp add: NewMultiCIDRSet_eq clusterSubnetMaxDiff_def addr_bits_def)

lemma NewMultiCIDRSet_no_blocks:
  assumes "netutils_families nu" "wf_net c" "int (addr_bits c) < int (plen c) + p" "p < 2 ^ 31"
  shows "\<exists>s. NewMultiCIDRSet nu name c p = Ret s \<and> MaxCIDRs s = 0 \<and>
    (\<forall>nu'. NextCandidate nu' s = (s, Fail (CIDRRangeNoCIDRsRemainingErr (net_String c))))"
proof -
  have "getMaxCIDRs (int (addr_bits c) - p) (int (plen c)) = 0"
  proof (rule getMaxCIDRs_negative)
    have "int (plen c) \<le> int (addr_bits c)" using assms(2) by (simp add: wf_net_def)
    then show "- (2 ^ 31) \<le> int (addr_bits c) - p - int (plen c)" using assms(4) by linarith
    show "int (addr_bits c) - p - int (plen c) < 0" using assms(3) by linarith
  qed
  then show ?thesis
    using assms(3) by (auto simp: NewMultiCIDRSet_eq [OF assms(1,2)] clusterSubnetMaxDiff_def NextCandidate_def)
qed

end
