(* ===== verification/NetUtilsRef.thy ===== *)
theory NetUtilsRef
  imports CIDRSetOps
begin

text \<open>A reference instance of the \<open>k8s.io/utils/net\<close> functions the program calls. The parser reads
  the canonical texts \<open>net.IPNet.String\<close> prints, rejects everything else, and is the exact inverse of
  printing; it shows that the hypotheses the development makes about the package can hold, and lets
  concrete inputs be evaluated.\<close>

definition digit_value :: "char \<Rightarrow> nat" where
  "digit_value c = length (takeWhile (\<lambda>x. x \<noteq> c) hexdigits)"

definition read_base :: "nat \<Rightarrow> string \<Rightarrow> nat" where
  "read_base b s = foldl (\<lambda>a d. a * b + d) 0 (map digit_value s)"

definition read_group :: "string \<Rightarrow> byte list" where
  "read_group t = (let g = read_base 16 t in [word_of_nat (g div 256), word_of_nat (g mod 256)])"

definition read_ip :: "string \<Rightarrow> ip" where
  "read_ip s =
     (if CHR '':'' \<in> set s then concat (map read_group (v6_decode (splitc (CHR '':'') s)))
      else map (\<lambda>t. word_of_nat (read_base 10 t)) (splitc (CHR ''.'') s))"

definition ref_ParseCIDR :: "string \<Rightarrow> go_error + ip \<times> IPNet" where
  "ref_ParseCIDR s =
     (case splitc (CHR ''/'') s of
        [a, m] \<Rightarrow>
          let ip = read_ip a; n = \<lparr> net_IP = ip, net_Mask = cidr_bytes (read_base 10 m) (length ip) \<rparr>
          in if wf_net n \<and> net_String n = s then Inr (ip, n) else Inl (Errorf ''invalid CIDR address'')
      | _ \<Rightarrow> Inl (Errorf ''invalid CIDR address''))"

definition ref_netutils :: NetUtils where
  "ref_netutils =
     \<lparr> IsIPv4 = (\<lambda>ip. ip_To4 ip \<noteq> None),
       IsIPv6 = (\<lambda>ip. length ip = 16 \<and> ip_To4 ip = None),
       IsIPv4CIDR = (\<lambda>n. ip_To4 (net_IP n) \<noteq> None),
       IsIPv6CIDR = (\<lambda>n. length (net_IP n) = 16 \<and> ip_To4 (net_IP n) = None),
       ParseCIDRSloppy = ref_ParseCIDR \<rparr>"

lemma ref_netutils_sel [simp]:
  "IsIPv4 ref_netutils ip = (ip_To4 ip \<noteq> None)"
  "IsIPv6 ref_netutils ip = (length ip = 16 \<and> ip_To4 ip = None)"
  "IsIPv4CIDR ref_netutils n = (ip_To4 (net_IP n) \<noteq> None)"
  "IsIPv6CIDR ref_netutils n = (length (net_IP n) = 16 \<and> ip_To4 (net_IP n) = None)"
  "ParseCIDRSloppy ref_netutils = ref_ParseCIDR"
  by (simp_all add: ref_netutils_def)

lemma ref_netutils_families: "netutils_families ref_netutils"
  by (auto simp: netutils_families_def ip_To4_def)

lemma digit_value_char: "d < 16 \<Longrightarrow> digit_value (digit_char d) = d"
proof -
  assume d: "d < 16"
  have "\<forall>d \<in> set [0..<16]. digit_value (digit_char d) = d" by code_simp
  then show ?thesis using d by simp
qed

lemma map_digit_value: "set ds \<subseteq> {..<16} \<Longrightarrow> map digit_value (map digit_char ds) = ds"
  by (induction ds) (auto simp: digit_value_char)

lemma read_base_digits: "2 \<le> b \<Longrightarrow> b \<le> 16 \<Longrightarrow> read_base b (map digit_char (base_digits b n)) = n"
proof -
  assume b: "2 \<le> b" "b \<le> 16"
  then have "set (base_digits b n) \<subseteq> {..<16}" using base_digits_bound [of b _ n] by fastforce
  then show ?thesis using b by (simp add: read_base_def map_digit_value base_digits_value del: map_map)
qed

lemma read_base_uitoa [simp]: "read_base 10 (uitoa n) = n"
  by (simp add: uitoa_def read_base_digits)

lemma read_base_hex [simp]: "read_base 16 (hex_nat n) = n"
  by (simp add: hex_nat_def read_base_digits)

lemma read_group_bytes: "read_group (hex_nat (256 * unat a + unat b)) = [a, b]"
proof -
  have "(256 * unat a + unat b) div 256 = unat a" "(256 * unat a + unat b) mod 256 = unat b"
    by (simp_all add: unat_byte_less)
  then show ?thesis unfolding read_group_def read_base_hex Let_def
    by (simp only: of_nat_unat ucast_id)
qed

lemma read_groups: "even (length bs) \<Longrightarrow> concat (map read_group (map hex_nat (v6_groups bs))) = bs"
proof (induction bs rule: v6_groups.induct)
  case (1 a b bs)
  then have "even (length bs)" by simp
  with 1 show ?case unfolding v6_groups.simps list.map concat.simps read_group_bytes by simp
qed auto

lemma read_ip_String:
  assumes "length ip = 4 \<or> length ip = 16 \<and> ip_To4 ip = None"
  shows "read_ip (ip_String ip) = ip"
proof (cases "length ip = 4")
  case True
  let ?ts = "map (\<lambda>b. uitoa (unat b)) ip"
  have sep: "CHR ''.'' \<notin> set (uitoa k)" "CHR '':'' \<notin> set (uitoa k)" for k
    by (rule uitoa_no_sep; simp add: hexdigits_def)+
  have s: "ip_String ip = joinc (CHR ''.'') ?ts" and ne: "ip \<noteq> []" using True by (auto simp: ip_String_def ip_To4_def)
  have "CHR '':'' \<notin> set (joinc (CHR ''.'') ?ts)"
  proof
    assume "CHR '':'' \<in> set (joinc (CHR ''.'') ?ts)"
    then have "CHR '':'' \<in> insert (CHR ''.'') (\<Union>t\<in>set ?ts. set t)" using set_joinc by blast
    then show False using sep(2) by simp
  qed
  moreover have "splitc (CHR ''.'') (joinc (CHR ''.'') ?ts) = ?ts"
    using ne sep(1) by (intro splitc_joinc) (simp, fastforce)
  ultimately show ?thesis unfolding s read_ip_def by (simp add: comp_def)
next
  case False
  then have l: "length ip = 16" and n: "ip_To4 ip = None" using assms by auto
  have s: "ip_String ip = v6_String ip" using l n by (auto simp: ip_String_def)
  have "v6_decode (splitc (CHR '':'') (v6_String ip)) = map hex_nat (v6_groups ip)"
    by (rule v6_decode_String [OF length_v6_groups [OF l]])
  then show ?thesis unfolding s using v6_String_has_colon [OF l] read_groups [of ip] l
    by (simp add: read_ip_def del: map_map)
qed

lemma ref_ParseCIDR_String: "wf_net n \<Longrightarrow> ref_ParseCIDR (net_String n) = Inr (net_IP n, n)"
proof -
  assume wf: "wf_net n"
  then have fam: "length (net_IP n) = 4 \<or> length (net_IP n) = 16 \<and> ip_To4 (net_IP n) = None"
    and m: "net_Mask n = cidr_bytes (plen n) (length (net_IP n))"
    by (simp_all add: wf_net_def)
  have "CHR ''/'' \<notin> set (uitoa (plen n))" by (rule uitoa_no_sep) (simp add: hexdigits_def)
  then have sp: "splitc (CHR ''/'') (net_String n) = [ip_String (net_IP n), uitoa (plen n)]"
    using ip_String_no_slash [OF fam] by (simp add: net_String_wf [OF wf] splitc_append splitc_no_sep)
  have n: "\<lparr> net_IP = net_IP n, net_Mask = cidr_bytes (plen n) (length (net_IP n)) \<rparr> = n"
    using m by simp
  show ?thesis by (simp add: ref_ParseCIDR_def sp read_ip_String [OF fam] n wf Let_def)
qed

lemma ref_ParseCIDR_Inr: "ref_ParseCIDR s = Inr (ip, n) \<Longrightarrow> wf_net n \<and> net_String n = s"
  by (auto simp: ref_ParseCIDR_def Let_def split: list.splits if_splits)

lemma ref_netutils_parse: "netutils_parse ref_netutils"
  by (simp add: netutils_parse_def ref_ParseCIDR_String)

end
