(* ===== verification/CIDRPool.thy ===== *)
theory CIDRPool
  imports NetUtilsRef
begin

text \<open>The contract between the allocator and a pool of equally sized blocks, as a locale, with the
  two clients the program is: handing blocks out one after another until none is left, and searching
  for a block an outside check accepts. \<open>MultiCIDRSet\<close> is shown to fulfil it.\<close>

locale cidr_pool =
  fixes invar :: "'s \<Rightarrow> bool"
    and size_of :: "'s \<Rightarrow> int"
    and taken :: "'s \<Rightarrow> int set"
    and pos :: "'s \<Rightarrow> int"
    and block :: "'s \<Rightarrow> int \<Rightarrow> 'c"
    and covers :: "'s \<Rightarrow> 'c \<Rightarrow> int set"
    and accepts :: "'s \<Rightarrow> 'c \<Rightarrow> bool"
    and occupy :: "'s \<Rightarrow> 'c \<Rightarrow> 's option"
    and release :: "'s \<Rightarrow> 'c \<Rightarrow> 's option"
    and candidate :: "'s \<Rightarrow> 's \<times> ('c \<times> int) option"
  assumes taken_range: "invar s \<Longrightarrow> taken s \<subseteq> {0..<size_of s}"
    and pos_range: "invar s \<Longrightarrow> 0 \<le> pos s \<and> pos s < size_of s"
    and block_inj: "invar s \<Longrightarrow> inj_on (block s) {0..<size_of s}"
    and block_own: "invar s \<Longrightarrow> i \<in> {0..<size_of s} \<Longrightarrow> accepts s (block s i) \<and> covers s (block s i) = {i}"
    and occupy_law: "invar s \<Longrightarrow> accepts s c \<Longrightarrow> \<exists>t. occupy s c = Some t \<and> invar t \<and> size_of t = size_of s \<and>
          block t = block s \<and> covers t = covers s \<and> accepts t = accepts s \<and> taken t = taken s \<union> covers s c"
    and release_law: "invar s \<Longrightarrow> accepts s c \<Longrightarrow> \<exists>t. release s c = Some t \<and> invar t \<and> size_of t = size_of s \<and>
          block t = block s \<and> covers t = covers s \<and> accepts t = accepts s \<and> taken t = taken s - covers s c"
    and candidate_full: "invar s \<Longrightarrow> taken s = {0..<size_of s} \<Longrightarrow> candidate s = (s, None)"
    and candidate_free: "invar s \<Longrightarrow> taken s \<noteq> {0..<size_of s} \<Longrightarrow>
          \<exists>k t. 0 \<le> k \<and> k < size_of s \<and> (pos s + k) mod size_of s \<notin> taken s \<and>
            (\<forall>j. 0 \<le> j \<and> j < k \<longrightarrow> (pos s + j) mod size_of s \<in> taken s) \<and>
            candidate s = (t, Some (block s ((pos s + k) mod size_of s), k)) \<and> invar t \<and>
            size_of t = size_of s \<and> block t = block s \<and> covers t = covers s \<and> accepts t = accepts s \<and>
            taken t = taken s \<and> pos t = (pos s + k + 1) mod size_of s"
begin

primrec draw :: "nat \<Rightarrow> 's \<Rightarrow> 's \<times> 'c list" where
  "draw 0 s = (s, [])"
| "draw (Suc n) s =
     (case candidate s of
        (t, None) \<Rightarrow> (t, [])
      | (t, Some (c, _)) \<Rightarrow>
          (case occupy t c of
             None \<Rightarrow> (t, [])
           | Some u \<Rightarrow> (case draw n u of (v, cs) \<Rightarrow> (v, c # cs))))"

lemma draw_step:
  assumes "invar s" "taken s \<noteq> {0..<size_of s}"
  shows "\<exists>i u. 0 \<le> i \<and> i < size_of s \<and> i \<notin> taken s \<and> invar u \<and> size_of u = size_of s \<and> block u = block s \<and>
    covers u = covers s \<and> accepts u = accepts s \<and> taken u = insert i (taken s) \<and>
    (\<forall>n. draw (Suc n) s = (case draw n u of (v, cs) \<Rightarrow> (v, block s i # cs)))"
proof -
  from candidate_free [OF assms] obtain k t where
    k: "(pos s + k) mod size_of s \<notin> taken s" and
    c: "candidate s = (t, Some (block s ((pos s + k) mod size_of s), k))" and
    t: "invar t" "size_of t = size_of s" "block t = block s" "covers t = covers s" "accepts t = accepts s"
       "taken t = taken s" by blast
  define i where "i = (pos s + k) mod size_of s"
  have i: "i \<in> {0..<size_of s}" using pos_range [OF assms(1)] by (simp add: i_def)
  from block_own [OF assms(1) i] have own: "accepts t (block s i)" "covers t (block s i) = {i}"
    using t by simp_all
  from occupy_law [OF t(1) own(1)] obtain u where u: "occupy t (block s i) = Some u" "invar u"
    "size_of u = size_of t" "block u = block t" "covers u = covers t" "accepts u = accepts t"
    "taken u = taken t \<union> covers t (block s i)" by blast
  have "draw (Suc n) s = (case draw n u of (v, cs) \<Rightarrow> (v, block s i # cs))" for n
    by (simp add: c u(1) flip: i_def)
  moreover have "taken u = insert i (taken s)" using u(7) own(2) t(6) by simp
  ultimately show ?thesis using i k u(2-6) t unfolding i_def [symmetric] by (intro exI [of _ i] exI [of _ u]) auto
qed

lemma draw_spec:
  assumes "invar s"
  shows "\<exists>is t. draw n s = (t, map (block s) is) \<and> invar t \<and> size_of t = size_of s \<and> block t = block s \<and>
    distinct is \<and> set is \<subseteq> {0..<size_of s} - taken s \<and> taken t = taken s \<union> set is \<and>
    length is = min n (card ({0..<size_of s} - taken s))"
  using assms
proof (induction n arbitrary: s)
  case 0
  then show ?case by (intro exI [of _ "[]"]) simp
next
  case (Suc n)
  show ?case
  proof (cases "taken s = {0..<size_of s}")
    case True
    then show ?thesis using candidate_full [OF Suc.prems] Suc.prems by (intro exI [of _ "[]"]) simp
  next
    case False
    from draw_step [OF Suc.prems False] obtain i u where
      i: "0 \<le> i" "i < size_of s" "i \<notin> taken s" and
      u: "invar u" "size_of u = size_of s" "block u = block s" "taken u = insert i (taken s)" and
      eq: "draw (Suc n) s = (case draw n u of (v, cs) \<Rightarrow> (v, block s i # cs))" by blast
    from Suc.IH [OF u(1)] obtain "is" t where
      t: "draw n u = (t, map (block u) is)" "invar t" "size_of t = size_of u" "block t = block u"
         "distinct is" "set is \<subseteq> {0..<size_of u} - taken u" "taken t = taken u \<union> set is"
         "length is = min n (card ({0..<size_of u} - taken u))" by blast
    let ?F = "{0..<size_of s} - taken s"
    have F: "{0..<size_of u} - taken u = ?F - {i}" using u by auto
    have "card ?F = Suc (card (?F - {i}))" using i by (intro card.remove) auto
    then have "length (i # is) = min (Suc n) (card ?F)" using t(8) F by simp
    moreover have "distinct (i # is)" "set (i # is) \<subseteq> ?F" using t(5,6) F i by auto
    moreover have "draw (Suc n) s = (t, map (block s) (i # is))" using eq t(1) u(3) by simp
    ultimately show ?thesis using t u by (intro exI [of _ "i # is"] exI [of _ t]) auto
  qed
qed

lemma release_occupied:
  assumes "invar s" "i \<in> {0..<size_of s}" "i \<notin> taken s"
  shows "\<exists>t u. occupy s (block s i) = Some t \<and> release t (block s i) = Some u \<and> invar u \<and> taken u = taken s"
proof -
  have own: "accepts s (block s i)" "covers s (block s i) = {i}" using block_own [OF assms(1,2)] by simp_all
  from occupy_law [OF assms(1) own(1)] obtain t where t: "occupy s (block s i) = Some t" "invar t"
    "covers t = covers s" "accepts t = accepts s" "taken t = taken s \<union> covers s (block s i)" by blast
  with own release_law [OF t(2), of "block s i"] assms(3) show ?thesis by auto
qed

definition examined :: "(int \<Rightarrow> bool) \<Rightarrow> int \<Rightarrow> 's \<Rightarrow> int \<Rightarrow> bool" where
  "examined bad start s e \<longleftrightarrow> 0 \<le> e \<and> pos s = (start + e) mod size_of s \<and>
     (\<forall>j. 0 \<le> j \<and> j < e \<longrightarrow> bad ((start + j) mod size_of s))"

lemma examined_start: "invar s \<Longrightarrow> examined bad (pos s) s 0"
  using pos_range [of s] by (auto simp: examined_def)

lemma examined_step:
  assumes ex: "examined bad start s e" and inv: "invar s" and cand: "candidate s = (t, Some (c, k))"
    and tk: "\<And>i. i \<in> taken s \<Longrightarrow> bad i"
  shows "0 \<le> k \<and> invar t \<and> size_of t = size_of s \<and> block t = block s \<and> covers t = covers s \<and>
    accepts t = accepts s \<and> taken t = taken s \<and>
    (\<exists>i. 0 \<le> i \<and> i < size_of s \<and> i \<notin> taken s \<and> c = block s i \<and> (bad i \<longrightarrow> examined bad start t (e + k + 1)))"
proof -
  let ?M = "size_of s"
  have "taken s \<noteq> {0..<?M}" using cand candidate_full [OF inv] by auto
  from candidate_free [OF inv this] obtain k' t' where
    k: "0 \<le> k'" "k' < ?M" "(pos s + k') mod ?M \<notin> taken s" "\<forall>j. 0 \<le> j \<and> j < k' \<longrightarrow> (pos s + j) mod ?M \<in> taken s"
    and c: "candidate s = (t', Some (block s ((pos s + k') mod ?M), k'))"
    and t': "invar t'" "size_of t' = ?M" "block t' = block s" "covers t' = covers s" "accepts t' = accepts s"
      "taken t' = taken s" "pos t' = (pos s + k' + 1) mod ?M" by blast
  have [simp]: "k' = k" "t' = t" "c = block s ((pos s + k) mod ?M)" using c cand by auto
  have p: "pos s = (start + e) mod ?M" and e: "0 \<le> e" and b: "\<And>j. 0 \<le> j \<Longrightarrow> j < e \<Longrightarrow> bad ((start + j) mod ?M)"
    using ex by (auto simp: examined_def)
  have shift: "(pos s + j) mod ?M = (start + (e + j)) mod ?M" for j
    unfolding p by (simp add: mod_add_left_eq add.assoc)
  have "bad ((start + j) mod ?M)" if "0 \<le> j" "j < e + k + 1" "bad ((pos s + k) mod ?M)" for j
  proof (cases "j < e")
    case False
    then have j: "(start + j) mod ?M = (pos s + (j - e)) mod ?M" by (simp add: shift)
    show ?thesis
    proof (cases "j - e < k")
      case True
      then show ?thesis using False k(4) tk unfolding j by simp
    next
      case kk: False
      then have "j - e = k" using that(2) by linarith
      then show ?thesis using that(3) unfolding j by simp
    qed
  qed (use b that in simp)
  moreover have "pos t = (start + (e + k + 1)) mod ?M" using t'(7) shift [of "k + 1"] by (simp add: add.assoc)
  ultimately have "bad ((pos s + k) mod ?M) \<longrightarrow> examined bad start t (e + k + 1)"
    using e k(1) t'(2) by (auto simp: examined_def)
  moreover have "0 \<le> (pos s + k) mod ?M" "(pos s + k) mod ?M < ?M" using pos_range [OF inv] by simp_all
  ultimately show ?thesis using k(1,3) t' by auto
qed

lemma examined_all:
  assumes "examined bad start s e" "invar s" "size_of s \<le> e" "0 \<le> i" "i < size_of s"
  shows "bad i"
proof -
  let ?M = "size_of s"
  have "0 < ?M" using assms(4,5) by linarith
  then have j: "0 \<le> (i - start) mod ?M" "(i - start) mod ?M < e" using assms(3) pos_mod_bound [of ?M "i - start"] by (simp, linarith)
  have "(start + (i - start) mod ?M) mod ?M = (start + (i - start)) mod ?M" by (rule mod_add_right_eq)
  also have "\<dots> = i" using assms(4,5) by simp
  finally have "(start + (i - start) mod ?M) mod ?M = i" .
  then show ?thesis using assms(1) j unfolding examined_def by metis
qed

end

text \<open>\<open>MultiCIDRSet\<close> as such a pool. A failing call of the code is the absence of a result.\<close>

type_synonym pool_state = "NetUtils \<times> MultiCIDRSet"

definition pool_invar :: "pool_state \<Rightarrow> bool" where
  "pool_invar p \<longleftrightarrow> netutils_families (fst p) \<and> wf_set (snd p)"

definition accepts_cidr :: "MultiCIDRSet \<Rightarrow> IPNet \<Rightarrow> bool" where
  "accepts_cidr s c \<longleftrightarrow> wf_net c \<and> nets_intersect (set_ClusterCIDR s) c"

definition pool_occupy :: "pool_state \<Rightarrow> IPNet \<Rightarrow> pool_state option" where
  "pool_occupy p c = (case set_Occupy (fst p) (snd p) (Some c) of (t, Ret _) \<Rightarrow> Some (fst p, t) | _ \<Rightarrow> None)"

definition pool_release :: "pool_state \<Rightarrow> IPNet \<Rightarrow> pool_state option" where
  "pool_release p c = (case set_Release (fst p) (snd p) (Some c) of (t, Ret _) \<Rightarrow> Some (fst p, t) | _ \<Rightarrow> None)"

definition pool_candidate :: "pool_state \<Rightarrow> pool_state \<times> (IPNet \<times> int) option" where
  "pool_candidate p = (case NextCandidate (fst p) (snd p) of
     (t, Ret r) \<Rightarrow> ((fst p, t), Some r) | (t, _) \<Rightarrow> ((fst p, t), None))"

lemma accepts_family: "wf_set s \<Longrightarrow> accepts_cidr s c \<Longrightarrow> same_family s c"
  using nets_intersect_family [of "set_ClusterCIDR s" c] wf_setD(1) [of s]
  by (simp add: accepts_cidr_def same_family_def wf_geometry_def)

lemma range_set: "{i. in_range s i} = {0..<MaxCIDRs s}"
  by (auto simp: in_range_def)

lemma touching_blk:
  assumes "wf_geometry s" "in_range s i"
  shows "touching s (blk s i) = {i}"
  using assms blk_disjoint [OF assms(1)] net_addr_in_addresses [OF wf_net_blk(1) [OF assms]]
  by (auto simp: touching_def)

lemma blk_accepted:
  assumes "wf_geometry s" "in_range s i"
  shows "accepts_cidr s (blk s i)"
proof -
  have w: "wf_net (blk s i)" "wf_net (set_ClusterCIDR s)" "length (net_IP (blk s i)) = length (net_IP (set_ClusterCIDR s))"
    using wf_net_blk [OF assms] assms(1) by (auto simp: wf_geometry_def)
  have "net_addr (blk s i) \<in> addresses (blk s i)" using net_addr_in_addresses [OF w(1)] .
  moreover from this have "net_addr (blk s i) \<in> addresses (set_ClusterCIDR s)"
    using addresses_blk [OF assms] by (simp add: in_cluster_def)
  ultimately show ?thesis using nets_intersect_iff [OF w(2,1)] w by (auto simp: accepts_cidr_def)
qed

lemma next_candidate_update:
  assumes "wf_set s" "in_range s x"
  shows "wf_set (s\<lparr>nextCandidate := x\<rparr>)" "used (s\<lparr>nextCandidate := x\<rparr>) = used s" "same_pool s (s\<lparr>nextCandidate := x\<rparr>)"
proof -
  show p: "same_pool s (s\<lparr>nextCandidate := x\<rparr>)" by (simp add: pool_simps)
  show "used (s\<lparr>nextCandidate := x\<rparr>) = used s" by (simp add: used_def same_pool_geometry [OF p])
  show "wf_set (s\<lparr>nextCandidate := x\<rparr>)"
    unfolding wf_set_pool [OF p] using assms by (simp add: wf_set_def)
qed

lemma pool_occupy_ok:
  assumes "pool_invar p" "accepts_cidr (snd p) c"
  shows "\<exists>t. pool_occupy p c = Some (fst p, t) \<and> pool_invar (fst p, t) \<and> same_pool (snd p) t \<and>
    used t = used (snd p) \<union> touching (snd p) c"
proof -
  have w: "netutils_families (fst p)" "wf_set (snd p)" using assms(1) by (simp_all add: pool_invar_def)
  have a: "wf_net c" "nets_intersect (set_ClusterCIDR (snd p)) c" using assms(2) by (simp_all add: accepts_cidr_def)
  from set_Occupy_in [OF w a(1) accepts_family [OF w(2) assms(2)] a(2)] show ?thesis
    using w by (auto simp: pool_occupy_def pool_invar_def)
qed

lemma pool_release_ok:
  assumes "pool_invar p" "accepts_cidr (snd p) c"
  shows "\<exists>t. pool_release p c = Some (fst p, t) \<and> pool_invar (fst p, t) \<and> same_pool (snd p) t \<and>
    used t = used (snd p) - touching (snd p) c"
proof -
  have w: "netutils_families (fst p)" "wf_set (snd p)" using assms(1) by (simp_all add: pool_invar_def)
  have a: "wf_net c" "nets_intersect (set_ClusterCIDR (snd p)) c" using assms(2) by (simp_all add: accepts_cidr_def)
  from set_Release_in [OF w a(1) accepts_family [OF w(2) assms(2)] a(2)] show ?thesis
    using w by (auto simp: pool_release_def pool_invar_def)
qed

lemma pool_candidate_ok:
  assumes "pool_invar p" "used (snd p) \<noteq> {0..<MaxCIDRs (snd p)}"
  shows "\<exists>k t. 0 \<le> k \<and> k < MaxCIDRs (snd p) \<and> (nextCandidate (snd p) + k) mod MaxCIDRs (snd p) \<notin> used (snd p) \<and>
    (\<forall>j. 0 \<le> j \<and> j < k \<longrightarrow> (nextCandidate (snd p) + j) mod MaxCIDRs (snd p) \<in> used (snd p)) \<and>
    pool_candidate p = ((fst p, t), Some (blk (snd p) ((nextCandidate (snd p) + k) mod MaxCIDRs (snd p)), k)) \<and>
    pool_invar (fst p, t) \<and> same_pool (snd p) t \<and> used t = used (snd p) \<and>
    nextCandidate t = (nextCandidate (snd p) + k + 1) mod MaxCIDRs (snd p)"
proof -
  let ?s = "snd p" and ?M = "MaxCIDRs (snd p)" and ?c = "nextCandidate (snd p)"
  have nu: "netutils_families (fst p)" and w: "wf_set ?s" using assms(1) by (simp_all add: pool_invar_def)
  from NextCandidate_free [OF nu w] assms(2) obtain k i where
    k: "0 \<le> k" "k < ?M" "i = (?c + k) mod ?M" "in_range ?s i" "i \<notin> used ?s"
      "\<forall>j. 0 \<le> j \<and> j < k \<longrightarrow> (?c + j) mod ?M \<in> used ?s"
    and n: "NextCandidate (fst p) ?s = (?s\<lparr>nextCandidate := (i + 1) mod ?M\<rparr>, Ret (blk ?s i, k))"
    unfolding range_set by blast
  have "in_range ?s ((i + 1) mod ?M)" using k(4) by (simp add: in_range_def)
  note u = next_candidate_update [OF w this]
  moreover have "(i + 1) mod ?M = (?c + k + 1) mod ?M" unfolding k(3) by (simp add: mod_add_left_eq)
  ultimately show ?thesis using k nu n
    by (intro exI [of _ k] exI [of _ "?s\<lparr>nextCandidate := (i + 1) mod ?M\<rparr>"]) (simp add: pool_candidate_def pool_invar_def)
qed

lemma same_pool_accepts: "same_pool s t \<Longrightarrow> accepts_cidr t = accepts_cidr s"
  by (auto simp: accepts_cidr_def fun_eq_iff same_pool_def)

interpretation mcs: cidr_pool pool_invar "\<lambda>p. MaxCIDRs (snd p)" "\<lambda>p. used (snd p)" "\<lambda>p. nextCandidate (snd p)"
  "\<lambda>p. blk (snd p)" "\<lambda>p. touching (snd p)" "\<lambda>p. accepts_cidr (snd p)" pool_occupy pool_release pool_candidate
proof (unfold_locales, goal_cases)
  case (1 p)
  then show ?case using used_subset [of "snd p"] by (simp add: range_set)
next
  case (2 p)
  then show ?case using wf_setD(4) [of "snd p"] by (simp add: pool_invar_def in_range_def)
next
  case (3 p)
  then show ?case using blk_inject [OF wf_setD(1), of "snd p"] by (auto simp: pool_invar_def in_range_def intro!: inj_onI)
next
  case (4 p i)
  then show ?case using blk_accepted [OF wf_setD(1)] touching_blk [OF wf_setD(1)] by (simp add: pool_invar_def in_range_def)
next
  case (5 p c)
  from pool_occupy_ok [OF this] obtain t where t: "pool_occupy p c = Some (fst p, t)" "pool_invar (fst p, t)"
    "same_pool (snd p) t" "used t = used (snd p) \<union> touching (snd p) c" by blast
  then show ?case by (simp add: same_pool_geometry [OF t(3)] same_pool_accepts [OF t(3)])
next
  case (6 p c)
  from pool_release_ok [OF this] obtain t where t: "pool_release p c = Some (fst p, t)" "pool_invar (fst p, t)"
    "same_pool (snd p) t" "used t = used (snd p) - touching (snd p) c" by blast
  then show ?case by (simp add: same_pool_geometry [OF t(3)] same_pool_accepts [OF t(3)])
next
  case (7 p)
  then show ?case using NextCandidate_full [of "snd p" "fst p"] by (simp add: pool_invar_def pool_candidate_def range_set)
next
  case (8 p)
  from pool_candidate_ok [OF this] obtain k t where t: "0 \<le> k" "k < MaxCIDRs (snd p)"
    "(nextCandidate (snd p) + k) mod MaxCIDRs (snd p) \<notin> used (snd p)"
    "\<forall>j. 0 \<le> j \<and> j < k \<longrightarrow> (nextCandidate (snd p) + j) mod MaxCIDRs (snd p) \<in> used (snd p)"
    "pool_candidate p = ((fst p, t), Some (blk (snd p) ((nextCandidate (snd p) + k) mod MaxCIDRs (snd p)), k))"
    "pool_invar (fst p, t)" "same_pool (snd p) t" "used t = used (snd p)"
    "nextCandidate t = (nextCandidate (snd p) + k + 1) mod MaxCIDRs (snd p)" by blast
  then show ?case
    by (intro exI [of _ k] exI [of _ "(fst p, t)"]) (simp add: same_pool_geometry [OF t(7)] same_pool_accepts [OF t(7)])
qed

lemma blk_layout:
  assumes "netutils_families nu" "wf_geometry s" "in_range s i"
  shows "\<exists>n. indexToCIDRBlock nu s i = Ret n \<and> wf_net n \<and> int (plen n) = NodeMaskSize s \<and>
    addresses n = {net_addr (set_ClusterCIDR s) + i * 2 ^ host_bits s ..< net_addr (set_ClusterCIDR s) + (i + 1) * 2 ^ host_bits s}"
proof -
  let ?n = "blk s i" and ?c = "set_ClusterCIDR s" and ?h = "host_bits s"
  note w = wf_net_blk [OF assms(2,3)]
  have nms: "0 \<le> NodeMaskSize s" "NodeMaskSize s \<le> int (set_bits s)" using assms(2) by (auto simp: wf_geometry_def)
  have h: "addr_bits ?n - plen ?n = ?h"
    using w nms by (simp add: addr_bits_def host_bits_def set_bits_def)
  have "net_addr ?c AND push_bit ?h i = 0"
  proof (rule bit_eqI)
    fix n
    have "bit i (n - ?h) \<Longrightarrow> n - ?h < sub_bits s"
      using in_range_bounds [OF assms(2), of i] assms(3) bit_int_less by blast
    then have "\<not> (bit (net_addr ?c) n \<and> ?h \<le> n \<and> bit i (n - ?h))"
      using cluster_addr_low [OF assms(2), of n] by linarith
    then show "bit (net_addr ?c AND push_bit ?h i) n = bit 0 n"
      by (simp add: bit_and_iff bit_push_bit_iff)
  qed
  then have "net_addr ?n = net_addr ?c + i * 2 ^ ?h"
    using net_addr_blk(1) [OF assms(2,3)] disjunctive_add_eq_or [of "net_addr ?c" "push_bit ?h i"]
    by (simp add: push_bit_eq_mult)
  moreover have "addresses ?n = {net_addr ?n ..< net_addr ?n + 2 ^ ?h}"
    using addresses_interval [OF w(1)] net_last_eq [OF w(1), unfolded h] by fastforce
  moreover have "(i + 1) * 2 ^ ?h = i * 2 ^ ?h + 2 ^ ?h" by (rule distrib_right [of i 1, simplified])
  ultimately have "addresses ?n = {net_addr ?c + i * 2 ^ ?h ..< net_addr ?c + (i + 1) * 2 ^ ?h}"
    by (simp only: add.assoc)
  then show ?thesis using indexToCIDRBlock_eq [OF assms] w nms by simp
qed

lemma partition_by_slot:
  assumes "netutils_families nu" "wf_geometry s"
  shows "a \<in> addresses (set_ClusterCIDR s) \<longleftrightarrow>
    (\<exists>!i. in_range s i \<and> (\<exists>n. indexToCIDRBlock nu s i = Ret n \<and> a \<in> addresses n))"
proof -
  have "in_range s i \<and> (\<exists>n. indexToCIDRBlock nu s i = Ret n \<and> a \<in> addresses n) \<longleftrightarrow>
    in_range s i \<and> in_cluster s a \<and> slot s a = i" for i
    using indexToCIDRBlock_eq [OF assms] addresses_blk [OF assms(2)] by auto
  then show ?thesis using slot_in_range [OF assms(2)] by (auto simp: in_cluster_def)
qed

lemma cluster_intersect_iff:
  assumes "wf_set s" "wf_net c"
  shows "nets_intersect (set_ClusterCIDR s) c \<longleftrightarrow> same_family s c \<and> addresses (set_ClusterCIDR s) \<inter> addresses c \<noteq> {}"
proof -
  have w: "wf_net (set_ClusterCIDR s)" using wf_setD(1) [OF assms(1)] by (simp add: wf_geometry_def)
  show ?thesis using nets_intersect_iff [OF w assms(2)] nets_intersect_family [OF w assms(2)]
    by (auto simp: same_family_def)
qed

text \<open>Drawing \<open>n\<close> blocks through the operations of the code.\<close>

primrec draw_cidrs :: "NetUtils \<Rightarrow> nat \<Rightarrow> MultiCIDRSet \<Rightarrow> MultiCIDRSet \<times> IPNet list" where
  "draw_cidrs nu 0 s = (s, [])"
| "draw_cidrs nu (Suc n) s =
     (case NextCandidate nu s of
        (t, Ret (c, _)) \<Rightarrow>
          (case set_Occupy nu t (Some c) of
             (u, Ret _) \<Rightarrow> (case draw_cidrs nu n u of (v, cs) \<Rightarrow> (v, c # cs))
           | _ \<Rightarrow> (t, []))
      | (t, _) \<Rightarrow> (t, []))"

lemma draw_cidrs_eq: "mcs.draw n (nu, s) = ((nu, fst (draw_cidrs nu n s)), snd (draw_cidrs nu n s))"
proof (induction n arbitrary: s)
  case 0
  show ?case by simp
next
  case (Suc n)
  note pc = pool_candidate_def [of "(nu, s)"] and po = pool_occupy_def [of "(nu, _)"]
  obtain t r where n: "NextCandidate nu s = (t, r)" by force
  show ?case
  proof (cases r)
    case (Ret ck)
    obtain c k where ck: "ck = (c, k)" by force
    obtain u q where o: "set_Occupy nu t (Some c) = (u, q)" by force
    show ?thesis using Ret ck n o Suc.IH [of u]
      by (cases q; cases "draw_cidrs nu n u") (simp_all add: pc po)
  qed (use n in \<open>simp_all add: pc\<close>)
qed

end
