(* ===== verification/CIDRSetProps.thy ===== *)
theory CIDRSetProps
  imports CIDRPool
begin

text \<open>The properties of one \<open>MultiCIDRSet\<close>, stated over the operations of the code, and the concrete
  sets they are applied to: 16 blocks in \<open>10.0.0.0/24\<close> and 16 blocks in \<open>2001:db8::/120\<close>.\<close>

definition demo_v4 :: IPNet where
  "demo_v4 = \<lparr> net_IP = [10, 0, 0, 0], net_Mask = [255, 255, 255, 0] \<rparr>"

definition demo_v6 :: IPNet where
  "demo_v6 = \<lparr> net_IP = [32, 1, 13, 184, 0, 0, 0, 0, 0, 0, 0, 0, 0, 0, 0, 0],
               net_Mask = [255, 255, 255, 255, 255, 255, 255, 255, 255, 255, 255, 255, 255, 255, 255, 0] \<rparr>"

definition demo_set :: "IPNet \<Rightarrow> MultiCIDRSet" where
  "demo_set c = \<lparr> set_ClusterCIDR = c, NodeMaskSize = int (addr_bits c) - 4, MaxCIDRs = 16, set_Label = net_String c,
     allocatedCIDRMap = [], clusterMaskSize = int (plen c), clusterCIDRName = ''demo'',
     nodeMask = CIDRMask (int (addr_bits c) - 4) (int (addr_bits c)), allocatedCIDRs = 0, nextCandidate = 0,
     set_metrics = [cidrSetMaxCidrs_Set 16] \<rparr>"

lemma demo_fits: "fits demo_v4 4" "fits demo_v6 4"
  by code_simp+

lemma demo_dims: "addr_bits demo_v4 = 32" "plen demo_v4 = 24" "addr_bits demo_v6 = 128" "plen demo_v6 = 120"
  "length (net_IP demo_v4) = 4" "length (net_IP demo_v6) = 16"
  by code_simp+

lemma demo_New:
  "NewMultiCIDRSet ref_netutils ''demo'' demo_v4 4 = Ret (demo_set demo_v4)"
  "NewMultiCIDRSet ref_netutils ''demo'' demo_v6 4 = Ret (demo_set demo_v6)"
  using demo_fits getMaxCIDRs_pow [of 28 24] getMaxCIDRs_pow [of 124 120]
  by (simp_all add: NewMultiCIDRSet_eq [OF ref_netutils_families] fits_def demo_dims demo_set_def clusterSubnetMaxDiff_def)

lemma demo_wf: "wf_set (demo_set demo_v4)" "wf_set (demo_set demo_v6)"
  using NewMultiCIDRSet_ok [OF ref_netutils_families demo_fits(1)] NewMultiCIDRSet_ok [OF ref_netutils_families demo_fits(2)]
  by (simp_all add: demo_New) (metis demo_New outcome.inject(1))+

lemma demo_in_range: "in_range (demo_set c) i \<longleftrightarrow> 0 \<le> i \<and> i < 16"
  by (simp add: in_range_def demo_set_def)

lemma demo_fields [simp]:
  "set_ClusterCIDR (demo_set c) = c" "MaxCIDRs (demo_set c) = 16" "nextCandidate (demo_set c) = 0"
  "NodeMaskSize (demo_set c) = int (addr_bits c) - 4"
  by (simp_all add: demo_set_def)

lemma demo_used [simp]: "used (demo_set c) = {}"
  by (simp add: used_def demo_set_def)

lemma demo_intersects: "nets_intersect demo_v4 demo_v4" "nets_intersect demo_v6 demo_v6" "\<not> nets_intersect demo_v4 demo_v6"
  by code_simp+

lemma demo_nets: "wf_net demo_v4" "wf_net demo_v6"
  by code_simp+

text \<open>C29. For every block number of a well-formed set, \<open>indexToCIDRBlock\<close> succeeds with a well-formed
  CIDR of the set's node mask whose addresses are exactly the \<open>i\<close>-th run of \<open>2 ^ (bits - NodeMaskSize)\<close>
  consecutive addresses counted from the cluster CIDR's first address, in both address families.\<close>

theorem index_block:
  assumes "netutils_families nu" "wf_set s" "0 \<le> i" "i < MaxCIDRs s"
  shows "\<exists>n. indexToCIDRBlock nu s i = Ret n \<and> wf_net n \<and> int (plen n) = NodeMaskSize s \<and>
    addresses n = {net_addr (set_ClusterCIDR s) + i * 2 ^ host_bits s ..< net_addr (set_ClusterCIDR s) + (i + 1) * 2 ^ host_bits s}"
  using blk_layout [OF assms(1) wf_setD(1) [OF assms(2)]] assms(3,4) by (simp add: in_range_def)

theorem index_block_witness:
  "\<exists>n. indexToCIDRBlock ref_netutils (demo_set demo_v6) 5 = Ret n \<and> wf_net n \<and> int (plen n) = 124 \<and>
    addresses n = {net_addr demo_v6 + 80 ..< net_addr demo_v6 + 96}"
  using index_block [OF ref_netutils_families demo_wf(2), of 5]
  by (simp add: demo_dims host_bits_def set_bits_def)

text \<open>C30. The blocks of a set partition its cluster CIDR: an address belongs to the cluster CIDR iff
  it belongs to one of the blocks \<open>0 .. MaxCIDRs - 1\<close>, and then to exactly one.\<close>

theorem blocks_partition:
  assumes "netutils_families nu" "wf_set s"
  shows "a \<in> addresses (set_ClusterCIDR s) \<longleftrightarrow>
    (\<exists>!i. 0 \<le> i \<and> i < MaxCIDRs s \<and> (\<exists>n. indexToCIDRBlock nu s i = Ret n \<and> a \<in> addresses n))"
  using partition_by_slot [OF assms(1) wf_setD(1) [OF assms(2)], of a] by (simp add: in_range_def conj_assoc)

theorem blocks_partition_witness:
  "net_addr demo_v4 + 35 \<in> addresses (set_ClusterCIDR (demo_set demo_v4)) \<longleftrightarrow>
    (\<exists>!i. 0 \<le> i \<and> i < MaxCIDRs (demo_set demo_v4) \<and>
       (\<exists>n. indexToCIDRBlock ref_netutils (demo_set demo_v4) i = Ret n \<and> net_addr demo_v4 + 35 \<in> addresses n))"
  by (rule blocks_partition [OF ref_netutils_families demo_wf(1)])

text \<open>\<open>getIndexForIP\<close> inverts \<open>indexToCIDRBlock\<close>: any address of the family inside block \<open>i\<close> is
  mapped back to \<open>i\<close>, so in particular the block's own IP is.\<close>

theorem index_roundtrip:
  assumes "netutils_families nu" "wf_set s" "0 \<le> i" "i < MaxCIDRs s" "indexToCIDRBlock nu s i = Ret n"
    "length ip = length (net_IP n)" "be_int ip \<in> addresses n"
  shows "getIndexForIP nu s ip = Ret i"
proof -
  have g: "wf_geometry s" and r: "in_range s i" using wf_setD(1) [OF assms(2)] assms(3,4) by (simp_all add: in_range_def)
  have n: "n = blk s i" using indexToCIDRBlock_eq [OF assms(1) g r] assms(5) by simp
  show ?thesis using getIndexForIP_eq [OF assms(1) g] addresses_blk [OF g r] wf_net_blk(3) [OF g r] assms(6,7)
    by (simp add: n)
qed

theorem index_roundtrip_witness:
  "\<exists>n. indexToCIDRBlock ref_netutils (demo_set demo_v4) 7 = Ret n \<and> getIndexForIP ref_netutils (demo_set demo_v4) (net_IP n) = Ret 7"
proof -
  have g: "wf_geometry (demo_set demo_v4)" and r: "in_range (demo_set demo_v4) 7"
    using wf_setD(1) [OF demo_wf(1)] by (simp_all add: demo_in_range)
  show ?thesis
    using index_roundtrip [OF ref_netutils_families demo_wf(1) _ _ indexToCIDRBlock_eq [OF ref_netutils_families g r], of "net_IP (blk (demo_set demo_v4) 7)"]
      indexToCIDRBlock_eq [OF ref_netutils_families g r] net_addr_in_addresses [OF wf_net_blk(1) [OF g r]]
    by (simp add: net_addr_def)
qed

text \<open>C31. \<open>getBeginningAndEndIndices\<close> is exact: for a CIDR of the set's family that shares an address with
  the cluster CIDR it returns the inclusive range of exactly the blocks sharing an address with it (the
  whole set when the CIDR is as large as the cluster CIDR), and for every other CIDR it fails.\<close>

theorem indices_exact:
  assumes "netutils_families nu" "wf_set s" "wf_net c"
  shows "if same_family s c \<and> addresses (set_ClusterCIDR s) \<inter> addresses c \<noteq> {}
    then \<exists>b e. getBeginningAndEndIndices nu s (Some c) = Ret (b, e) \<and>
      {b..e} = {i. 0 \<le> i \<and> i < MaxCIDRs s \<and> addresses (blk s i) \<inter> addresses c \<noteq> {}}
    else getBeginningAndEndIndices nu s (Some c) = Fail (Errorf ''cidr is out the range of cluster cidr'')"
  using getBeginningAndEndIndices_in [OF assms(1) wf_setD(1) [OF assms(2)] assms(3)]
    getBeginningAndEndIndices_out [of s c nu] cluster_intersect_iff [OF assms(2,3)]
  by (auto simp: touching_def in_range_def)

theorem indices_exact_witness:
  "\<exists>b e. getBeginningAndEndIndices ref_netutils (demo_set demo_v4) (Some demo_v4) = Ret (b, e) \<and>
      {b..e} = {i. 0 \<le> i \<and> i < 16 \<and> addresses (blk (demo_set demo_v4) i) \<inter> addresses demo_v4 \<noteq> {}}"
proof -
  have "addresses demo_v4 \<noteq> {}" using net_addr_in_addresses [OF demo_nets(1)] by blast
  then show ?thesis
    using indices_exact [OF ref_netutils_families demo_wf(1) demo_nets(1)] by (simp add: same_family_def)
qed

text \<open>C32. \<open>Occupy\<close> of a CIDR that shares an address with the cluster CIDR succeeds, keeps the invariant and
  the block layout, and makes exactly the touched blocks used in addition to those already used (occupying
  twice changes nothing more); \<open>allocatedCIDRs\<close> is the number of used blocks afterwards. A CIDR outside
  is refused and the set is unchanged.\<close>

theorem occupy_effect:
  assumes "netutils_families nu" "wf_set s" "wf_net c"
  shows "case set_Occupy nu s (Some c) of (t, r) \<Rightarrow>
    wf_set t \<and> same_pool s t \<and> nextCandidate t = nextCandidate s \<and> allocatedCIDRs t = int (card (used t)) \<and>
    (if nets_intersect (set_ClusterCIDR s) c
     then r = Ret () \<and> used t = used s \<union> {i. in_range s i \<and> addresses (blk s i) \<inter> addresses c \<noteq> {}}
     else r = Fail (Errorf ''cidr is out the range of cluster cidr'') \<and> t = s)"
proof (cases "nets_intersect (set_ClusterCIDR s) c")
  case True
  then have "same_family s c" using accepts_family [OF assms(2)] assms(3) by (simp add: accepts_cidr_def)
  from set_Occupy_in [OF assms this True] show ?thesis using True card_used by (auto simp: touching_def)
next
  case False
  then show ?thesis using set_Occupy_out [OF False] assms(2) card_used by simp
qed

theorem occupy_effect_witness:
  "wf_set (demo_set demo_v6) \<and> nets_intersect demo_v6 demo_v6 \<and>
   (\<exists>t. set_Occupy ref_netutils (demo_set demo_v6) (Some demo_v6) = (t, Ret ()) \<and> wf_set t \<and>
     used t = {i. in_range (demo_set demo_v6) i \<and> addresses (blk (demo_set demo_v6) i) \<inter> addresses demo_v6 \<noteq> {}})"
  using occupy_effect [OF ref_netutils_families demo_wf(2) demo_nets(2)] demo_wf(2) demo_intersects(2)
  by (auto split: prod.splits)

text \<open>C33. \<open>Release\<close> of a CIDR that shares an address with the cluster CIDR succeeds, keeps the invariant and
  frees exactly the touched blocks, whether or not they were used, with the counter following; a CIDR
  outside is refused and the set is unchanged.\<close>

theorem release_effect:
  assumes "netutils_families nu" "wf_set s" "wf_net c"
  shows "case set_Release nu s (Some c) of (t, r) \<Rightarrow>
    wf_set t \<and> same_pool s t \<and> nextCandidate t = nextCandidate s \<and> allocatedCIDRs t = int (card (used t)) \<and>
    (if nets_intersect (set_ClusterCIDR s) c
     then r = Ret () \<and> used t = used s - {i. in_range s i \<and> addresses (blk s i) \<inter> addresses c \<noteq> {}}
     else r = Fail (Errorf ''cidr is out the range of cluster cidr'') \<and> t = s)"
proof (cases "nets_intersect (set_ClusterCIDR s) c")
  case True
  then have "same_family s c" using accepts_family [OF assms(2)] assms(3) by (simp add: accepts_cidr_def)
  from set_Release_in [OF assms this True] show ?thesis using True card_used by (auto simp: touching_def)
next
  case False
  then show ?thesis using set_Release_out [OF False] assms(2) card_used by simp
qed

theorem release_effect_witness:
  "wf_set (demo_set demo_v4) \<and> \<not> nets_intersect demo_v4 demo_v6 \<and>
   set_Release ref_netutils (demo_set demo_v4) (Some demo_v6) =
     (demo_set demo_v4, Fail (Errorf ''cidr is out the range of cluster cidr''))"
  using release_effect [OF ref_netutils_families demo_wf(1) demo_nets(2)] demo_wf(1) demo_intersects(3)
  by (auto split: prod.splits)

text \<open>A block handed out and given back leaves the set as free as it was: occupying a free block with
  \<open>Occupy\<close> and releasing it with \<open>Release\<close> both succeed and restore the used blocks and the counter.\<close>

theorem occupy_release:
  assumes "netutils_families nu" "wf_set s" "in_range s i" "i \<notin> used s"
  shows "\<exists>t u. set_Occupy nu s (Some (blk s i)) = (t, Ret ()) \<and> used t = insert i (used s) \<and>
    allocatedCIDRs t = allocatedCIDRs s + 1 \<and>
    set_Release nu t (Some (blk s i)) = (u, Ret ()) \<and> wf_set u \<and> used u = used s \<and> allocatedCIDRs u = allocatedCIDRs s"
proof -
  have g: "wf_geometry s" by (rule wf_setD(1) [OF assms(2)])
  have a: "wf_net (blk s i)" "nets_intersect (set_ClusterCIDR s) (blk s i)" "touching s (blk s i) = {i}"
    using blk_accepted [OF g assms(3)] touching_blk [OF g assms(3)] by (simp_all add: accepts_cidr_def)
  have f: "same_family s (blk s i)" using wf_net_blk(3) [OF g assms(3)] by (simp add: same_family_def)
  from set_Occupy_in [OF assms(1,2) a(1) f a(2)] obtain t where t: "set_Occupy nu s (Some (blk s i)) = (t, Ret ())"
    "wf_set t" "same_pool s t" "used t = used s \<union> touching s (blk s i)" by blast
  have "\<exists>u. set_Release nu t (Some (blk s i)) = (u, Ret ()) \<and> wf_set u \<and> same_pool t u \<and>
      nextCandidate u = nextCandidate t \<and> used u = used t - touching t (blk s i)"
    using set_Release_in [OF assms(1) t(2) a(1)] f a(2) by (simp add: same_pool_geometry [OF t(3)])
  then obtain u where u: "set_Release nu t (Some (blk s i)) = (u, Ret ())" "wf_set u" "used u = used t - touching t (blk s i)"
    by blast
  have ut: "used t = insert i (used s)" and uu: "used u = used s"
    using t(4) u(3) a(3) assms(4) by (auto simp: same_pool_geometry [OF t(3)])
  have "allocatedCIDRs t = allocatedCIDRs s + 1" "allocatedCIDRs u = allocatedCIDRs s"
    using card_used [OF t(2)] card_used [OF u(2)] card_used [OF assms(2)] assms(4) unfolding ut uu by simp_all
  then show ?thesis using t(1) u(1,2) ut uu by blast
qed

theorem occupy_release_witness:
  "\<exists>t u. set_Occupy ref_netutils (demo_set demo_v4) (Some (blk (demo_set demo_v4) 9)) = (t, Ret ()) \<and> used t = {9} \<and>
    set_Release ref_netutils t (Some (blk (demo_set demo_v4) 9)) = (u, Ret ()) \<and> used u = {}"
  using occupy_release [OF ref_netutils_families demo_wf(1), of 9] by (auto simp: demo_in_range)

text \<open>C34. \<open>NextCandidate\<close> fails with \<open>CIDRRangeNoCIDRsRemainingErr\<close> iff every block is used. Otherwise it returns
  the first free block met when walking the block numbers cyclically from \<open>nextCandidate\<close>, together with
  the number of used blocks it passed, occupies nothing, and leaves \<open>nextCandidate\<close> just after it.\<close>

theorem next_candidate:
  assumes "netutils_families nu" "wf_set s"
  shows "if used s = {i. in_range s i}
    then NextCandidate nu s = (s, Fail (CIDRRangeNoCIDRsRemainingErr (set_Label s)))
    else \<exists>k i. 0 \<le> k \<and> k < MaxCIDRs s \<and> i = (nextCandidate s + k) mod MaxCIDRs s \<and> in_range s i \<and> i \<notin> used s \<and>
      (\<forall>j. 0 \<le> j \<and> j < k \<longrightarrow> (nextCandidate s + j) mod MaxCIDRs s \<in> used s) \<and>
      NextCandidate nu s = (s\<lparr>nextCandidate := (i + 1) mod MaxCIDRs s\<rparr>, Ret (blk s i, k))"
  using NextCandidate_full [OF assms(2)] NextCandidate_free [OF assms] by simp

theorem next_candidate_witness:
  "\<exists>k i. in_range (demo_set demo_v4) i \<and>
     NextCandidate ref_netutils (demo_set demo_v4) = ((demo_set demo_v4)\<lparr>nextCandidate := (i + 1) mod 16\<rparr>, Ret (blk (demo_set demo_v4) i, k))"
proof -
  have "used (demo_set demo_v4) \<noteq> {i. in_range (demo_set demo_v4) i}"
    by (auto simp: demo_in_range intro!: exI [of _ 0])
  with next_candidate [OF ref_netutils_families demo_wf(1)] show ?thesis
    unfolding demo_fields by (simp only: if_False) blast
qed

text \<open>Allocating by \<open>NextCandidate\<close> and \<open>Occupy\<close> \<open>n\<close> times hands out \<open>min n free\<close> CIDRs, where \<open>free\<close> is the
  number of free blocks: pairwise different blocks, pairwise disjoint as address ranges, none of them used
  before, all of them used afterwards. So a set is never double-booked and never runs out early.\<close>

theorem draw_blocks:
  assumes "netutils_families nu" "wf_set s"
  shows "\<exists>is t. draw_cidrs nu n s = (t, map (blk s) is) \<and> wf_set t \<and> distinct is \<and>
    set is \<subseteq> {i. in_range s i} - used s \<and> used t = used s \<union> set is \<and>
    length is = min n (nat (MaxCIDRs s - allocatedCIDRs s)) \<and>
    (\<forall>i \<in> set is. \<forall>j \<in> set is. i \<noteq> j \<longrightarrow> addresses (blk s i) \<inter> addresses (blk s j) = {})"
proof -
  let ?t = "fst (draw_cidrs nu n s)"
  have inv: "pool_invar (nu, s)" using assms by (simp add: pool_invar_def)
  from mcs.draw_spec [OF inv, of n] obtain "is" where r: "snd (draw_cidrs nu n s) = map (blk s) is" "wf_set ?t"
    "distinct is" "set is \<subseteq> {0..<MaxCIDRs s} - used s" "used ?t = used s \<union> set is"
    "length is = min n (card ({0..<MaxCIDRs s} - used s))"
    by (auto simp: draw_cidrs_eq pool_invar_def)
  have "card ({0..<MaxCIDRs s} - used s) = nat (MaxCIDRs s - allocatedCIDRs s)"
    using card_used [OF assms(2)] used_subset [of s] card_Diff_subset [of "used s" "{0..<MaxCIDRs s}"] by (simp add: range_set)
  moreover have "addresses (blk s i) \<inter> addresses (blk s j) = {}" if "i \<in> set is" "j \<in> set is" "i \<noteq> j" for i j
  proof -
    have "in_range s i" "in_range s j" using r(4) that by (auto simp: in_range_def)
    then show ?thesis using blk_disjoint [OF wf_setD(1) [OF assms(2)]] that(3) by blast
  qed
  ultimately show ?thesis using r unfolding range_set
    by (intro exI [of _ "is"] exI [of _ ?t]) (auto intro: prod_eqI)
qed

theorem draw_blocks_witness:
  "\<exists>is t. draw_cidrs ref_netutils 20 (demo_set demo_v6) = (t, map (blk (demo_set demo_v6)) is) \<and>
    distinct is \<and> length is = 16"
  using draw_blocks [OF ref_netutils_families demo_wf(2), of 20] by (auto simp: demo_set_def)

text \<open>The two checks the allocator makes against other sets are exact: \<open>CIDRAllocated\<close> holds iff the CIDR is
  a block currently used, \<open>CIDROverlaps\<close> iff it shares an address (of the same family) with a block
  currently used.\<close>

theorem overlap_check:
  assumes "netutils_parse nu" "wf_set s" "wf_net c"
  shows "(CIDRAllocated s c \<longleftrightarrow> (\<exists>i \<in> used s. c = blk s i)) \<and>
    (CIDROverlaps nu s c \<longleftrightarrow> same_family s c \<and> (\<exists>i \<in> used s. addresses (blk s i) \<inter> addresses c \<noteq> {}))"
  using CIDRAllocated_iff [OF assms(2,3)] CIDROverlaps_iff [OF assms] used_subset [of s]
  by (auto simp: touching_def)

theorem overlap_check_witness:
  "\<not> CIDRAllocated (demo_set demo_v4) demo_v4 \<and> \<not> CIDROverlaps ref_netutils (demo_set demo_v4) demo_v4"
  using overlap_check [OF ref_netutils_parse demo_wf(1) demo_nets(1)] by simp

text \<open>\<open>NewMultiCIDRSet\<close>: host bits that fit the cluster CIDR give an empty well-formed set of
  \<open>2 ^ (bits - prefix - hostbits)\<close> blocks; an IPv6 configuration whose node mask is more than 16 bits
  longer than the cluster mask is refused with \<open>CIDRSetSubNetTooBigErr\<close>; more host bits than the cluster
  CIDR has give a set of no blocks, on which \<open>NextCandidate\<close> always fails.\<close>

theorem new_set:
  assumes "netutils_families nu" "wf_net c"
  shows "(fits c p \<longrightarrow> (\<exists>s. NewMultiCIDRSet nu name c p = Ret s \<and> wf_set s \<and> used s = {} \<and> set_ClusterCIDR s = c \<and>
        MaxCIDRs s = 2 ^ (addr_bits c - plen c - nat p))) \<and>
    (length (net_IP c) = 16 \<and> 128 - p - int (plen c) > 16 \<longrightarrow>
       NewMultiCIDRSet nu name c p = Fail (CIDRSetSubNetTooBigErr (net_String c) (128 - p) (int (plen c)))) \<and>
    (int (addr_bits c) < int (plen c) + p \<and> p < 2 ^ 31 \<longrightarrow>
       (\<exists>s. NewMultiCIDRSet nu name c p = Ret s \<and> MaxCIDRs s = 0 \<and>
          (\<forall>nu'. NextCandidate nu' s = (s, Fail (CIDRRangeNoCIDRsRemainingErr (net_String c))))))"
  using NewMultiCIDRSet_ok [OF assms(1), of c p name] NewMultiCIDRSet_too_big [OF assms, of p name]
    NewMultiCIDRSet_no_blocks [OF assms, of p name] by blast

theorem new_set_witness:
  "(\<exists>s. NewMultiCIDRSet ref_netutils ''demo'' demo_v4 4 = Ret s \<and> wf_set s \<and> used s = {} \<and> MaxCIDRs s = 16) \<and>
   NewMultiCIDRSet ref_netutils ''demo'' demo_v6 (-12) = Fail (CIDRSetSubNetTooBigErr (net_String demo_v6) 140 120) \<and>
   (\<exists>s. NewMultiCIDRSet ref_netutils ''demo'' demo_v4 9 = Ret s \<and> MaxCIDRs s = 0)"
  using new_set [OF ref_netutils_families demo_nets(1), of 4 "''demo''"] demo_fits(1)
    new_set [OF ref_netutils_families demo_nets(2), of "-12" "''demo''"]
    new_set [OF ref_netutils_families demo_nets(1), of 9 "''demo''"]
  by (simp add: demo_dims) blast

text \<open>The life of a set: created by \<open>NewMultiCIDRSet\<close>, then any sequence of its methods, with any well-formed
  or nil CIDR as argument and whatever the calls return.\<close>

inductive set_reachable :: "NetUtils \<Rightarrow> MultiCIDRSet \<Rightarrow> bool" for nu where
  created: "fits c p \<Longrightarrow> NewMultiCIDRSet nu name c p = Ret s \<Longrightarrow> set_reachable nu s"
| occupied: "set_reachable nu s \<Longrightarrow> pred_option wf_net c \<Longrightarrow> set_Occupy nu s c = (t, r) \<Longrightarrow> set_reachable nu t"
| released: "set_reachable nu s \<Longrightarrow> pred_option wf_net c \<Longrightarrow> set_Release nu s c = (t, r) \<Longrightarrow> set_reachable nu t"
| candidate: "set_reachable nu s \<Longrightarrow> NextCandidate nu s = (t, q) \<Longrightarrow> set_reachable nu t"
| counted: "set_reachable nu s \<Longrightarrow> set_reachable nu (UpdateEvaluatedCount s e)"

lemma nil_cidr:
  "set_Occupy nu s None = (s, Fail (Errorf ''error getting indices for cluster cidr, cidr is nil''))"
  "set_Release nu s None = (s, Fail (Errorf ''error getting indices for cluster cidr, cidr is nil''))"
  by (simp_all add: set_Occupy_def set_Release_def getBeginningAndEndIndices_def)

lemma set_ops_wf:
  assumes "netutils_families nu" "wf_set s" "pred_option wf_net c"
  shows "wf_set (fst (set_Occupy nu s c))" "wf_set (fst (set_Release nu s c))" "wf_set (fst (NextCandidate nu s))"
    "same_pool s (fst (set_Occupy nu s c))" "same_pool s (fst (set_Release nu s c))" "same_pool s (fst (NextCandidate nu s))"
proof -
  have o: "wf_set (fst (set_Occupy nu s c)) \<and> same_pool s (fst (set_Occupy nu s c))"
  proof (cases c)
    case (Some n)
    show ?thesis
    proof (cases "nets_intersect (set_ClusterCIDR s) n")
      case True
      then have "accepts_cidr s n" using assms(3) Some by (simp add: accepts_cidr_def)
      with set_Occupy_in [OF assms(1,2) _ accepts_family [OF assms(2)]] True Some assms(3) show ?thesis by fastforce
    qed (use Some assms(2) set_Occupy_out in simp)
  qed (use assms(2) nil_cidr in simp)
  have r: "wf_set (fst (set_Release nu s c)) \<and> same_pool s (fst (set_Release nu s c))"
  proof (cases c)
    case (Some n)
    show ?thesis
    proof (cases "nets_intersect (set_ClusterCIDR s) n")
      case True
      then have "accepts_cidr s n" using assms(3) Some by (simp add: accepts_cidr_def)
      with set_Release_in [OF assms(1,2) _ accepts_family [OF assms(2)]] True Some assms(3) show ?thesis by fastforce
    qed (use Some assms(2) set_Release_out in simp)
  qed (use assms(2) nil_cidr in simp)
  have n: "wf_set (fst (NextCandidate nu s)) \<and> same_pool s (fst (NextCandidate nu s))"
  proof (cases "used s = {i. in_range s i}")
    case False
    from NextCandidate_free [OF assms(1,2) False] obtain k i where "in_range s i"
      and e: "NextCandidate nu s = (s\<lparr>nextCandidate := (i + 1) mod MaxCIDRs s\<rparr>, Ret (blk s i, k))" by blast
    then have "in_range s ((i + 1) mod MaxCIDRs s)" by (simp add: in_range_def)
    from next_candidate_update [OF assms(2) this] show ?thesis by (simp add: e)
  qed (use assms(2) NextCandidate_full in simp)
  show "wf_set (fst (set_Occupy nu s c))" "wf_set (fst (set_Release nu s c))" "wf_set (fst (NextCandidate nu s))"
    "same_pool s (fst (set_Occupy nu s c))" "same_pool s (fst (set_Release nu s c))" "same_pool s (fst (NextCandidate nu s))"
    using o r n by simp_all
qed

lemma set_reachable_wf: "set_reachable nu s \<Longrightarrow> netutils_families nu \<Longrightarrow> wf_set s"
proof (induction rule: set_reachable.induct)
  case (created c p name s)
  then show ?case using NewMultiCIDRSet_ok [OF created.prems created.hyps(1), of name] by auto
next
  case (occupied s c t r)
  then show ?case using set_ops_wf(1) [of nu s c] by simp
next
  case (released s c t r)
  then show ?case using set_ops_wf(2) [of nu s c] by simp
next
  case (candidate s t q)
  then show ?case using set_ops_wf(3) [of nu s None] by simp
qed simp

text \<open>C35. At every moment of a set's life its invariant holds: \<open>allocatedCIDRs\<close> is the size of
  \<open>allocatedCIDRMap\<close> and the number of used blocks, lies between 0 and \<open>MaxCIDRs\<close>, equals the allocations
  counted by the metrics minus the releases counted, and \<open>nextCandidate\<close> is a block number.\<close>

theorem set_invariant:
  assumes "set_reachable nu s" "netutils_families nu"
  shows "allocatedCIDRs s = int (length (allocatedCIDRMap s)) \<and> allocatedCIDRs s = int (card (used s)) \<and>
    0 \<le> allocatedCIDRs s \<and> allocatedCIDRs s \<le> MaxCIDRs s \<and> 0 \<le> nextCandidate s \<and> nextCandidate s < MaxCIDRs s \<and>
    allocatedCIDRs s = int (count_list (set_metrics s) cidrSetAllocations_Inc) - int (count_list (set_metrics s) cidrSetReleases_Inc)"
proof -
  have w: "wf_set s" using set_reachable_wf [OF assms] .
  show ?thesis using wf_setD(3-5) [OF w] card_used [OF w] allocated_bounds [OF w]
    by (simp add: in_range_def net_allocations_def)
qed

theorem set_invariant_witness:
  "set_reachable ref_netutils (fst (set_Occupy ref_netutils (demo_set demo_v4) (Some demo_v4))) \<and>
   allocatedCIDRs (fst (set_Occupy ref_netutils (demo_set demo_v4) (Some demo_v4))) \<le>
   MaxCIDRs (fst (set_Occupy ref_netutils (demo_set demo_v4) (Some demo_v4)))"
proof -
  have "set_reachable ref_netutils (demo_set demo_v4)" by (rule set_reachable.created [OF demo_fits(1) demo_New(1)])
  then have r: "set_reachable ref_netutils (fst (set_Occupy ref_netutils (demo_set demo_v4) (Some demo_v4)))"
    by (rule set_reachable.occupied [where c = "Some demo_v4" and r = "snd (set_Occupy ref_netutils (demo_set demo_v4) (Some demo_v4))"])
      (simp_all add: demo_nets)
  then show ?thesis using set_invariant [OF r ref_netutils_families] by blast
qed

text \<open>The keys of \<open>allocatedCIDRMap\<close> identify CIDRs: \<open>IPNet.String\<close> is injective on well-formed CIDRs of
  both families, including the zero-run compression of IPv6.\<close>

theorem cidr_text:
  assumes "wf_net a" "wf_net b"
  shows "net_String a = net_String b \<longleftrightarrow> a = b"
  by (rule net_String_inject [OF assms])

theorem cidr_text_witness: "net_String demo_v4 \<noteq> net_String demo_v6"
  using cidr_text [OF demo_nets(1,2)] by (simp add: demo_v4_def demo_v6_def)

text \<open>The test \<open>a.Contains(b.IP.Mask(a.Mask)) || b.Contains(a.IP.Mask(b.Mask))\<close> the program uses in
  three places decides, for well-formed CIDRs of one family, whether the two share an address; for CIDRs
  of different families it is false.\<close>

theorem intersection_test:
  assumes "wf_net a" "wf_net b"
  shows "nets_intersect a b \<longleftrightarrow> length (net_IP a) = length (net_IP b) \<and> addresses a \<inter> addresses b \<noteq> {}"
  using nets_intersect_iff [OF assms] nets_intersect_family [OF assms] by blast

theorem intersection_test_witness: "nets_intersect demo_v4 demo_v4 \<and> addresses demo_v4 \<inter> addresses demo_v4 \<noteq> {}"
  using intersection_test [OF demo_nets(1) demo_nets(1)] demo_intersects(1) by simp

end
