(* ===== verification/GoHeap.thy ===== *)
theory GoHeap
  imports Prelude
begin

text \<open>Go's \<open>container/heap\<close> over a slice. \<open>lessf\<close> is the client's comparison of two items (\<open>None\<close> when it
  panics), \<open>place\<close> what the client's \<open>Swap\<close> and \<open>Push\<close> do to an item put at a position, \<open>out\<close> what its
  \<open>Pop\<close> does to the item taken out. The locale states what a client's comparison has to fulfil and
  proves that pushing items and popping until the queue is empty sorts them.\<close>

definition heap_swap :: "(nat \<Rightarrow> 'a \<Rightarrow> 'a) \<Rightarrow> 'a list \<Rightarrow> nat \<Rightarrow> nat \<Rightarrow> 'a list" where
  "heap_swap place xs i j = xs[i := place i (xs ! j), j := place j (xs ! i)]"

lemma length_heap_swap [simp]: "length (heap_swap place xs i j) = length xs"
  by (simp add: heap_swap_def)

function heap_up :: "('a \<Rightarrow> 'a \<Rightarrow> bool option) \<Rightarrow> (nat \<Rightarrow> 'a \<Rightarrow> 'a) \<Rightarrow> 'a list \<Rightarrow> nat \<Rightarrow> 'a list option" where
  "heap_up lessf place xs j =
     (let i = (j - 1) div 2
      in if i = j then Some xs
         else (case lessf (xs ! j) (xs ! i) of
                 None \<Rightarrow> None
               | Some False \<Rightarrow> Some xs
               | Some True \<Rightarrow> heap_up lessf place (heap_swap place xs i j) i))"
  by pat_completeness auto
termination by (relation "measure (\<lambda>(_, _, _, j). j)") auto

definition smaller_child :: "('a \<Rightarrow> 'a \<Rightarrow> bool option) \<Rightarrow> 'a list \<Rightarrow> nat \<Rightarrow> nat \<Rightarrow> nat option" where
  "smaller_child lessf xs j1 n =
     (if j1 + 1 < n then map_option (\<lambda>b. if b then j1 + 1 else j1) (lessf (xs ! (j1 + 1)) (xs ! j1)) else Some j1)"

lemma smaller_child_range: "smaller_child lessf xs (2 * i + 1) n = Some j \<Longrightarrow> j = 2 * i + 1 \<or> j = 2 * i + 2 \<and> j < n"
  by (auto simp: smaller_child_def split: if_splits)

function heap_down :: "('a \<Rightarrow> 'a \<Rightarrow> bool option) \<Rightarrow> (nat \<Rightarrow> 'a \<Rightarrow> 'a) \<Rightarrow> 'a list \<Rightarrow> nat \<Rightarrow> nat \<Rightarrow> 'a list option" where
  "heap_down lessf place xs i n =
     (if 2 * i + 1 \<ge> n then Some xs
      else (case smaller_child lessf xs (2 * i + 1) n of
              None \<Rightarrow> None
            | Some j \<Rightarrow>
                (case lessf (xs ! j) (xs ! i) of
                   None \<Rightarrow> None
                 | Some False \<Rightarrow> Some xs
                 | Some True \<Rightarrow> heap_down lessf place (heap_swap place xs i j) j n)))"
  by pat_completeness auto
termination
  by (relation "measure (\<lambda>(_, _, _, i, n). n - i)") (auto dest!: smaller_child_range [simplified])

declare heap_up.simps [simp del] heap_down.simps [simp del]

definition heap_Push :: "('a \<Rightarrow> 'a \<Rightarrow> bool option) \<Rightarrow> (nat \<Rightarrow> 'a \<Rightarrow> 'a) \<Rightarrow> 'a list \<Rightarrow> 'a \<Rightarrow> 'a list option" where
  "heap_Push lessf place xs x = heap_up lessf place (xs @ [place (length xs) x]) (length xs)"

definition heap_Pop :: "('a \<Rightarrow> 'a \<Rightarrow> bool option) \<Rightarrow> (nat \<Rightarrow> 'a \<Rightarrow> 'a) \<Rightarrow> ('a \<Rightarrow> 'a) \<Rightarrow> 'a list \<Rightarrow> ('a \<times> 'a list) option" where
  "heap_Pop lessf place out xs =
     (if xs = [] then None
      else let n = length xs - 1
           in map_option (\<lambda>ys. (out (ys ! n), take n ys)) (heap_down lessf place (heap_swap place xs 0 n) 0 n))"

fun push_all :: "('a \<Rightarrow> 'a \<Rightarrow> bool option) \<Rightarrow> (nat \<Rightarrow> 'a \<Rightarrow> 'a) \<Rightarrow> 'a list \<Rightarrow> 'a list \<Rightarrow> 'a list option" where
  "push_all lessf place xs [] = Some xs"
| "push_all lessf place xs (y # ys) =
     (case heap_Push lessf place xs y of None \<Rightarrow> None | Some xs' \<Rightarrow> push_all lessf place xs' ys)"

fun pop_all :: "('a \<Rightarrow> 'a \<Rightarrow> bool option) \<Rightarrow> (nat \<Rightarrow> 'a \<Rightarrow> 'a) \<Rightarrow> ('a \<Rightarrow> 'a) \<Rightarrow> nat \<Rightarrow> 'a list \<Rightarrow> 'a list option" where
  "pop_all lessf place out 0 xs = Some []"
| "pop_all lessf place out (Suc n) xs =
     (case heap_Pop lessf place out xs of
        None \<Rightarrow> None
      | Some (x, xs') \<Rightarrow> map_option (\<lambda>ys. x # ys) (pop_all lessf place out n xs'))"

abbreviation parent :: "nat \<Rightarrow> nat" where
  "parent k \<equiv> (k - 1) div 2"

definition heap_ordered :: "(nat \<Rightarrow> 'k::linorder) \<Rightarrow> nat \<Rightarrow> bool" where
  "heap_ordered h n \<longleftrightarrow> (\<forall>k. 0 < k \<and> k < n \<longrightarrow> h (parent k) \<le> h k)"

definition ordered_above :: "(nat \<Rightarrow> 'k::linorder) \<Rightarrow> nat \<Rightarrow> nat \<Rightarrow> bool" where
  "ordered_above h n j \<longleftrightarrow>
     (\<forall>k. 0 < k \<and> k < n \<and> k \<noteq> j \<longrightarrow> h (parent k) \<le> h k) \<and>
     (\<forall>k. 0 < k \<and> k < n \<and> parent k = j \<and> 0 < j \<longrightarrow> h (parent j) \<le> h k)"

definition ordered_below :: "(nat \<Rightarrow> 'k::linorder) \<Rightarrow> nat \<Rightarrow> nat \<Rightarrow> bool" where
  "ordered_below h n i \<longleftrightarrow>
     (\<forall>k. 0 < k \<and> k < n \<and> parent k \<noteq> i \<longrightarrow> h (parent k) \<le> h k) \<and>
     (\<forall>k. 0 < k \<and> k < n \<and> parent k = i \<and> 0 < i \<longrightarrow> h (parent i) \<le> h k)"

definition exchange :: "(nat \<Rightarrow> 'k) \<Rightarrow> nat \<Rightarrow> nat \<Rightarrow> nat \<Rightarrow> 'k" where
  "exchange h i j = h(i := h j, j := h i)"

lemma parent_less: "0 < k \<Longrightarrow> parent k < k"
  by auto

lemma parent_child: "0 < k \<Longrightarrow> parent k = i \<longleftrightarrow> k = 2 * i + 1 \<or> k = 2 * i + 2"
  by auto

lemma heap_root_least: "heap_ordered h n \<Longrightarrow> k < n \<Longrightarrow> h 0 \<le> h k"
proof (induction k rule: less_induct)
  case (less k)
  show ?case
  proof (cases "k = 0")
    case False
    then have "h 0 \<le> h (parent k)" using less parent_less [of k] by simp
    also have "h (parent k) \<le> h k" using less.prems False by (simp add: heap_ordered_def)
    finally show ?thesis .
  qed simp
qed

lemma sift_up_step:
  assumes ab: "ordered_above h n j" and j: "0 < j" "j < n" and lt: "h j < h (parent j)"
  shows "ordered_above (exchange h (parent j) j) n (parent j)"
proof -
  let ?i = "parent j" and ?h = "exchange h (parent j) j"
  have ij: "?i < j" using parent_less [OF j(1)] .
  have o: "h (parent k) \<le> h k" if "0 < k" "k < n" "k \<noteq> j" for k using ab that by (simp add: ordered_above_def)
  have c: "h ?i \<le> h k" if "0 < k" "k < n" "parent k = j" for k using ab that j by (simp add: ordered_above_def)
  have 1: "?h (parent k) \<le> ?h k" if k: "0 < k" "k < n" "k \<noteq> ?i" for k
  proof (cases "k = j")
    case True
    then show ?thesis using lt ij by (simp add: exchange_def)
  next
    case kj: False
    then have hk: "?h k = h k" using k(3) by (simp add: exchange_def)
    consider "parent k = ?i" | "parent k = j" | "parent k \<noteq> ?i" "parent k \<noteq> j" by blast
    then show ?thesis
    proof cases
      case 1
      then have "h ?i \<le> h k" using o [OF k(1,2) kj] by simp
      then show ?thesis using 1 hk lt ij by (simp add: exchange_def)
    next
      case 2
      then show ?thesis using c [OF k(1,2)] hk by (simp add: exchange_def)
    next
      case 3
      then show ?thesis using o [OF k(1,2) kj] hk by (simp add: exchange_def)
    qed
  qed
  have 2: "?h (parent ?i) \<le> ?h k" if k: "0 < k" "k < n" "parent k = ?i" "0 < ?i" for k
  proof -
    have p: "parent ?i < ?i" using parent_less [OF k(4)] .
    then have hp: "?h (parent ?i) = h (parent ?i)" using ij by (simp add: exchange_def)
    have hi: "h (parent ?i) \<le> h ?i" using o [of ?i] k(4) ij j(2) by simp
    show ?thesis
    proof (cases "k = j")
      case True
      then show ?thesis using hp hi by (simp add: exchange_def)
    next
      case False
      then have "h ?i \<le> h k" using o [OF k(1,2)] k(3) by simp
      moreover have "k \<noteq> ?i" using k(1,3) parent_less [of k] by simp
      ultimately show ?thesis using False hp hi by (simp add: exchange_def)
    qed
  qed
  show ?thesis unfolding ordered_above_def using 1 2 by blast
qed

lemma sift_down_step:
  assumes b: "ordered_below h n i" and j: "parent j = i" "0 < j" "j < n" and lt: "h j < h i"
    and least: "\<And>k. 0 < k \<Longrightarrow> k < n \<Longrightarrow> parent k = i \<Longrightarrow> h j \<le> h k"
  shows "ordered_below (exchange h i j) n j"
proof -
  let ?h = "exchange h i j"
  have ij: "i < j" using parent_less [OF j(2)] j(1) by simp
  have o: "h (parent k) \<le> h k" if "0 < k" "k < n" "parent k \<noteq> i" for k using b that by (simp add: ordered_below_def)
  have c: "h (parent i) \<le> h k" if "0 < k" "k < n" "parent k = i" "0 < i" for k using b that by (simp add: ordered_below_def)
  have 1: "?h (parent k) \<le> ?h k" if k: "0 < k" "k < n" "parent k \<noteq> j" for k
  proof (cases "parent k = i")
    case True
    then show ?thesis using least [OF k(1,2)] lt ij parent_less [OF k(1)] by (auto simp: exchange_def)
  next
    case False
    then have hp: "?h (parent k) = h (parent k)" using k(3) by (simp add: exchange_def)
    show ?thesis
    proof (cases "k = i")
      case True
      then show ?thesis using c [OF j(2,3,1)] k(1) hp ij by (simp add: exchange_def)
    next
      case ki: False
      then have "?h k = h k" using False j(1) by (auto simp: exchange_def)
      then show ?thesis using o [OF k(1,2) False] hp by simp
    qed
  qed
  have 2: "?h (parent j) \<le> ?h k" if k: "0 < k" "k < n" "parent k = j" for k
  proof -
    have "parent k \<noteq> i" using k(3) ij by simp
    then have "h j \<le> h k" using o [OF k(1,2)] k(3) by simp
    moreover have "k \<noteq> j" "k \<noteq> i" using k parent_less [OF k(1)] ij by auto
    ultimately show ?thesis using j(1) ij by (simp add: exchange_def)
  qed
  show ?thesis unfolding ordered_below_def using 1 2 by blast
qed

locale heap_client =
  fixes lessf :: "'a \<Rightarrow> 'a \<Rightarrow> bool option"
    and place :: "nat \<Rightarrow> 'a \<Rightarrow> 'a"
    and out :: "'a \<Rightarrow> 'a"
    and content :: "'a \<Rightarrow> 'b"
    and ok :: "'b \<Rightarrow> bool"
    and key :: "'b \<Rightarrow> 'k::linorder"
  assumes content_place [simp]: "content (place n x) = content x"
    and content_out [simp]: "content (out x) = content x"
    and lessf_ok: "ok (content x) \<Longrightarrow> ok (content y) \<Longrightarrow> lessf x y = Some (key (content x) < key (content y))"
begin

definition keys_of :: "'a list \<Rightarrow> nat \<Rightarrow> 'k" where
  "keys_of xs i = key (content (xs ! i))"

definition all_ok :: "'a list \<Rightarrow> bool" where
  "all_ok xs \<longleftrightarrow> (\<forall>x \<in> set xs. ok (content x))"

definition heap_list :: "'a list \<Rightarrow> bool" where
  "heap_list xs \<longleftrightarrow> all_ok xs \<and> heap_ordered (keys_of xs) (length xs)"

lemma lessf_nth: "all_ok xs \<Longrightarrow> i < length xs \<Longrightarrow> j < length xs \<Longrightarrow> lessf (xs ! i) (xs ! j) = Some (keys_of xs i < keys_of xs j)"
  by (simp add: all_ok_def keys_of_def lessf_ok)

lemma mset_heap_swap:
  assumes "i < length xs" "j < length xs"
  shows "mset (map content (heap_swap place xs i j)) = mset (map content xs)"
proof -
  have "map content (heap_swap place xs i j) = (map content xs)[i := map content xs ! j, j := map content xs ! i]"
    using assms by (simp add: heap_swap_def map_update)
  then show ?thesis using assms mset_swap [of j "map content xs" i] by simp
qed

lemma all_ok_mset: "mset (map content xs) = mset (map content ys) \<Longrightarrow> all_ok xs = all_ok ys"
proof -
  assume "mset (map content xs) = mset (map content ys)"
  then have "content ` set xs = content ` set ys" by (metis list.set_map mset_eq_setD)
  then show ?thesis unfolding all_ok_def by (metis (no_types, lifting) imageE imageI)
qed

lemma keys_heap_swap:
  "i < length xs \<Longrightarrow> j < length xs \<Longrightarrow> i \<noteq> j \<Longrightarrow> keys_of (heap_swap place xs i j) = exchange (keys_of xs) i j"
  by (auto simp: fun_eq_iff keys_of_def exchange_def heap_swap_def nth_list_update)

lemma heap_up_spec:
  assumes "all_ok xs" "j < length xs" "ordered_above (keys_of xs) (length xs) j"
  shows "\<exists>ys. heap_up lessf place xs j = Some ys \<and> heap_list ys \<and> mset (map content ys) = mset (map content xs)"
  using assms
proof (induction j arbitrary: xs rule: less_induct)
  case (less j)
  let ?i = "parent j" and ?n = "length xs"
  note eq = heap_up.simps [of lessf place xs j, unfolded Let_def]
  show ?case
  proof (cases "j = 0")
    case True
    then have "heap_list xs" using less.prems by (auto simp: heap_list_def heap_ordered_def ordered_above_def)
    then show ?thesis unfolding eq using True by auto
  next
    case False
    then have ij: "?i < j" using parent_less by simp
    have l: "lessf (xs ! j) (xs ! ?i) = Some (keys_of xs j < keys_of xs ?i)"
      using lessf_nth [OF less.prems(1)] less.prems(2) ij by simp
    show ?thesis
    proof (cases "keys_of xs j < keys_of xs ?i")
      case True
      let ?ys = "heap_swap place xs ?i j"
      have m: "mset (map content ?ys) = mset (map content xs)" using mset_heap_swap ij less.prems(2) by simp
      have "ordered_above (keys_of ?ys) (length ?ys) ?i"
        using sift_up_step [OF less.prems(3)] False less.prems(2) True keys_heap_swap [of ?i xs j] ij by simp
      with less.IH [OF ij, of ?ys] all_ok_mset [OF m] less.prems ij obtain zs where
        "heap_up lessf place ?ys ?i = Some zs" "heap_list zs" "mset (map content zs) = mset (map content ?ys)" by auto
      then show ?thesis using m l True ij by (simp add: eq)
    next
      case nl: False
      have "keys_of xs (parent k) \<le> keys_of xs k" if "0 < k" "k < ?n" for k
        using less.prems(3) that nl by (cases "k = j") (simp_all add: ordered_above_def)
      then show ?thesis using l nl less.prems(1) ij by (simp add: eq heap_list_def heap_ordered_def)
    qed
  qed
qed

lemma heap_Push_spec:
  assumes "heap_list xs" "ok (content x)"
  shows "\<exists>ys. heap_Push lessf place xs x = Some ys \<and> heap_list ys \<and>
    mset (map content ys) = add_mset (content x) (mset (map content xs))"
proof -
  let ?xs = "xs @ [place (length xs) x]"
  have k: "keys_of ?xs i = keys_of xs i" if "i < length xs" for i using that by (simp add: keys_of_def nth_append)
  have "ordered_above (keys_of ?xs) (length ?xs) (length xs)"
  proof -
    have "keys_of ?xs (parent j) \<le> keys_of ?xs j" if "0 < j" "j < length xs" for j
      using assms(1) that parent_less [OF that(1)] by (simp add: k heap_list_def heap_ordered_def)
    moreover have "parent j \<noteq> length xs" if "0 < j" "j < Suc (length xs)" for j
      using parent_less [OF that(1)] that(2) by linarith
    ultimately show ?thesis unfolding ordered_above_def by (simp add: less_Suc_eq) blast
  qed
  moreover have "all_ok ?xs" using assms by (auto simp: heap_list_def all_ok_def)
  ultimately show ?thesis using heap_up_spec [of ?xs "length xs"] by (simp add: heap_Push_def)
qed

lemma smaller_child_spec:
  assumes "all_ok xs" "n \<le> length xs" "2 * i + 1 < n"
  shows "\<exists>j. smaller_child lessf xs (2 * i + 1) n = Some j \<and> parent j = i \<and> 0 < j \<and> j < n \<and>
    (\<forall>k. 0 < k \<and> k < n \<and> parent k = i \<longrightarrow> keys_of xs j \<le> keys_of xs k)"
proof -
  have l: "2 * i + 2 < n \<Longrightarrow> lessf (xs ! (2 * i + 2)) (xs ! (2 * i + 1)) = Some (keys_of xs (2 * i + 2) < keys_of xs (2 * i + 1))"
    using lessf_nth [OF assms(1)] assms(2) by simp
  define j where "j = (if 2 * i + 2 < n \<and> keys_of xs (2 * i + 2) < keys_of xs (2 * i + 1) then 2 * i + 2 else 2 * i + 1)"
  have "smaller_child lessf xs (2 * i + 1) n = Some j" using l by (simp add: smaller_child_def j_def)
  moreover have "keys_of xs j \<le> keys_of xs k" if "0 < k" "k < n" "parent k = i" for k
    using that(2) parent_child [OF that(1), of i] that(3) by (auto simp: j_def)
  ultimately show ?thesis using assms(3) by (auto simp: j_def)
qed

lemma heap_down_spec:
  assumes "all_ok xs" "n \<le> length xs" "i < n \<or> n = 0" "ordered_below (keys_of xs) n i"
  shows "\<exists>ys. heap_down lessf place xs i n = Some ys \<and> heap_ordered (keys_of ys) n \<and> length ys = length xs \<and>
    mset (map content ys) = mset (map content xs) \<and> (\<forall>k. n \<le> k \<longrightarrow> ys ! k = xs ! k)"
  using assms
proof (induction "n - i" arbitrary: xs i rule: less_induct)
  case less
  note eq = heap_down.simps [of lessf place xs i n]
  have stop: "heap_ordered (keys_of xs) n" if "\<And>k. 0 < k \<Longrightarrow> k < n \<Longrightarrow> parent k = i \<Longrightarrow> keys_of xs i \<le> keys_of xs k"
    unfolding heap_ordered_def
  proof (intro allI impI)
    fix k assume k: "0 < k \<and> k < n"
    show "keys_of xs (parent k) \<le> keys_of xs k"
      using less.prems(4) k that by (cases "parent k = i") (simp_all add: ordered_below_def)
  qed
  show ?case
  proof (cases "2 * i + 1 < n")
    case False
    then have "heap_ordered (keys_of xs) n" using stop parent_child by force
    then show ?thesis unfolding eq using False by auto
  next
    case True
    from smaller_child_spec [OF less.prems(1,2) True] obtain j where
      sc: "smaller_child lessf xs (2 * i + 1) n = Some j" and j: "parent j = i" "0 < j" "j < n"
      and least: "\<And>k. 0 < k \<Longrightarrow> k < n \<Longrightarrow> parent k = i \<Longrightarrow> keys_of xs j \<le> keys_of xs k" by blast
    have ij: "i < j" using parent_less [OF j(2)] j(1) by simp
    have l: "lessf (xs ! j) (xs ! i) = Some (keys_of xs j < keys_of xs i)"
      using lessf_nth [OF less.prems(1)] less.prems(2) j(3) ij by simp
    show ?thesis
    proof (cases "keys_of xs j < keys_of xs i")
      case lt: True
      let ?ys = "heap_swap place xs i j"
      have len: "i < length xs" "j < length xs" using less.prems(2) j(3) ij by simp_all
      have m: "mset (map content ?ys) = mset (map content xs)" using mset_heap_swap [OF len] .
      have b: "ordered_below (keys_of ?ys) n j"
        using sift_down_step [OF less.prems(4) j lt least] keys_heap_swap [OF len] ij by simp
      have "n - j < n - i" using ij j(3) by simp
      from less.hyps [OF this _ _ _ b] less.prems(2) all_ok_mset [OF m] less.prems(1) j(3) obtain zs where
        z: "heap_down lessf place ?ys j n = Some zs" "heap_ordered (keys_of zs) n" "length zs = length ?ys"
          "mset (map content zs) = mset (map content ?ys)" "\<forall>k. n \<le> k \<longrightarrow> zs ! k = ?ys ! k" by auto
      moreover have "?ys ! k = xs ! k" if "n \<le> k" for k using that j(3) ij by (simp add: heap_swap_def)
      ultimately show ?thesis unfolding eq using m l lt sc True by simp
    next
      case nl: False
      then have "heap_ordered (keys_of xs) n" using stop least by force
      then show ?thesis unfolding eq using l nl sc True by auto
    qed
  qed
qed

lemma heap_Pop_spec:
  assumes "heap_list xs" "xs \<noteq> []"
  shows "\<exists>x ys. heap_Pop lessf place out xs = Some (x, ys) \<and> heap_list ys \<and> Suc (length ys) = length xs \<and>
    mset (map content xs) = add_mset (content x) (mset (map content ys)) \<and> (\<forall>y \<in> set xs. key (content x) \<le> key (content y))"
proof -
  let ?n = "length xs - 1" and ?sw = "heap_swap place xs 0 (length xs - 1)"
  have len: "0 < length xs" "?n < length xs" using assms(2) by simp_all
  have m: "mset (map content ?sw) = mset (map content xs)" by (rule mset_heap_swap [OF len])
  have ok: "all_ok ?sw" using all_ok_mset [OF m] assms(1) by (simp add: heap_list_def)
  have below: "ordered_below (keys_of ?sw) ?n 0"
    unfolding ordered_below_def
  proof (intro conjI allI impI)
    fix k assume k: "0 < k \<and> k < ?n \<and> parent k \<noteq> 0"
    have "keys_of ?sw j = keys_of xs j" if "0 < j" "j < ?n" for j using that by (simp add: keys_of_def heap_swap_def)
    moreover have "keys_of xs (parent k) \<le> keys_of xs k" using assms(1) k by (auto simp: heap_list_def heap_ordered_def)
    ultimately show "keys_of ?sw (parent k) \<le> keys_of ?sw k" using k parent_less [of k] by simp
  qed simp
  have "0 < ?n \<or> ?n = 0" "?n \<le> length ?sw" by auto
  from heap_down_spec [OF ok this(2,1) below] obtain ys where
    y: "heap_down lessf place ?sw 0 ?n = Some ys" "heap_ordered (keys_of ys) ?n" "length ys = length ?sw"
      "mset (map content ys) = mset (map content ?sw)" "\<forall>k. ?n \<le> k \<longrightarrow> ys ! k = ?sw ! k" by blast
  have root: "content (out (ys ! ?n)) = content (xs ! 0)" using y(5) len by (simp add: heap_swap_def)
  have "ys = take ?n ys @ [ys ! ?n]" using y(3) len take_Suc_conv_app_nth [of ?n ys] by simp
  then have "mset (map content ys) = mset (map content (take ?n ys @ [ys ! ?n]))" by simp
  then have ms: "mset (map content xs) = add_mset (content (out (ys ! ?n))) (mset (map content (take ?n ys)))"
    unfolding y(4) m by simp
  have "all_ok (take ?n ys)" using all_ok_mset [OF y(4)] ok in_set_takeD unfolding all_ok_def by fast
  moreover have "heap_ordered (keys_of (take ?n ys)) ?n"
    unfolding heap_ordered_def
  proof (intro allI impI)
    fix k assume k: "0 < k \<and> k < ?n"
    then have "parent k < ?n" using parent_less [of k] by linarith
    then show "keys_of (take ?n ys) (parent k) \<le> keys_of (take ?n ys) k"
      using y(2) k unfolding heap_ordered_def keys_of_def by simp
  qed
  ultimately have "heap_list (take ?n ys)" using y(3) by (simp add: heap_list_def)
  moreover have "key (content (xs ! 0)) \<le> key (content x)" if "x \<in> set xs" for x
    using heap_root_least [of "keys_of xs" "length xs"] assms(1) that by (auto simp: heap_list_def keys_of_def in_set_conv_nth)
  moreover have "heap_Pop lessf place out xs = Some (out (ys ! ?n), take ?n ys)"
    using y(1) assms(2) by (simp add: heap_Pop_def Let_def)
  moreover have "Suc (length (take ?n ys)) = length xs" using y(3) len by simp
  ultimately show ?thesis using ms unfolding root [symmetric] by blast
qed

lemma push_all_spec:
  assumes "heap_list xs" "all_ok ys"
  shows "\<exists>zs. push_all lessf place xs ys = Some zs \<and> heap_list zs \<and> mset (map content zs) = mset (map content (xs @ ys))"
  using assms
proof (induction ys arbitrary: xs)
  case Nil
  then show ?case by simp
next
  case (Cons y ys)
  then have "ok (content y)" "all_ok ys" by (auto simp: all_ok_def)
  with heap_Push_spec [OF Cons.prems(1)] obtain us where
    u: "heap_Push lessf place xs y = Some us" "heap_list us" "mset (map content us) = add_mset (content y) (mset (map content xs))"
    by blast
  with Cons.IH [OF u(2) \<open>all_ok ys\<close>] show ?case by auto
qed

lemma pop_all_spec:
  assumes "heap_list xs"
  shows "\<exists>ys. pop_all lessf place out (length xs) xs = Some ys \<and> sorted (map (\<lambda>y. key (content y)) ys) \<and>
    mset (map content ys) = mset (map content xs)"
  using assms
proof (induction "length xs" arbitrary: xs)
  case 0
  then show ?case by simp
next
  case (Suc n)
  then have "xs \<noteq> []" by auto
  from heap_Pop_spec [OF Suc.prems this] obtain x us where
    x: "heap_Pop lessf place out xs = Some (x, us)" "heap_list us" "Suc (length us) = length xs"
      "mset (map content xs) = add_mset (content x) (mset (map content us))"
      "\<And>y. y \<in> set xs \<Longrightarrow> key (content x) \<le> key (content y)" by blast
  from Suc.hyps(1) [OF _ x(2)] x(3) Suc.hyps(2) obtain ys where
    y: "pop_all lessf place out (length us) us = Some ys" "sorted (map (\<lambda>y. key (content y)) ys)"
      "mset (map content ys) = mset (map content us)" by auto
  have "key (content x) \<le> key (content y)" if "y \<in> set ys" for y
  proof -
    have "content y \<in># mset (map content xs)" using that x(4) y(3) [symmetric] by simp
    then obtain z where "z \<in> set xs" "content z = content y" by auto
    then show ?thesis using x(5) by metis
  qed
  then have "sorted (map (\<lambda>y. key (content y)) (x # ys))" using y(2) by simp
  moreover have "pop_all lessf place out (length xs) xs = Some (x # ys)"
    using x(1) y(1) by (simp flip: x(3))
  ultimately show ?case using x(4) y(3) by (intro exI [of _ "x # ys"]) simp
qed

theorem heap_sorts:
  assumes "all_ok ys"
  shows "\<exists>xs zs. push_all lessf place [] ys = Some xs \<and> length xs = length ys \<and>
    pop_all lessf place out (length xs) xs = Some zs \<and>
    sorted (map (\<lambda>z. key (content z)) zs) \<and> mset (map content zs) = mset (map content ys)"
proof -
  have "heap_list []" by (simp add: heap_list_def all_ok_def heap_ordered_def)
  from push_all_spec [OF this assms] obtain xs where
    x: "push_all lessf place [] ys = Some xs" "heap_list xs" "mset (map content xs) = mset (map content ys)" by auto
  have "length xs = length ys" using x(3) by (metis length_map size_mset)
  with x pop_all_spec [OF x(2)] show ?thesis by auto
qed

end

end
