(* ===== verification/PriorityQueue.thy ===== *)
theory PriorityQueue
  imports CIDRSetProps GoHeap "HOL-Library.Product_Lexorder"
begin

text \<open>The internal \<open>cidrset.ClusterCIDR\<close> objects, which the program holds by pointer and mutates in place:
  a store of objects whose addresses are positions; and \<open>multi_cidr_priority_queue.go\<close>, the queue of
  items pointing to them, as a client of \<open>container/heap\<close>.\<close>

record ClusterCIDR =
  cc_Name :: string
  IPv4CIDRSet :: "MultiCIDRSet option"
  IPv6CIDRSet :: "MultiCIDRSet option"
  AssociatedNodes :: "(string \<times> bool) list"
  Terminating :: bool

type_synonym store = "ClusterCIDR list"

record PriorityQueueItem =
  pqi_clusterCIDR :: nat
  labelMatchCount :: int
  selectorString :: string
  pqi_index :: int

definition MaxInt :: int where
  "MaxInt = 2 ^ 63 - 1"

definition maxAllocatable :: "ClusterCIDR \<Rightarrow> int" where
  "maxAllocatable c =
     (let ipv4Allocatable = (case IPv4CIDRSet c of Some s \<Rightarrow> MaxCIDRs s | None \<Rightarrow> MaxInt);
          ipv6Allocatable = (case IPv6CIDRSet c of Some s \<Rightarrow> MaxCIDRs s | None \<Rightarrow> MaxInt)
      in if ipv4Allocatable < ipv6Allocatable then ipv4Allocatable else ipv6Allocatable)"

definition nodeMaskSize :: "ClusterCIDR \<Rightarrow> int option" where
  "nodeMaskSize c =
     (case IPv4CIDRSet c of
        Some s \<Rightarrow> Some (NodeMaskSize s)
      | None \<Rightarrow> map_option NodeMaskSize (IPv6CIDRSet c))"

definition cidrLabel :: "ClusterCIDR \<Rightarrow> string option" where
  "cidrLabel c =
     (case IPv4CIDRSet c of
        Some s \<Rightarrow> Some (set_Label s)
      | None \<Rightarrow> map_option set_Label (IPv6CIDRSet c))"

definition pq_Less :: "store \<Rightarrow> PriorityQueueItem \<Rightarrow> PriorityQueueItem \<Rightarrow> bool option" where
  "pq_Less st x y =
     (let a = st ! pqi_clusterCIDR x; b = st ! pqi_clusterCIDR y
      in if labelMatchCount x \<noteq> labelMatchCount y then Some (labelMatchCount x > labelMatchCount y)
         else if maxAllocatable a \<noteq> maxAllocatable b then Some (maxAllocatable a < maxAllocatable b)
         else case (nodeMaskSize a, nodeMaskSize b) of
                (Some m, Some n) \<Rightarrow>
                  if m \<noteq> n then Some (m > n)
                  else if selectorString x \<noteq> selectorString y then Some (selectorString x < selectorString y)
                  else (case (cidrLabel a, cidrLabel b) of
                          (Some l, Some r) \<Rightarrow> Some (l < r)
                        | _ \<Rightarrow> None)
              | _ \<Rightarrow> None)"

definition pq_place :: "nat \<Rightarrow> PriorityQueueItem \<Rightarrow> PriorityQueueItem" where
  "pq_place n x = x\<lparr>pqi_index := int n\<rparr>"

definition pq_out :: "PriorityQueueItem \<Rightarrow> PriorityQueueItem" where
  "pq_out x = x\<lparr>pqi_index := -1\<rparr>"

definition pq_Push :: "store \<Rightarrow> PriorityQueueItem list \<Rightarrow> PriorityQueueItem \<Rightarrow> PriorityQueueItem list option" where
  "pq_Push st = heap_Push (pq_Less st) pq_place"

definition pq_Pop :: "store \<Rightarrow> PriorityQueueItem list \<Rightarrow> (PriorityQueueItem \<times> PriorityQueueItem list) option" where
  "pq_Pop st = heap_Pop (pq_Less st) pq_place pq_out"

fun pq_push_all :: "store \<Rightarrow> PriorityQueueItem list \<Rightarrow> PriorityQueueItem list \<Rightarrow> PriorityQueueItem list option" where
  "pq_push_all st pq [] = Some pq"
| "pq_push_all st pq (x # xs) = (case pq_Push st pq x of None \<Rightarrow> None | Some pq' \<Rightarrow> pq_push_all st pq' xs)"

fun pq_drain :: "store \<Rightarrow> nat \<Rightarrow> PriorityQueueItem list \<Rightarrow> nat list option" where
  "pq_drain st 0 pq = Some []"
| "pq_drain st (Suc n) pq =
     (case pq_Pop st pq of
        None \<Rightarrow> None
      | Some (x, pq') \<Rightarrow> map_option (\<lambda>as. pqi_clusterCIDR x # as) (pq_drain st n pq'))"

lemma pq_push_all_eq: "pq_push_all st pq xs = push_all (pq_Less st) pq_place pq xs"
  by (induction xs arbitrary: pq) (simp_all add: pq_Push_def split: option.split)

lemma pq_drain_eq: "pq_drain st n pq = map_option (map pqi_clusterCIDR) (pop_all (pq_Less st) pq_place pq_out n pq)"
  by (induction n arbitrary: pq) (simp_all add: pq_Pop_def option.map_comp comp_def split: option.split)

text \<open>The order the queue implements: more matching labels, fewer allocatable CIDRs, longer node mask,
  smaller selector text, smaller CIDR text.\<close>

definition has_set :: "ClusterCIDR \<Rightarrow> bool" where
  "has_set c \<longleftrightarrow> IPv4CIDRSet c \<noteq> None \<or> IPv6CIDRSet c \<noteq> None"

type_synonym priority = "int \<times> int \<times> int \<times> string \<times> string"

definition priority_of :: "store \<Rightarrow> nat \<times> int \<times> string \<Rightarrow> priority" where
  "priority_of st = (\<lambda>(a, cnt, sel).
     (- cnt, maxAllocatable (st ! a), - the (nodeMaskSize (st ! a)), sel, the (cidrLabel (st ! a))))"

definition item_content :: "PriorityQueueItem \<Rightarrow> nat \<times> int \<times> string" where
  "item_content x = (pqi_clusterCIDR x, labelMatchCount x, selectorString x)"

lemma has_setD:
  assumes "has_set c"
  obtains m l where "nodeMaskSize c = Some m" "cidrLabel c = Some l"
  using assms by (cases "IPv4CIDRSet c") (auto simp: has_set_def nodeMaskSize_def cidrLabel_def)

interpretation pq: heap_client "pq_Less st" pq_place pq_out item_content "\<lambda>(a, _, _). has_set (st ! a)" "priority_of st"
  for st
proof (unfold_locales, goal_cases)
  case (1 n x)
  then show ?case by (simp add: item_content_def pq_place_def)
next
  case (2 x)
  then show ?case by (simp add: item_content_def pq_out_def)
next
  case (3 x y)
  then have hs: "has_set (st ! pqi_clusterCIDR x)" "has_set (st ! pqi_clusterCIDR y)"
    by (simp_all add: item_content_def)
  obtain m l where a: "nodeMaskSize (st ! pqi_clusterCIDR x) = Some m" "cidrLabel (st ! pqi_clusterCIDR x) = Some l"
    using has_setD [OF hs(1)] .
  obtain n r where b: "nodeMaskSize (st ! pqi_clusterCIDR y) = Some n" "cidrLabel (st ! pqi_clusterCIDR y) = Some r"
    using has_setD [OF hs(2)] .
  show ?case using a b
    by (auto simp: pq_Less_def Let_def priority_of_def item_content_def less_prod_def')
qed

lemma pq_order:
  assumes "\<And>x. x \<in> set items \<Longrightarrow> has_set (st ! pqi_clusterCIDR x)"
  shows "\<exists>pq ids sorted_items. pq_push_all st [] items = Some pq \<and> pq_drain st (length pq) pq = Some ids \<and>
    ids = map fst sorted_items \<and> mset sorted_items = mset (map item_content items) \<and> sorted (map (priority_of st) sorted_items)"
proof -
  have "pq.all_ok st items" using assms by (simp add: pq.all_ok_def item_content_def)
  from pq.heap_sorts [OF this] obtain pq zs where
    z: "push_all (pq_Less st) pq_place [] items = Some pq" "pop_all (pq_Less st) pq_place pq_out (length pq) pq = Some zs"
      "sorted (map (\<lambda>z. priority_of st (item_content z)) zs)" "mset (map item_content zs) = mset (map item_content items)"
    by auto
  show ?thesis
    using z by (intro exI [of _ pq] exI [of _ "map pqi_clusterCIDR zs"] exI [of _ "map item_content zs"])
      (simp add: pq_push_all_eq pq_drain_eq item_content_def comp_def)
qed

end
