(* ===== verification/ApiTypes.thy ===== *)
theory ApiTypes
  imports MultiCIDRSet
begin

text \<open>The API objects the controller reads and writes: the \<open>ClusterCIDR\<close> resource of
  \<open>pkg/apis/clustercidr/v1/types.go\<close> and the fields of the Kubernetes types it uses. A timestamp is
  \<open>None\<close> for a nil pointer and \<open>Some 0\<close> for the zero time.\<close>

record NodeSelectorRequirement =
  nsr_Key :: string
  nsr_Operator :: string
  nsr_Values :: "string list"

record NodeSelectorTerm =
  MatchExpressions :: "NodeSelectorRequirement list"
  MatchFields :: "NodeSelectorRequirement list"

type_synonym NodeSelector = "NodeSelectorTerm list"

record ClusterCIDRSpec =
  spec_NodeSelector :: "NodeSelector option"
  PerNodeHostBits :: int
  spec_IPv4 :: string
  spec_IPv6 :: string

record ClusterCIDRObject =
  obj_Name :: string
  obj_Generation :: int
  obj_ResourceVersion :: string
  obj_Finalizers :: "string list"
  obj_DeletionTimestamp :: "int option"
  obj_Spec :: ClusterCIDRSpec

record Node =
  node_Name :: string
  node_Labels :: "(string \<times> string) list"
  node_PodCIDRs :: "string list"
  node_DeletionTimestamp :: "int option"

definition IsZero :: "int option \<Rightarrow> bool" where
  "IsZero t \<longleftrightarrow> t = None \<or> t = Some 0"

definition clusterCIDRFinalizer :: string where
  "clusterCIDRFinalizer = ''networking.x-k8s.io/cluster-cidr-finalizer''"

definition defaultClusterCIDRKey :: string where
  "defaultClusterCIDRKey = ''kubernetes.io/clusterCIDR''"

definition defaultClusterCIDRValue :: string where
  "defaultClusterCIDRValue = ''default''"

definition defaultClusterCIDRName :: string where
  "defaultClusterCIDRName = ''default-cluster-cidr''"

definition ipv4MaxCIDRMask :: int where "ipv4MaxCIDRMask = 32"
definition ipv6MaxCIDRMask :: int where "ipv6MaxCIDRMask = 128"
definition minPerNodeHostBits :: int where "minPerNodeHostBits = 4"
definition cidrUpdateRetries :: nat where "cidrUpdateRetries = 3"

definition needToAddFinalizer :: "ClusterCIDRObject \<Rightarrow> string \<Rightarrow> bool" where
  "needToAddFinalizer obj finalizer \<longleftrightarrow> obj_DeletionTimestamp obj = None \<and> finalizer \<notin> set (obj_Finalizers obj)"

end
