(* ===== verification/Selector.thy ===== *)
theory Selector
  imports ApiTypes
begin

text \<open>Node selectors and labels. The package \<open>k8s.io/apimachinery/pkg/labels\<close> is a parameter: a record of the
  functions the program calls on it, over its own types of selectors and requirements.\<close>

datatype selection_Operator = Op_In | Op_NotIn | Op_Exists | Op_DoesNotExist | Op_GreaterThan | Op_LessThan

record ('sel, 'req) LabelsLib =
  labels_Parse :: "string \<Rightarrow> go_error + 'sel"
  labels_Requirements :: "'sel \<Rightarrow> 'req list \<times> bool"
  labels_Matches :: "'req \<Rightarrow> (string \<times> string) list \<Rightarrow> bool"
  labels_NewRequirement :: "string \<Rightarrow> selection_Operator \<Rightarrow> string list \<Rightarrow> go_error + 'req"
  labels_NewSelector :: 'sel
  labels_Add :: "'sel \<Rightarrow> 'req list \<Rightarrow> 'sel"
  labels_String :: "'sel \<Rightarrow> string"
  labels_Nothing :: 'sel
  labels_Everything :: 'sel

definition defaultNodeSelector :: NodeSelector where
  "defaultNodeSelector =
     [\<lparr> MatchExpressions = [\<lparr> nsr_Key = defaultClusterCIDRKey, nsr_Operator = ''In'', nsr_Values = [defaultClusterCIDRValue] \<rparr>],
        MatchFields = [] \<rparr>]"

definition nodeSelectorRequirementsAsLabelRequirements ::
    "('sel, 'req) LabelsLib \<Rightarrow> NodeSelectorRequirement \<Rightarrow> go_error + 'req" where
  "nodeSelectorRequirementsAsLabelRequirements lib nsr =
     (let new = (\<lambda>op. labels_NewRequirement lib (nsr_Key nsr) op (nsr_Values nsr))
      in if nsr_Operator nsr = ''In'' then new Op_In
         else if nsr_Operator nsr = ''NotIn'' then new Op_NotIn
         else if nsr_Operator nsr = ''Exists'' then new Op_Exists
         else if nsr_Operator nsr = ''DoesNotExist'' then new Op_DoesNotExist
         else if nsr_Operator nsr = ''Gt'' then new Op_GreaterThan
         else if nsr_Operator nsr = ''Lt'' then new Op_LessThan
         else Inl (Errorf ''is not a valid node selector operator''))"

fun convert_requirements ::
    "('sel, 'req) LabelsLib \<Rightarrow> NodeSelectorRequirement list \<Rightarrow> go_error + 'req list" where
  "convert_requirements lib [] = Inr []"
| "convert_requirements lib (r # rs) =
     (case nodeSelectorRequirementsAsLabelRequirements lib r of
        Inl e \<Rightarrow> Inl e
      | Inr q \<Rightarrow> (case convert_requirements lib rs of Inl e \<Rightarrow> Inl e | Inr qs \<Rightarrow> Inr (q # qs)))"

fun convert_terms :: "('sel, 'req) LabelsLib \<Rightarrow> NodeSelectorTerm list \<Rightarrow> go_error + 'req list" where
  "convert_terms lib [] = Inr []"
| "convert_terms lib (t # ts) =
     (case convert_requirements lib (MatchExpressions t) of
        Inl e \<Rightarrow> Inl e
      | Inr es \<Rightarrow>
          (case convert_requirements lib (MatchFields t) of
             Inl e \<Rightarrow> Inl e
           | Inr fs \<Rightarrow> (case convert_terms lib ts of Inl e \<Rightarrow> Inl e | Inr qs \<Rightarrow> Inr (es @ fs @ qs))))"

definition nodeSelectorAsSelector :: "('sel, 'req) LabelsLib \<Rightarrow> NodeSelector option \<Rightarrow> go_error + 'sel" where
  "nodeSelectorAsSelector lib ns =
     (case ns of
        None \<Rightarrow> Inr (labels_Nothing lib)
      | Some terms \<Rightarrow>
          if terms = [] then Inr (labels_Everything lib)
          else (case convert_terms lib terms of
                  Inl e \<Rightarrow> Inl e
                | Inr requirements \<Rightarrow> Inr (labels_Add lib (labels_NewSelector lib) requirements)))"

definition nodeSelectorKey :: "('sel, 'req) LabelsLib \<Rightarrow> ClusterCIDRObject \<Rightarrow> go_error + string" where
  "nodeSelectorKey lib clusterCIDR =
     (case (case spec_NodeSelector (obj_Spec clusterCIDR) of
              Some ns \<Rightarrow> nodeSelectorAsSelector lib (Some ns)
            | None \<Rightarrow> nodeSelectorAsSelector lib (Some defaultNodeSelector)) of
        Inl e \<Rightarrow> Inl e
      | Inr nodeSelector \<Rightarrow> Inr (labels_String lib nodeSelector))"

definition matchCIDRLabels :: "('sel, 'req) LabelsLib \<Rightarrow> Node \<Rightarrow> string \<Rightarrow> go_error + bool \<times> int" where
  "matchCIDRLabels lib node label =
     (case labels_Parse lib label of
        Inl e \<Rightarrow> Inl (Wrap ''unable to parse label to labels.Selector'' e)
      | Inr ls \<Rightarrow>
          (case labels_Requirements lib ls of (reqs, selectable) \<Rightarrow>
             if selectable then
               let matchCnt = int (length (filter (\<lambda>req. labels_Matches lib req (node_Labels node)) reqs))
               in Inr (matchCnt = int (length reqs), matchCnt)
             else Inr (False, 0)))"

lemma length_filter_all: "length (filter P xs) = length xs \<longleftrightarrow> (\<forall>x \<in> set xs. P x)"
  by (metis filter_True length_filter_less less_irrefl)

lemma matchCIDRLabels_iff:
  "matchCIDRLabels lib node label = Inr (True, n) \<longleftrightarrow>
     (\<exists>ls reqs. labels_Parse lib label = Inr ls \<and> labels_Requirements lib ls = (reqs, True) \<and>
        (\<forall>req \<in> set reqs. labels_Matches lib req (node_Labels node)) \<and> n = int (length reqs))"
  by (auto simp: matchCIDRLabels_def Let_def length_filter_all split: sum.splits prod.splits if_splits)

text \<open>The conversion of a node selector, as one requirement per expression, all of which a node has to match.\<close>

definition flat_requirements :: "NodeSelector \<Rightarrow> NodeSelectorRequirement list" where
  "flat_requirements terms = concat (map (\<lambda>t. MatchExpressions t @ MatchFields t) terms)"

lemma convert_requirements_append:
  "convert_requirements lib (xs @ ys) =
     (case convert_requirements lib xs of
        Inl e \<Rightarrow> Inl e
      | Inr as \<Rightarrow> (case convert_requirements lib ys of Inl e \<Rightarrow> Inl e | Inr bs \<Rightarrow> Inr (as @ bs)))"
  by (induction xs) (auto split: sum.splits)

lemma convert_terms_flat: "convert_terms lib terms = convert_requirements lib (flat_requirements terms)"
  by (induction terms) (auto simp: flat_requirements_def convert_requirements_append split: sum.splits)

end
