(* ===== verification/Allocator.thy ===== *)
theory Allocator
  imports PriorityQueue Selector
begin

text \<open>The operations of \<open>multi_cidr_range_allocator.go\<close> that run under \<open>r.lock\<close>. The allocator's state is the
  store of internal \<open>ClusterCIDR\<close> objects and \<open>cidrMap\<close>, an association list whose order stands for the
  (unspecified) iteration order of the Go map; the calls it makes on the API server, on the event
  recorder and on the work queues are recorded in order in \<open>effects\<close>. What the API server answers is a
  parameter.\<close>

datatype queue = cidrQueue | nodeQueue

datatype effect =
    NodeStatusChange string string
  | PatchNodeCIDRs string "string list"
  | CreateClusterCIDR ClusterCIDRObject
  | UpdateClusterCIDR ClusterCIDRObject
  | ClusterCIDREvent string go_error
  | QueueAdd queue string
  | QueueDone queue string
  | QueueAddRateLimited queue string
  | QueueForget queue string

record allocator =
  objs :: store
  cidrMap :: "(string \<times> nat list) list"
  effects :: "effect list"

record Api =
  nodeLister_Get :: "string \<Rightarrow> go_error + Node"
  clusterCIDRLister_Get :: "string \<Rightarrow> go_error + ClusterCIDRObject"
  api_PatchNodeCIDRs :: "nat \<Rightarrow> string \<Rightarrow> string list \<Rightarrow> go_error option"
  api_Create :: "ClusterCIDRObject \<Rightarrow> go_error option"
  api_Update :: "ClusterCIDRObject \<Rightarrow> go_error option"
  api_List :: "nat \<Rightarrow> go_error + ClusterCIDRObject list"
  IsNotFound :: "go_error \<Rightarrow> bool"
  IsServerTimeout :: "go_error \<Rightarrow> bool"

definition emit :: "effect \<Rightarrow> allocator \<Rightarrow> allocator" where
  "emit e r = r\<lparr>effects := effects r @ [e]\<rparr>"

datatype family = V4 | V6

fun get_set :: "family \<Rightarrow> ClusterCIDR \<Rightarrow> MultiCIDRSet option" where
  "get_set V4 c = IPv4CIDRSet c"
| "get_set V6 c = IPv6CIDRSet c"

fun put_set :: "family \<Rightarrow> MultiCIDRSet \<Rightarrow> ClusterCIDR \<Rightarrow> ClusterCIDR" where
  "put_set V4 s c = c\<lparr>IPv4CIDRSet := Some s\<rparr>"
| "put_set V6 s c = c\<lparr>IPv6CIDRSet := Some s\<rparr>"

definition upd_obj :: "nat \<Rightarrow> (ClusterCIDR \<Rightarrow> ClusterCIDR) \<Rightarrow> allocator \<Rightarrow> allocator" where
  "upd_obj a f r = r\<lparr>objs := (objs r)[a := f (objs r ! a)]\<rparr>"

definition cidr_family :: "NetUtils \<Rightarrow> IPNet \<Rightarrow> go_error + family" where
  "cidr_family nu cidr =
     (if IsIPv4CIDR nu cidr then Inr V4
      else if IsIPv6CIDR nu cidr then Inr V6
      else Inl (Errorf ''invalid cidr''))"

definition associatedCIDRSet :: "NetUtils \<Rightarrow> ClusterCIDR \<Rightarrow> IPNet \<Rightarrow> go_error + MultiCIDRSet option" where
  "associatedCIDRSet nu c cidr = (case cidr_family nu cidr of Inl e \<Rightarrow> Inl e | Inr f \<Rightarrow> Inr (get_set f c))"

definition Occupy :: "NetUtils \<Rightarrow> allocator \<Rightarrow> nat \<Rightarrow> IPNet \<Rightarrow> allocator \<times> unit outcome" where
  "Occupy nu r a cidr =
     (case cidr_family nu cidr of
        Inl e \<Rightarrow> (r, Fail e)
      | Inr f \<Rightarrow>
          (case get_set f (objs r ! a) of
             None \<Rightarrow> (r, Panic)
           | Some s \<Rightarrow>
               (case set_Occupy nu s (Some cidr) of
                  (t, Ret _) \<Rightarrow> (upd_obj a (put_set f t) r, Ret ())
                | (t, Fail e) \<Rightarrow> (upd_obj a (put_set f t) r, Fail (Wrap ''unable to occupy cidr in cidrSet'' e))
                | (t, Panic) \<Rightarrow> (upd_obj a (put_set f t) r, Panic))))"

definition Release :: "NetUtils \<Rightarrow> allocator \<Rightarrow> nat \<Rightarrow> IPNet \<Rightarrow> allocator \<times> unit outcome" where
  "Release nu r a cidr =
     (case cidr_family nu cidr of
        Inl e \<Rightarrow> (r, Fail e)
      | Inr f \<Rightarrow>
          (case get_set f (objs r ! a) of
             None \<Rightarrow> (r, Panic)
           | Some s \<Rightarrow>
               (case set_Release nu s (Some cidr) of
                  (t, res) \<Rightarrow> (upd_obj a (put_set f t) r, res))))"

text \<open>\<open>orderedMatchingClusterCIDRs\<close>: the queue is filled while the map is walked, then emptied.\<close>

fun push_list ::
    "store \<Rightarrow> bool \<Rightarrow> string \<Rightarrow> int \<Rightarrow> PriorityQueueItem list \<Rightarrow> nat list \<Rightarrow> PriorityQueueItem list option" where
  "push_list st occ label matchCnt pq [] = Some pq"
| "push_list st occ label matchCnt pq (a # as) =
     (if \<not> occ \<or> \<not> Terminating (st ! a) then
        (case pq_Push st pq \<lparr> pqi_clusterCIDR = a, labelMatchCount = matchCnt, selectorString = label, pqi_index = 0 \<rparr> of
           None \<Rightarrow> None
         | Some pq' \<Rightarrow> push_list st occ label matchCnt pq' as)
      else push_list st occ label matchCnt pq as)"

fun push_matching ::
    "('sel, 'req) LabelsLib \<Rightarrow> Node \<Rightarrow> bool \<Rightarrow> store \<Rightarrow> PriorityQueueItem list \<Rightarrow> (string \<times> nat list) list \<Rightarrow>
     PriorityQueueItem list outcome" where
  "push_matching lib node occ st pq [] = Ret pq"
| "push_matching lib node occ st pq ((label, clusterCIDRList) # rest) =
     (case matchCIDRLabels lib node label of
        Inl e \<Rightarrow> Fail e
      | Inr (labelsMatch, matchCnt) \<Rightarrow>
          if \<not> labelsMatch then push_matching lib node occ st pq rest
          else (case push_list st occ label matchCnt pq clusterCIDRList of
                  None \<Rightarrow> Panic
                | Some pq' \<Rightarrow> push_matching lib node occ st pq' rest))"

definition orderedMatchingClusterCIDRs ::
    "('sel, 'req) LabelsLib \<Rightarrow> allocator \<Rightarrow> Node \<Rightarrow> bool \<Rightarrow> nat list outcome" where
  "orderedMatchingClusterCIDRs lib r node occ =
     (case push_matching lib node occ (objs r) [] (cidrMap r) of
        Panic \<Rightarrow> Panic
      | Fail e \<Rightarrow> Fail e
      | Ret pq \<Rightarrow>
          (case pq_drain (objs r) (length pq) pq of
             None \<Rightarrow> Panic
           | Some matchingCIDRs \<Rightarrow>
               (case nodeSelectorAsSelector lib (Some defaultNodeSelector) of
                  Inl e \<Rightarrow> Fail e
                | Inr defaultSelector \<Rightarrow>
                    (case map_of (cidrMap r) (labels_String lib defaultSelector) of
                       Some clusterCIDRList \<Rightarrow> Ret (matchingCIDRs @ clusterCIDRList)
                     | None \<Rightarrow> Ret matchingCIDRs))))"

definition associate :: "string \<Rightarrow> ClusterCIDR \<Rightarrow> ClusterCIDR" where
  "associate name c = c\<lparr>AssociatedNodes := AList.update name True (AssociatedNodes c)\<rparr>"

definition dissociate :: "string \<Rightarrow> ClusterCIDR \<Rightarrow> ClusterCIDR" where
  "dissociate name c = c\<lparr>AssociatedNodes := AList.delete name (AssociatedNodes c)\<rparr>"

text \<open>\<open>occupyCIDRs\<close>: the inner loop returns whether every pod CIDR was occupied in the object at \<open>a\<close>; the
  blocks occupied before a break stay occupied.\<close>

fun occupy_pod_cidrs :: "NetUtils \<Rightarrow> allocator \<Rightarrow> nat \<Rightarrow> string list \<Rightarrow> allocator \<times> bool outcome" where
  "occupy_pod_cidrs nu r a [] = (r, Ret True)"
| "occupy_pod_cidrs nu r a (cidr # cidrs) =
     (case ParseCIDRSloppy nu cidr of
        Inl e \<Rightarrow> (r, Fail (Wrap ''failed to parse CIDR on Node'' e))
      | Inr (_, podCIDR) \<Rightarrow>
          (case Occupy nu r a podCIDR of
             (r', Ret _) \<Rightarrow> occupy_pod_cidrs nu r' a cidrs
           | (r', Fail e) \<Rightarrow> (r', Ret False)
           | (r', Panic) \<Rightarrow> (r', Panic)))"

fun occupy_in_order :: "NetUtils \<Rightarrow> allocator \<Rightarrow> Node \<Rightarrow> nat list \<Rightarrow> allocator \<times> unit outcome" where
  "occupy_in_order nu r node [] = (r, Fail (Errorf ''could not occupy cidrs''))"
| "occupy_in_order nu r node (a # as) =
     (case occupy_pod_cidrs nu r a (node_PodCIDRs node) of
        (r', Ret True) \<Rightarrow> (upd_obj a (associate (node_Name node)) r', Ret ())
      | (r', Ret False) \<Rightarrow> occupy_in_order nu r' node as
      | (r', Fail e) \<Rightarrow> (r', Fail e)
      | (r', Panic) \<Rightarrow> (r', Panic))"

definition occupyCIDRs ::
    "NetUtils \<Rightarrow> ('sel, 'req) LabelsLib \<Rightarrow> allocator \<Rightarrow> Node \<Rightarrow> allocator \<times> unit outcome" where
  "occupyCIDRs nu lib r node =
     (if node_PodCIDRs node = [] then (r, Ret ())
      else (case orderedMatchingClusterCIDRs lib r node True of
              Panic \<Rightarrow> (r, Panic)
            | Fail e \<Rightarrow> (r, Fail e)
            | Ret clusterCIDRList \<Rightarrow>
                if clusterCIDRList = [] then (r, Fail (Errorf ''could not occupy cidrs, No matching ClusterCIDRs found''))
                else occupy_in_order nu r node clusterCIDRList))"

text \<open>\<open>allocateCIDR\<close> and its two checks.\<close>

definition mapped :: "allocator \<Rightarrow> nat list" where
  "mapped r = concat (map snd (cidrMap r))"

definition cidrInAllocatedList :: "NetUtils \<Rightarrow> allocator \<Rightarrow> IPNet \<Rightarrow> bool" where
  "cidrInAllocatedList nu r cidr =
     list_ex (\<lambda>(_, clusterCIDRList). list_ex (\<lambda>a.
       (case associatedCIDRSet nu (objs r ! a) cidr of
          Inl _ \<Rightarrow> False
        | Inr None \<Rightarrow> False
        | Inr (Some cidrSet) \<Rightarrow> CIDRAllocated cidrSet cidr)) clusterCIDRList) (cidrMap r)"

definition cidrOverlapWithAllocatedList :: "NetUtils \<Rightarrow> allocator \<Rightarrow> IPNet \<Rightarrow> bool" where
  "cidrOverlapWithAllocatedList nu r cidr =
     list_ex (\<lambda>(_, clusterCIDRList). list_ex (\<lambda>a.
       (case associatedCIDRSet nu (objs r ! a) cidr of
          Inl _ \<Rightarrow> False
        | Inr None \<Rightarrow> False
        | Inr (Some cidrSet) \<Rightarrow> CIDROverlaps nu cidrSet cidr)) clusterCIDRList) (cidrMap r)"

fun allocate_loop :: "NetUtils \<Rightarrow> allocator \<Rightarrow> nat \<Rightarrow> family \<Rightarrow> nat \<Rightarrow> int \<Rightarrow> allocator \<times> IPNet outcome" where
  "allocate_loop nu r a f fuel evaluated =
     (case get_set f (objs r ! a) of
        None \<Rightarrow> (r, Panic)
      | Some cidrSet \<Rightarrow>
          (case fuel of
             0 \<Rightarrow> (r, Fail (CIDRRangeNoCIDRsRemainingErr (set_Label cidrSet)))
           | Suc fuel' \<Rightarrow>
               if \<not> evaluated < MaxCIDRs cidrSet
               then (r, Fail (CIDRRangeNoCIDRsRemainingErr (set_Label cidrSet)))
               else (case NextCandidate nu cidrSet of
                       (t, Panic) \<Rightarrow> (upd_obj a (put_set f t) r, Panic)
                     | (t, Fail e) \<Rightarrow> (upd_obj a (put_set f t) r, Fail e)
                     | (t, Ret (candidate, lastEvaluated)) \<Rightarrow>
                         let r1 = upd_obj a (put_set f t) r; evaluated1 = evaluated + lastEvaluated
                         in if cidrInAllocatedList nu r1 candidate then allocate_loop nu r1 a f fuel' (evaluated1 + 1)
                            else if cidrOverlapWithAllocatedList nu r1 candidate then allocate_loop nu r1 a f fuel' (evaluated1 + 1)
                            else (case Occupy nu r1 a candidate of
                                    (r2, Panic) \<Rightarrow> (r2, Panic)
                                  | (r2, Fail e) \<Rightarrow> (r2, Fail e)
                                  | (r2, Ret _) \<Rightarrow>
                                      (upd_obj a (\<lambda>c. case get_set f c of
                                          Some s \<Rightarrow> put_set f (UpdateEvaluatedCount s evaluated1) c
                                        | None \<Rightarrow> c) r2, Ret candidate)))))"

declare allocate_loop.simps [simp del]

definition allocateCIDR :: "NetUtils \<Rightarrow> allocator \<Rightarrow> nat \<Rightarrow> family \<Rightarrow> allocator \<times> IPNet outcome" where
  "allocateCIDR nu r a f =
     (case get_set f (objs r ! a) of
        None \<Rightarrow> (r, Panic)
      | Some cidrSet \<Rightarrow> allocate_loop nu r a f (nat (MaxCIDRs cidrSet)) 0)"

text \<open>\<open>prioritizedCIDRs\<close>: one CIDR per configured family of the first object that has them all.\<close>

definition allocate_family :: "NetUtils \<Rightarrow> allocator \<Rightarrow> nat \<Rightarrow> family \<Rightarrow> allocator \<times> IPNet list outcome" where
  "allocate_family nu r a f =
     (case get_set f (objs r ! a) of
        None \<Rightarrow> (r, Ret [])
      | Some _ \<Rightarrow>
          (case allocateCIDR nu r a f of
             (r', Ret cidr) \<Rightarrow> (r', Ret [cidr])
           | (r', Fail e) \<Rightarrow> (r', Fail e)
           | (r', Panic) \<Rightarrow> (r', Panic)))"

fun allocate_in_order :: "NetUtils \<Rightarrow> allocator \<Rightarrow> nat list \<Rightarrow> allocator \<times> (IPNet list \<times> nat) outcome" where
  "allocate_in_order nu r [] = (r, Fail (Errorf ''unable to get a clusterCIDR for node, no available CIDRs''))"
| "allocate_in_order nu r (a # as) =
     (case allocate_family nu r a V4 of
        (r1, Panic) \<Rightarrow> (r1, Panic)
      | (r1, Fail e) \<Rightarrow> allocate_in_order nu r1 as
      | (r1, Ret cidrs4) \<Rightarrow>
          (case allocate_family nu r1 a V6 of
             (r2, Panic) \<Rightarrow> (r2, Panic)
           | (r2, Fail e) \<Rightarrow> allocate_in_order nu r2 as
           | (r2, Ret cidrs6) \<Rightarrow> (r2, Ret (cidrs4 @ cidrs6, a))))"

definition prioritizedCIDRs ::
    "NetUtils \<Rightarrow> ('sel, 'req) LabelsLib \<Rightarrow> allocator \<Rightarrow> Node \<Rightarrow> allocator \<times> (IPNet list \<times> nat) outcome" where
  "prioritizedCIDRs nu lib r node =
     (case orderedMatchingClusterCIDRs lib r node True of
        Panic \<Rightarrow> (r, Panic)
      | Fail e \<Rightarrow> (r, Fail (Wrap ''unable to get a clusterCIDR for node'' e))
      | Ret clusterCIDRList \<Rightarrow> allocate_in_order nu r clusterCIDRList)"

text \<open>\<open>updateCIDRsAllocation\<close>: the CIDRs are already reserved in the object at \<open>a\<close>; they are kept when the node
  is patched, when it already has them, or when the outcome of the patch is unknown, and released otherwise.\<close>

definition RecordNodeStatusChange :: "Node \<Rightarrow> string \<Rightarrow> allocator \<Rightarrow> allocator" where
  "RecordNodeStatusChange node newStatus = emit (NodeStatusChange (node_Name node) newStatus)"

definition ipnetToStringList :: "IPNet list \<Rightarrow> string list" where
  "ipnetToStringList inCIDRs = map net_String inCIDRs"

fun release_cidrs :: "NetUtils \<Rightarrow> allocator \<Rightarrow> nat \<Rightarrow> IPNet list \<Rightarrow> allocator \<times> unit outcome" where
  "release_cidrs nu r a [] = (r, Ret ())"
| "release_cidrs nu r a (cidr # cidrs) =
     (case Release nu r a cidr of
        (r', Ret _) \<Rightarrow> release_cidrs nu r' a cidrs
      | (r', Fail e) \<Rightarrow> (r', Fail (Wrap ''failed to release cidr from clusterCIDR for node'' e))
      | (r', Panic) \<Rightarrow> (r', Panic))"

fun patch_loop :: "Api \<Rightarrow> allocator \<Rightarrow> string \<Rightarrow> string list \<Rightarrow> nat \<Rightarrow> nat \<Rightarrow> go_error option \<Rightarrow> allocator \<times> go_error option" where
  "patch_loop api r name cidrs 0 i err = (r, err)"
| "patch_loop api r name cidrs (Suc n) i err =
     (let r' = emit (PatchNodeCIDRs name cidrs) r
      in case api_PatchNodeCIDRs api i name cidrs of
           None \<Rightarrow> (r', None)
         | Some e \<Rightarrow> patch_loop api r' name cidrs n (i + 1) (Some e))"

definition updateCIDRsAllocation ::
    "NetUtils \<Rightarrow> Api \<Rightarrow> allocator \<Rightarrow> IPNet list \<Rightarrow> string \<Rightarrow> nat \<Rightarrow> allocator \<times> unit outcome" where
  "updateCIDRsAllocation nu api r cidrs nodeName a =
     (let cidrsString = ipnetToStringList cidrs
      in case nodeLister_Get api nodeName of
           Inl e \<Rightarrow> (r, Fail e)
         | Inr node \<Rightarrow>
             if node_PodCIDRs node = cidrsString then (r, Ret ())
             else if node_PodCIDRs node \<noteq> [] then release_cidrs nu r a cidrs
             else (case patch_loop api r (node_Name node) cidrsString cidrUpdateRetries 0 None of
                     (r1, None) \<Rightarrow> (upd_obj a (associate (node_Name node)) r1, Ret ())
                   | (r1, Some err) \<Rightarrow>
                       let r2 = RecordNodeStatusChange node ''CIDRAssignmentFailed'' r1
                       in if \<not> IsServerTimeout api err
                          then (case release_cidrs nu r2 a cidrs of
                                  (r3, Ret _) \<Rightarrow> (r3, Fail err)
                                | (r3, res) \<Rightarrow> (r3, res))
                          else (r2, Fail err)))"

definition AllocateOrOccupyCIDR ::
    "NetUtils \<Rightarrow> ('sel, 'req) LabelsLib \<Rightarrow> Api \<Rightarrow> allocator \<Rightarrow> Node option \<Rightarrow> allocator \<times> unit outcome" where
  "AllocateOrOccupyCIDR nu lib api r pnode =
     (case pnode of
        None \<Rightarrow> (r, Ret ())
      | Some node \<Rightarrow>
          if node_PodCIDRs node \<noteq> [] then occupyCIDRs nu lib r node
          else (case prioritizedCIDRs nu lib r node of
                  (r1, Panic) \<Rightarrow> (r1, Panic)
                | (r1, Fail e) \<Rightarrow>
                    (RecordNodeStatusChange node ''CIDRNotAvailable'' r1, Fail (Wrap ''failed to get cidrs for node'' e))
                | (r1, Ret (cidrs, a)) \<Rightarrow>
                    if cidrs = []
                    then (RecordNodeStatusChange node ''CIDRNotAvailable'' r1,
                          Fail (Errorf ''no cidrSets with matching labels found for node''))
                    else updateCIDRsAllocation nu api r1 cidrs (node_Name node) a))"

text \<open>\<open>ReleaseCIDR\<close>.\<close>

definition allocatedClusterCIDR :: "('sel, 'req) LabelsLib \<Rightarrow> allocator \<Rightarrow> Node \<Rightarrow> nat outcome" where
  "allocatedClusterCIDR lib r node =
     (case orderedMatchingClusterCIDRs lib r node False of
        Panic \<Rightarrow> Panic
      | Fail e \<Rightarrow> Fail (Wrap ''unable to get a clusterCIDR for node'' e)
      | Ret clusterCIDRList \<Rightarrow>
          (case find (\<lambda>a. map_of (AssociatedNodes (objs r ! a)) (node_Name node) = Some True) clusterCIDRList of
             Some a \<Rightarrow> Ret a
           | None \<Rightarrow> Fail (Errorf ''no clusterCIDR found associated with node'')))"

fun release_pod_cidrs :: "NetUtils \<Rightarrow> allocator \<Rightarrow> nat \<Rightarrow> string list \<Rightarrow> allocator \<times> unit outcome" where
  "release_pod_cidrs nu r a [] = (r, Ret ())"
| "release_pod_cidrs nu r a (cidr # cidrs) =
     (case ParseCIDRSloppy nu cidr of
        Inl e \<Rightarrow> (r, Fail (Wrap ''failed to parse CIDR on Node'' e))
      | Inr (_, podCIDR) \<Rightarrow>
          (case Release nu r a podCIDR of
             (r', Ret _) \<Rightarrow> release_pod_cidrs nu r' a cidrs
           | (r', Fail e) \<Rightarrow> (r', Fail (Wrap ''failed to release cidr from clusterCIDR for node'' e))
           | (r', Panic) \<Rightarrow> (r', Panic)))"

definition ReleaseCIDR ::
    "NetUtils \<Rightarrow> ('sel, 'req) LabelsLib \<Rightarrow> allocator \<Rightarrow> Node option \<Rightarrow> allocator \<times> unit outcome" where
  "ReleaseCIDR nu lib r pnode =
     (case pnode of
        None \<Rightarrow> (r, Ret ())
      | Some node \<Rightarrow>
          if node_PodCIDRs node = [] then (r, Ret ())
          else (case allocatedClusterCIDR lib r node of
                  Panic \<Rightarrow> (r, Panic)
                | Fail e \<Rightarrow> (r, Fail e)
                | Ret a \<Rightarrow>
                    (case release_pod_cidrs nu r a (node_PodCIDRs node) of
                       (r', Ret _) \<Rightarrow> (upd_obj a (dissociate (node_Name node)) r', Ret ())
                     | (r', res) \<Rightarrow> (r', res))))"

text \<open>The service CIDRs, taken out of every mapped object at start-up.\<close>

definition occupyServiceCIDR :: "NetUtils \<Rightarrow> allocator \<Rightarrow> nat \<Rightarrow> IPNet \<Rightarrow> allocator \<times> unit outcome" where
  "occupyServiceCIDR nu r a serviceCIDR =
     (case associatedCIDRSet nu (objs r ! a) serviceCIDR of
        Inl e \<Rightarrow> (r, Fail e)
      | Inr None \<Rightarrow> (r, Panic)
      | Inr (Some cidrSet) \<Rightarrow>
          if \<not> nets_intersect (set_ClusterCIDR cidrSet) serviceCIDR then (r, Ret ())
          else (case Occupy nu r a serviceCIDR of
                  (r', Ret _) \<Rightarrow> (r', Ret ())
                | (r', Fail e) \<Rightarrow> (r', Fail (Wrap ''error filtering out service cidr from cluster cidr'' e))
                | (r', Panic) \<Rightarrow> (r', Panic)))"

fun filter_service_loop :: "NetUtils \<Rightarrow> allocator \<Rightarrow> IPNet \<Rightarrow> nat list \<Rightarrow> allocator \<times> unit outcome" where
  "filter_service_loop nu r serviceCIDR [] = (r, Ret ())"
| "filter_service_loop nu r serviceCIDR (a # as) =
     (case occupyServiceCIDR nu r a serviceCIDR of
        (r', Panic) \<Rightarrow> (r', Panic)
      | (r', _) \<Rightarrow> filter_service_loop nu r' serviceCIDR as)"

definition filterOutServiceRange :: "NetUtils \<Rightarrow> allocator \<Rightarrow> IPNet \<Rightarrow> allocator \<times> unit outcome" where
  "filterOutServiceRange nu r serviceCIDR = filter_service_loop nu r serviceCIDR (mapped r)"

text \<open>ClusterCIDR objects: creation, mapping, deletion.\<close>

definition make_cidr_set :: "NetUtils \<Rightarrow> ClusterCIDRObject \<Rightarrow> string \<Rightarrow> string \<Rightarrow> MultiCIDRSet option outcome" where
  "make_cidr_set nu obj fam text =
     (if text = '''' then Ret None
      else (case ParseCIDRSloppy nu text of
              Inl e \<Rightarrow> Fail (Wrap (''unable to parse provided '' @ fam @ '' CIDR'') e)
            | Inr (_, cidr) \<Rightarrow>
                (case NewMultiCIDRSet nu (obj_Name obj) cidr (PerNodeHostBits (obj_Spec obj)) of
                   Panic \<Rightarrow> Panic
                 | Fail e \<Rightarrow> Fail (Wrap (''unable to create '' @ fam @ '' cidrSet'') e)
                 | Ret s \<Rightarrow> Ret (Some s))))"

definition createClusterCIDRSet :: "NetUtils \<Rightarrow> ClusterCIDRObject \<Rightarrow> bool \<Rightarrow> ClusterCIDR outcome" where
  "createClusterCIDRSet nu obj terminating =
     (case make_cidr_set nu obj ''IPv4'' (spec_IPv4 (obj_Spec obj)) of
        Panic \<Rightarrow> Panic
      | Fail e \<Rightarrow> Fail e
      | Ret s4 \<Rightarrow>
          (case make_cidr_set nu obj ''IPv6'' (spec_IPv6 (obj_Spec obj)) of
             Panic \<Rightarrow> Panic
           | Fail e \<Rightarrow> Fail e
           | Ret s6 \<Rightarrow>
               Ret \<lparr> cc_Name = obj_Name obj, IPv4CIDRSet = s4, IPv6CIDRSet = s6,
                     AssociatedNodes = [], Terminating = terminating \<rparr>))"

definition mapClusterCIDRSet :: "allocator \<Rightarrow> string \<Rightarrow> ClusterCIDR \<Rightarrow> allocator" where
  "mapClusterCIDRSet r nodeSelector clusterCIDRSet =
     (let a = length (objs r); st = objs r @ [clusterCIDRSet]
      in case map_of (cidrMap r) nodeSelector of
           Some clusterCIDRSetList \<Rightarrow>
             if list_ex (\<lambda>b. cc_Name clusterCIDRSet = cc_Name (objs r ! b)) clusterCIDRSetList
             then r\<lparr>objs := st\<rparr>
             else r\<lparr>objs := st, cidrMap := AList.update nodeSelector (clusterCIDRSetList @ [a]) (cidrMap r)\<rparr>
         | None \<Rightarrow> r\<lparr>objs := st, cidrMap := AList.update nodeSelector [a] (cidrMap r)\<rparr>)"

definition createClusterCIDR ::
    "NetUtils \<Rightarrow> ('sel, 'req) LabelsLib \<Rightarrow> Api \<Rightarrow> allocator \<Rightarrow> ClusterCIDRObject \<Rightarrow> bool \<Rightarrow> allocator \<times> unit outcome" where
  "createClusterCIDR nu lib api r obj terminating =
     (case nodeSelectorKey lib obj of
        Inl e \<Rightarrow> (r, Fail (Wrap ''unable to get labelSelector key'' e))
      | Inr nodeSelector \<Rightarrow>
          (case createClusterCIDRSet nu obj terminating of
             Panic \<Rightarrow> (r, Panic)
           | Fail e \<Rightarrow> (r, Fail (Wrap ''invalid ClusterCIDR'' e))
           | Ret c \<Rightarrow>
               if IPv4CIDRSet c = None \<and> IPv6CIDRSet c = None
               then (r, Fail (Errorf ''invalid ClusterCIDR: must provide IPv4 and/or IPv6 config''))
               else
                 let r1 = mapClusterCIDRSet r nodeSelector c;
                     updated = (if needToAddFinalizer obj clusterCIDRFinalizer
                                then obj\<lparr>obj_Finalizers := obj_Finalizers obj @ [clusterCIDRFinalizer]\<rparr> else obj)
                 in if obj_ResourceVersion updated = ''''
                    then (emit (CreateClusterCIDR updated) r1, case api_Create api updated of Some e \<Rightarrow> Fail e | None \<Rightarrow> Ret ())
                    else (emit (UpdateClusterCIDR updated) r1, case api_Update api updated of Some e \<Rightarrow> Fail e | None \<Rightarrow> Ret ())))"

definition reconcileCreate ::
    "NetUtils \<Rightarrow> ('sel, 'req) LabelsLib \<Rightarrow> Api \<Rightarrow> allocator \<Rightarrow> ClusterCIDRObject \<Rightarrow> allocator \<times> unit outcome" where
  "reconcileCreate nu lib api r obj = createClusterCIDR nu lib api r obj False"

definition reconcileBootstrap ::
    "NetUtils \<Rightarrow> ('sel, 'req) LabelsLib \<Rightarrow> Api \<Rightarrow> allocator \<Rightarrow> ClusterCIDRObject \<Rightarrow> allocator \<times> unit outcome" where
  "reconcileBootstrap nu lib api r obj = createClusterCIDR nu lib api r obj (obj_Generation obj > 1)"

definition deleteClusterCIDR ::
    "('sel, 'req) LabelsLib \<Rightarrow> allocator \<Rightarrow> ClusterCIDRObject \<Rightarrow> allocator \<times> unit outcome" where
  "deleteClusterCIDR lib r obj =
     (case nodeSelectorKey lib obj of
        Inl e \<Rightarrow> (r, Fail (Wrap ''unable to delete cidr'' e))
      | Inr labelSelector \<Rightarrow>
          (case map_of (cidrMap r) labelSelector of
             None \<Rightarrow> (r, Ret ())
           | Some clusterCIDRSetList \<Rightarrow>
               (case find (\<lambda>a. cc_Name (objs r ! a) = obj_Name obj) clusterCIDRSetList of
                  None \<Rightarrow> (r, Ret ())
                | Some a \<Rightarrow>
                    let r1 = upd_obj a (\<lambda>c. c\<lparr>Terminating := True\<rparr>) r
                    in if AssociatedNodes (objs r ! a) \<noteq> []
                       then (r1, Fail (Errorf ''ClusterCIDRSet marked as terminating, won't be deleted until all associated nodes are deleted''))
                       else if length clusterCIDRSetList = 1
                       then (r1\<lparr>cidrMap := AList.delete labelSelector (cidrMap r1)\<rparr>, Ret ())
                       else (r1\<lparr>cidrMap := AList.update labelSelector (remove1 a clusterCIDRSetList) (cidrMap r1)\<rparr>, Ret ()))))"

definition reconcileDelete ::
    "('sel, 'req) LabelsLib \<Rightarrow> Api \<Rightarrow> allocator \<Rightarrow> ClusterCIDRObject \<Rightarrow> allocator \<times> unit outcome" where
  "reconcileDelete lib api r obj =
     (if clusterCIDRFinalizer \<in> set (obj_Finalizers obj) then
        (case deleteClusterCIDR lib r obj of
           (r1, Ret _) \<Rightarrow>
             let cccCopy = obj\<lparr>obj_Finalizers := filter (\<lambda>s. s \<noteq> clusterCIDRFinalizer) (obj_Finalizers obj)\<rparr>
             in (emit (UpdateClusterCIDR cccCopy) r1, case api_Update api cccCopy of Some e \<Rightarrow> Fail e | None \<Rightarrow> Ret ())
         | (r1, res) \<Rightarrow> (r1, res))
      else (r, Ret ()))"

end
