(* ===== verification/AllocatorLemmas.thy ===== *)
theory AllocatorLemmas
  imports Allocator
begin

text \<open>The invariant of the allocator's state and what its operations do to it, in terms of the CIDRs each
  object has handed out.\<close>

definition netutils_cidr :: "NetUtils \<Rightarrow> bool" where
  "netutils_cidr nu \<longleftrightarrow>
     (\<forall>n. wf_net n \<longrightarrow> IsIPv4CIDR nu n = (length (net_IP n) = 4) \<and> IsIPv6CIDR nu n = (length (net_IP n) = 16))"

definition netutils_ok :: "NetUtils \<Rightarrow> bool" where
  "netutils_ok nu \<longleftrightarrow> netutils_families nu \<and> netutils_parse nu \<and> netutils_cidr nu"

lemma netutils_okD:
  assumes "netutils_ok nu"
  shows "netutils_families nu" "netutils_parse nu" "netutils_cidr nu"
  using assms by (simp_all add: netutils_ok_def)

definition family_of :: "IPNet \<Rightarrow> family" where
  "family_of n = (if length (net_IP n) = 4 then V4 else V6)"

lemma cidr_family_wf: "netutils_ok nu \<Longrightarrow> wf_net n \<Longrightarrow> cidr_family nu n = Inr (family_of n)"
  using wf_net_lengths [of n] by (auto simp: cidr_family_def family_of_def netutils_ok_def netutils_cidr_def)

lemma family_of_eq: "wf_net m \<Longrightarrow> wf_net n \<Longrightarrow> family_of m = family_of n \<longleftrightarrow> length (net_IP m) = length (net_IP n)"
  using wf_net_lengths [of m] wf_net_lengths [of n] by (auto simp: family_of_def)

definition wf_cc :: "ClusterCIDR \<Rightarrow> bool" where
  "wf_cc c \<longleftrightarrow> has_set c \<and> (\<forall>f s. get_set f c = Some s \<longrightarrow> wf_set s \<and> family_of (set_ClusterCIDR s) = f) \<and>
     distinct (map fst (AssociatedNodes c)) \<and> snd ` set (AssociatedNodes c) \<subseteq> {True}"

definition wf_alloc :: "allocator \<Rightarrow> bool" where
  "wf_alloc r \<longleftrightarrow> distinct (map fst (cidrMap r)) \<and> distinct (mapped r) \<and> set (mapped r) \<subseteq> {..<length (objs r)} \<and>
     (\<forall>a < length (objs r). wf_cc (objs r ! a))"

definition busy :: "allocator \<Rightarrow> nat \<Rightarrow> family \<Rightarrow> IPNet set" where
  "busy r a f = (case get_set f (objs r ! a) of Some s \<Rightarrow> blk s ` used s | None \<Rightarrow> {})"

definition conflicts :: "allocator \<Rightarrow> IPNet \<Rightarrow> bool" where
  "conflicts r c \<longleftrightarrow> (\<exists>a \<in> set (mapped r). \<exists>n \<in> busy r a (family_of c). addresses n \<inter> addresses c \<noteq> {})"

lemma get_put [simp]: "get_set f (put_set g s c) = (if f = g then Some s else get_set f c)"
  by (cases f; cases g) simp_all

lemma put_put [simp]: "put_set f s (put_set f t c) = put_set f s c"
  by (cases f) simp_all

lemma put_same [simp]: "get_set f c = Some s \<Longrightarrow> put_set f s c = c"
  by (cases f) simp_all

lemma put_fields [simp]:
  "cc_Name (put_set f s c) = cc_Name c" "AssociatedNodes (put_set f s c) = AssociatedNodes c"
  "Terminating (put_set f s c) = Terminating c" "has_set (put_set f s c)"
  by (cases f; simp add: has_set_def)+

lemma has_set_iff: "has_set c \<longleftrightarrow> (\<exists>f s. get_set f c = Some s)"
proof
  show "has_set c \<Longrightarrow> \<exists>f s. get_set f c = Some s"
    unfolding has_set_def by (metis get_set.simps option.exhaust)
  show "\<exists>f s. get_set f c = Some s \<Longrightarrow> has_set c"
    unfolding has_set_def by (metis family.exhaust get_set.simps option.distinct(1))
qed

lemma upd_obj_sel [simp]:
  "cidrMap (upd_obj a g r) = cidrMap r" "effects (upd_obj a g r) = effects r" "length (objs (upd_obj a g r)) = length (objs r)"
  "mapped (upd_obj a g r) = mapped r"
  by (simp_all add: upd_obj_def mapped_def)

lemma upd_obj_nth: "objs (upd_obj a g r) ! b = (if b = a \<and> a < length (objs r) then g (objs r ! a) else objs r ! b)"
  by (cases "a < length (objs r)") (simp_all add: upd_obj_def nth_list_update list_update_beyond)

lemma upd_obj_id: "g (objs r ! a) = objs r ! a \<Longrightarrow> upd_obj a g r = r"
  by (simp add: upd_obj_def)

lemma upd_obj_upd_obj: "upd_obj a g (upd_obj a h r) = upd_obj a (\<lambda>c. g (h c)) r"
  by (cases "a < length (objs r)") (simp_all add: upd_obj_def list_update_beyond)

lemma emit_sel [simp]:
  "objs (emit e r) = objs r" "cidrMap (emit e r) = cidrMap r" "mapped (emit e r) = mapped r" "busy (emit e r) = busy r"
  "wf_alloc (emit e r) = wf_alloc r"
  by (simp_all add: emit_def mapped_def busy_def wf_alloc_def fun_eq_iff)

lemma wf_alloc_nth: "wf_alloc r \<Longrightarrow> a < length (objs r) \<Longrightarrow> wf_cc (objs r ! a)"
  by (simp add: wf_alloc_def)

lemma wf_alloc_set:
  assumes "wf_alloc r" "a < length (objs r)" "get_set f (objs r ! a) = Some s"
  shows "wf_set s" "family_of (set_ClusterCIDR s) = f"
  using wf_alloc_nth [OF assms(1,2)] assms(3) by (auto simp: wf_cc_def)

lemma wf_alloc_upd:
  assumes "wf_alloc r" "a < length (objs r) \<Longrightarrow> wf_cc (g (objs r ! a))"
  shows "wf_alloc (upd_obj a g r)"
  using assms by (auto simp: wf_alloc_def upd_obj_nth)

lemma wf_cc_put:
  assumes "wf_cc c" "get_set f c = Some s" "wf_set t" "same_pool s t"
  shows "wf_cc (put_set f t c)"
  using assms same_pool_geometry(9) [OF assms(4)] by (auto simp: wf_cc_def split: if_splits)

lemma wf_alloc_put:
  assumes "wf_alloc r" "get_set f (objs r ! a) = Some s" "wf_set t" "same_pool s t"
  shows "wf_alloc (upd_obj a (put_set f t) r)"
  using assms by (intro wf_alloc_upd) (auto intro: wf_cc_put wf_alloc_nth)

lemma busy_put:
  "a < length (objs r) \<Longrightarrow> busy (upd_obj a (put_set f t) r) b g = (if b = a \<and> g = f then blk t ` used t else busy r b g)"
  by (auto simp: busy_def upd_obj_nth)

lemma busy_some: "get_set f (objs r ! a) = Some s \<Longrightarrow> busy r a f = blk s ` used s"
  by (simp add: busy_def)

lemma busy_wf:
  assumes "wf_alloc r" "a < length (objs r)" "n \<in> busy r a f"
  shows "wf_net n" "family_of n = f"
proof -
  obtain s i where s: "get_set f (objs r ! a) = Some s" "i \<in> used s" "n = blk s i"
    using assms(3) by (auto simp: busy_def split: option.splits)
  note w = wf_alloc_set [OF assms(1,2) s(1)]
  have r: "in_range s i" using s(2) used_subset by blast
  show "wf_net n" using wf_net_blk(1) [OF wf_setD(1) [OF w(1)] r] s(3) by simp
  show "family_of n = f" using wf_net_blk(3) [OF wf_setD(1) [OF w(1)] r] w(2) s(3) by (simp add: family_of_def)
qed

lemma mapped_bound: "wf_alloc r \<Longrightarrow> a \<in> set (mapped r) \<Longrightarrow> a < length (objs r)"
  by (auto simp: wf_alloc_def)

lemma Occupy_spec:
  assumes "netutils_ok nu" "wf_alloc r" "a < length (objs r)" "wf_net c" "get_set (family_of c) (objs r ! a) = Some s"
  shows "nets_intersect (set_ClusterCIDR s) c \<Longrightarrow>
      \<exists>t. Occupy nu r a c = (upd_obj a (put_set (family_of c) t) r, Ret ()) \<and> wf_set t \<and> same_pool s t \<and>
        nextCandidate t = nextCandidate s \<and> used t = used s \<union> touching s c"
    and "\<not> nets_intersect (set_ClusterCIDR s) c \<Longrightarrow> \<exists>e. Occupy nu r a c = (r, Fail e)"
proof -
  note w = wf_alloc_set [OF assms(2,3,5)]
  show "\<exists>e. Occupy nu r a c = (r, Fail e)" if "\<not> nets_intersect (set_ClusterCIDR s) c"
    using set_Occupy_out [OF that] assms(5)
    by (simp add: Occupy_def cidr_family_wf [OF assms(1,4)] upd_obj_id)
  assume i: "nets_intersect (set_ClusterCIDR s) c"
  then have "same_family s c" using accepts_family [OF w(1)] assms(4) by (simp add: accepts_cidr_def)
  from set_Occupy_in [OF netutils_okD(1) [OF assms(1)] w(1) assms(4) this i]
  show "\<exists>t. Occupy nu r a c = (upd_obj a (put_set (family_of c) t) r, Ret ()) \<and> wf_set t \<and> same_pool s t \<and>
        nextCandidate t = nextCandidate s \<and> used t = used s \<union> touching s c"
    using assms(5) by (auto simp: Occupy_def cidr_family_wf [OF assms(1,4)])
qed

lemma Release_spec:
  assumes "netutils_ok nu" "wf_alloc r" "a < length (objs r)" "wf_net c" "get_set (family_of c) (objs r ! a) = Some s"
  shows "nets_intersect (set_ClusterCIDR s) c \<Longrightarrow>
      \<exists>t. Release nu r a c = (upd_obj a (put_set (family_of c) t) r, Ret ()) \<and> wf_set t \<and> same_pool s t \<and>
        nextCandidate t = nextCandidate s \<and> used t = used s - touching s c"
    and "\<not> nets_intersect (set_ClusterCIDR s) c \<Longrightarrow> \<exists>e. Release nu r a c = (r, Fail e)"
proof -
  note w = wf_alloc_set [OF assms(2,3,5)]
  show "\<exists>e. Release nu r a c = (r, Fail e)" if "\<not> nets_intersect (set_ClusterCIDR s) c"
    using set_Release_out [OF that] assms(5)
    by (simp add: Release_def cidr_family_wf [OF assms(1,4)] upd_obj_id)
  assume i: "nets_intersect (set_ClusterCIDR s) c"
  then have "same_family s c" using accepts_family [OF w(1)] assms(4) by (simp add: accepts_cidr_def)
  from set_Release_in [OF netutils_okD(1) [OF assms(1)] w(1) assms(4) this i]
  show "\<exists>t. Release nu r a c = (upd_obj a (put_set (family_of c) t) r, Ret ()) \<and> wf_set t \<and> same_pool s t \<and>
        nextCandidate t = nextCandidate s \<and> used t = used s - touching s c"
    using assms(5) by (auto simp: Release_def cidr_family_wf [OF assms(1,4)])
qed

lemma Occupy_nil: "netutils_ok nu \<Longrightarrow> wf_net c \<Longrightarrow> get_set (family_of c) (objs r ! a) = None \<Longrightarrow> Occupy nu r a c = (r, Panic)"
  by (simp add: Occupy_def cidr_family_wf)

lemma Release_nil: "netutils_ok nu \<Longrightarrow> wf_net c \<Longrightarrow> get_set (family_of c) (objs r ! a) = None \<Longrightarrow> Release nu r a c = (r, Panic)"
  by (simp add: Release_def cidr_family_wf)

lemma mapped_ex: "list_ex (\<lambda>(_, l). list_ex P l) (cidrMap r) \<longleftrightarrow> (\<exists>a \<in> set (mapped r). P a)"
  by (force simp: mapped_def list_ex_iff)

lemma checks_iff:
  assumes "netutils_ok nu" "wf_alloc r" "wf_net c"
  shows "cidrInAllocatedList nu r c \<or> cidrOverlapWithAllocatedList nu r c \<longleftrightarrow> conflicts r c"
proof -
  have as: "associatedCIDRSet nu d c = Inr (get_set (family_of c) d)" for d
    by (simp add: associatedCIDRSet_def cidr_family_wf [OF assms(1,3)])
  have one: "CIDRAllocated s c \<or> CIDROverlaps nu s c \<longleftrightarrow> (\<exists>n \<in> busy r a (family_of c). addresses n \<inter> addresses c \<noteq> {})"
    if a: "a \<in> set (mapped r)" and s: "get_set (family_of c) (objs r ! a) = Some s" for a s
  proof -
    note w = wf_alloc_set [OF assms(2) mapped_bound [OF assms(2) a] s]
    have cl: "wf_net (set_ClusterCIDR s)" using wf_setD(1) [OF w(1)] by (simp add: wf_geometry_def)
    have sf: "same_family s c" using w(2) family_of_eq [OF cl assms(3)] by (simp add: same_family_def)
    have "CIDRAllocated s c \<Longrightarrow> \<exists>n \<in> blk s ` used s. addresses n \<inter> addresses c \<noteq> {}"
      using CIDRAllocated_iff [OF w(1) assms(3)] net_addr_in_addresses [OF assms(3)] by blast
    moreover have "CIDROverlaps nu s c \<longleftrightarrow> (\<exists>n \<in> blk s ` used s. addresses n \<inter> addresses c \<noteq> {})"
      using CIDROverlaps_iff [OF netutils_okD(2) [OF assms(1)] w(1) assms(3)] sf used_subset [of s]
      by (auto simp: touching_def)
    ultimately show ?thesis unfolding busy_some [OF s] by blast
  qed
  have "cidrInAllocatedList nu r c \<or> cidrOverlapWithAllocatedList nu r c \<longleftrightarrow>
    (\<exists>a \<in> set (mapped r). \<exists>s. get_set (family_of c) (objs r ! a) = Some s \<and> (CIDRAllocated s c \<or> CIDROverlaps nu s c))"
    unfolding cidrInAllocatedList_def cidrOverlapWithAllocatedList_def as mapped_ex
    by (auto split: option.splits)
  also have "\<dots> \<longleftrightarrow> conflicts r c"
  proof -
    have "(\<exists>s. get_set (family_of c) (objs r ! a) = Some s \<and> (CIDRAllocated s c \<or> CIDROverlaps nu s c)) \<longleftrightarrow>
      (\<exists>n \<in> busy r a (family_of c). addresses n \<inter> addresses c \<noteq> {})" if "a \<in> set (mapped r)" for a
      using one [OF that] by (cases "get_set (family_of c) (objs r ! a)") (simp_all add: busy_def)
    then show ?thesis unfolding conflicts_def by (rule bex_cong [OF refl])
  qed
  finally show ?thesis .
qed

definition refused :: "allocator \<Rightarrow> MultiCIDRSet \<Rightarrow> int \<Rightarrow> bool" where
  "refused r s i \<longleftrightarrow> i \<in> used s \<or> conflicts r (blk s i)"

lemma refused_put:
  assumes "a < length (objs r)" "get_set f (objs r ! a) = Some s" "same_pool s t" "used t = used s"
  shows "conflicts (upd_obj a (put_set f t) r) = conflicts r" "refused (upd_obj a (put_set f t) r) t = refused r s"
proof -
  have "busy (upd_obj a (put_set f t) r) = busy r"
    using assms same_pool_geometry(2) [OF assms(3)] by (auto simp: fun_eq_iff busy_put busy_some)
  then show "conflicts (upd_obj a (put_set f t) r) = conflicts r" by (simp add: conflicts_def fun_eq_iff)
  then show "refused (upd_obj a (put_set f t) r) t = refused r s"
    by (simp add: refused_def fun_eq_iff assms(4) same_pool_geometry(2) [OF assms(3)])
qed

lemma pool_candidate_Some:
  "pool_candidate (nu, s) = (p, Some ck) \<Longrightarrow> NextCandidate nu s = (snd p, Ret ck)"
  by (auto simp: pool_candidate_def split: prod.splits outcome.splits)

lemma NextCandidate_cases:
  assumes "netutils_families nu" "wf_set s"
  obtains "used s = {i. in_range s i}" "NextCandidate nu s = (s, Fail (CIDRRangeNoCIDRsRemainingErr (set_Label s)))"
  | t c k where "NextCandidate nu s = (t, Ret (c, k))" "pool_candidate (nu, s) = ((nu, t), Some (c, k))"
proof (cases "used s = {i. in_range s i}")
  case True
  then show ?thesis using that(1) NextCandidate_full [OF assms(2)] by blast
next
  case False
  from NextCandidate_free [OF assms False] obtain t c k where "NextCandidate nu s = (t, Ret (c, k))" by blast
  then show ?thesis using that(2) by (simp add: pool_candidate_def)
qed

lemma candidate_step:
  assumes "netutils_families nu" "wf_set s" "mcs.examined (refused r s) start (nu, s) e"
    "pool_candidate (nu, s) = ((nu, t), Some (c, k))"
  shows "wf_set t" "same_pool s t" "used t = used s" "0 \<le> k"
    "\<exists>i. in_range s i \<and> i \<notin> used s \<and> c = blk s i \<and> (conflicts r c \<longrightarrow> mcs.examined (refused r s) start (nu, t) (e + k + 1))"
proof -
  have inv: "pool_invar (nu, s)" using assms(1,2) by (simp add: pool_invar_def)
  have "\<And>i. i \<in> used (snd (nu, s)) \<Longrightarrow> refused r s i" by (simp add: refused_def)
  note st = mcs.examined_step [OF assms(3) inv assms(4) this]
  show "wf_set t" "used t = used s" "0 \<le> k" using st by (simp_all add: pool_invar_def)
  show "same_pool s t" using set_ops_wf(6) [OF assms(1,2), of None] pool_candidate_Some [OF assms(4)] by simp
  show "\<exists>i. in_range s i \<and> i \<notin> used s \<and> c = blk s i \<and> (conflicts r c \<longrightarrow> mcs.examined (refused r s) start (nu, t) (e + k + 1))"
  proof -
    from st obtain i where "0 \<le> i" "i < MaxCIDRs s" "i \<notin> used s" "c = blk s i"
      "refused r s i \<longrightarrow> mcs.examined (refused r s) start (nu, t) (e + k + 1)" by auto
    then show ?thesis by (intro exI [of _ i]) (simp add: in_range_def refused_def)
  qed
qed

lemma allocate_loop_spec:
  assumes "netutils_ok nu" "wf_alloc r" "a < length (objs r)" "get_set f (objs r ! a) = Some s"
    "mcs.examined (refused r s) start (nu, s) e" "MaxCIDRs s \<le> e + int fuel"
  shows "(\<exists>i t. in_range s i \<and> \<not> refused r s i \<and> wf_set t \<and> same_pool s t \<and> used t = insert i (used s) \<and>
       allocate_loop nu r a f fuel e = (upd_obj a (put_set f t) r, Ret (blk s i))) \<or>
     (\<forall>i. in_range s i \<longrightarrow> refused r s i) \<and>
     (\<exists>t. wf_set t \<and> same_pool s t \<and> used t = used s \<and>
       allocate_loop nu r a f fuel e = (upd_obj a (put_set f t) r, Fail (CIDRRangeNoCIDRsRemainingErr (set_Label s))))"
  using assms(2-)
proof (induction fuel arbitrary: r s e)
  case 0
  note w = wf_alloc_set [OF 0(1,2,3)] and eq = allocate_loop.simps [of nu r a f 0 e]
  have "refused r s i" if "in_range s i" for i
    using mcs.examined_all [OF 0(4)] 0(5) w(1) netutils_okD(1) [OF assms(1)] that by (simp add: pool_invar_def in_range_def)
  moreover have "upd_obj a (put_set f s) r = r" using 0(3) by (simp add: upd_obj_id)
  ultimately show ?case using 0(3) w(1) by (intro disjI2 conjI exI [of _ s]) (simp_all add: eq)
next
  case (Suc fuel)
  note nu = netutils_okD(1) [OF assms(1)]
  note w = wf_alloc_set [OF Suc.prems(1-3)] and eq = allocate_loop.simps [of nu r a f "Suc fuel" e]
  have same: "upd_obj a (put_set f s) r = r" using Suc.prems(3) by (simp add: upd_obj_id)
  show ?case
  proof (cases "e < MaxCIDRs s")
    case False
    then have "refused r s i" if "in_range s i" for i
      using mcs.examined_all [OF Suc.prems(4)] w(1) nu that by (simp add: pool_invar_def in_range_def)
    then show ?thesis using False Suc.prems(3) w(1) same by (intro disjI2 conjI exI [of _ s]) (simp_all add: eq)
  next
    case True
    show ?thesis
    proof (cases rule: NextCandidate_cases [OF nu w(1)])
      case 1
      then show ?thesis using True Suc.prems(3) w(1) same
        by (intro disjI2 conjI exI [of _ s]) (auto simp: eq refused_def)
    next
      case (2 t c k)
      note st = candidate_step [OF nu w(1) Suc.prems(4) 2(2)]
      from st(5) obtain i where i: "in_range s i" "i \<notin> used s" "c = blk s i"
        and ex: "conflicts r c \<Longrightarrow> mcs.examined (refused r s) start (nu, t) (e + k + 1)" by blast
      let ?r = "upd_obj a (put_set f t) r"
      have wr: "wf_alloc ?r" by (rule wf_alloc_put [OF Suc.prems(1,3) st(1,2)])
      have wc: "wf_net c" "family_of c = f"
        using wf_net_blk [OF wf_setD(1) [OF w(1)] i(1)] w(2) i(3) by (simp_all add: family_of_def)
      have gs: "get_set f (objs ?r ! a) = Some t" "a < length (objs ?r)"
        using Suc.prems(2) by (simp_all add: upd_obj_nth)
      note P = same_pool_geometry [OF st(2)] and rp = refused_put [OF Suc.prems(2,3) st(2,3)]
      show ?thesis
      proof (cases "conflicts r c")
        case True
        have loop: "allocate_loop nu r a f (Suc fuel) e = allocate_loop nu ?r a f fuel (e + k + 1)"
          using checks_iff [OF assms(1) wr wc(1)] rp(1) True \<open>e < MaxCIDRs s\<close> Suc.prems(3) 2(1) by (auto simp: eq Let_def)
        have "MaxCIDRs t \<le> e + k + 1 + int fuel" using Suc.prems(5) st(4) P(10) by simp
        with Suc.IH [OF wr gs(2,1), of "e + k + 1"] ex [OF True] have "(\<exists>j u. in_range t j \<and> \<not> refused ?r t j \<and> wf_set u \<and>
             same_pool t u \<and> used u = insert j (used t) \<and>
             allocate_loop nu ?r a f fuel (e + k + 1) = (upd_obj a (put_set f u) ?r, Ret (blk t j))) \<or>
           (\<forall>j. in_range t j \<longrightarrow> refused ?r t j) \<and> (\<exists>u. wf_set u \<and> same_pool t u \<and> used u = used t \<and>
             allocate_loop nu ?r a f fuel (e + k + 1) = (upd_obj a (put_set f u) ?r, Fail (CIDRRangeNoCIDRsRemainingErr (set_Label t))))"
          unfolding rp(2) by blast
        then show ?thesis unfolding loop rp(2) P st(3) upd_obj_upd_obj put_put
          using same_pool_trans [OF st(2)] by blast
      next
        case False
        then have nc: "\<not> cidrInAllocatedList nu ?r c" "\<not> cidrOverlapWithAllocatedList nu ?r c"
          using checks_iff [OF assms(1) wr wc(1)] rp(1) by simp_all
        have tr: "in_range t i" using i(1) P by simp
        have "accepts_cidr t c" using blk_accepted [OF wf_setD(1) [OF st(1)] tr] i(3) P by simp
        then have "nets_intersect (set_ClusterCIDR t) c" by (simp add: accepts_cidr_def)
        from Occupy_spec(1) [OF assms(1) wr gs(2) wc(1), of t] this gs(1) wc(2) obtain u where
          u: "Occupy nu ?r a c = (upd_obj a (put_set f u) ?r, Ret ())" "wf_set u" "same_pool t u" "used u = used t \<union> touching t c"
          by blast
        have tc: "touching t c = {i}" using touching_blk [OF wf_setD(1) [OF st(1)] tr] i(3) P by simp
        let ?v = "UpdateEvaluatedCount u (e + k)"
        have "allocate_loop nu r a f (Suc fuel) e = (upd_obj a (put_set f ?v) r, Ret (blk s i))"
          using True Suc.prems(2,3) 2(1) nc u(1) i(3) by (simp add: eq Let_def upd_obj_upd_obj)
        moreover have "same_pool s ?v" using same_pool_trans [OF same_pool_trans [OF st(2) u(3)]] by simp
        ultimately show ?thesis
          using i False u(2,4) tc st(3) by (intro disjI1 exI [of _ i] exI [of _ ?v]) (simp add: refused_def)
      qed
    qed
  qed
qed

end
