(* ===== verification/MatchingOrder.thy ===== *)
theory MatchingOrder
  imports AllocatorLemmas
begin

text \<open>\<open>orderedMatchingClusterCIDRs\<close>: which objects it returns and in which order.\<close>

definition match_item :: "int \<Rightarrow> string \<Rightarrow> nat \<Rightarrow> PriorityQueueItem" where
  "match_item cnt label a = \<lparr> pqi_clusterCIDR = a, labelMatchCount = cnt, selectorString = label, pqi_index = 0 \<rparr>"

definition eligible :: "store \<Rightarrow> bool \<Rightarrow> nat list \<Rightarrow> nat list" where
  "eligible st occ l = filter (\<lambda>a. \<not> occ \<or> \<not> Terminating (st ! a)) l"

fun matching_items ::
    "('sel, 'req) LabelsLib \<Rightarrow> Node \<Rightarrow> bool \<Rightarrow> store \<Rightarrow> (string \<times> nat list) list \<Rightarrow> PriorityQueueItem list" where
  "matching_items lib node occ st [] = []"
| "matching_items lib node occ st ((label, l) # rest) =
     (case matchCIDRLabels lib node label of
        Inr (True, cnt) \<Rightarrow> map (match_item cnt label) (eligible st occ l)
      | _ \<Rightarrow> []) @ matching_items lib node occ st rest"

definition catch_all :: "('sel, 'req) LabelsLib \<Rightarrow> (string \<times> nat list) list \<Rightarrow> nat list" where
  "catch_all lib m =
     (case nodeSelectorAsSelector lib (Some defaultNodeSelector) of
        Inl _ \<Rightarrow> []
      | Inr sel \<Rightarrow> (case map_of m (labels_String lib sel) of Some l \<Rightarrow> l | None \<Rightarrow> []))"

lemma push_list_eq: "push_list st occ label cnt pq l = pq_push_all st pq (map (match_item cnt label) (eligible st occ l))"
  by (induction l arbitrary: pq) (auto simp: eligible_def match_item_def split: option.split)

lemma match_item_content [simp]: "item_content (match_item cnt label a) = (a, cnt, label)"
  by (simp add: match_item_def item_content_def)

lemma push_matching_spec:
  assumes "pq.heap_list st pq" "\<And>a. a \<in> set (concat (map snd m)) \<Longrightarrow> has_set (st ! a)"
  shows "(\<exists>e. push_matching lib node occ st pq m = Fail e) \<or>
    (\<exists>q. push_matching lib node occ st pq m = Ret q \<and> pq.heap_list st q \<and>
       mset (map item_content q) = mset (map item_content (pq @ matching_items lib node occ st m)))"
  using assms
proof (induction lib node occ st pq m rule: push_matching.induct)
  case (1 lib node occ st pq)
  then show ?case by simp
next
  case (2 lib node occ st pq label l rest)
  show ?case
  proof (cases "matchCIDRLabels lib node label")
    case (Inr res)
    obtain b cnt where res: "res = (b, cnt)" by force
    show ?thesis
    proof (cases b)
      case False
      with 2(1) [OF Inr res [symmetric]] 2(3,4) Inr res show ?thesis by simp
    next
      case True
      let ?items = "map (match_item cnt label) (eligible st occ l)"
      have "pq.all_ok st ?items" using 2(4) by (auto simp: pq.all_ok_def eligible_def)
      from pq.push_all_spec [OF 2(3) this] obtain q where
        q: "push_list st occ label cnt pq l = Some q" "pq.heap_list st q"
          "mset (map item_content q) = mset (map item_content (pq @ ?items))"
        by (auto simp: push_list_eq pq_push_all_eq)
      from 2(2) [OF Inr res [symmetric] _ q(1) q(2)] 2(4) True q(3) Inr res q(1) show ?thesis by auto
    qed
  qed simp
qed

lemma push_matching_ok:
  assumes "push_matching lib node occ st pq m = Ret q" "(label, l) \<in> set m"
  shows "\<exists>x. matchCIDRLabels lib node label = Inr x"
  using assms
  by (induction lib node occ st pq m rule: push_matching.induct) (auto split: sum.splits prod.splits if_splits option.splits)

lemma ordered_matching_spec:
  assumes "wf_alloc r"
  shows "(\<exists>e. orderedMatchingClusterCIDRs lib r node occ = Fail e) \<or>
    (\<exists>items. orderedMatchingClusterCIDRs lib r node occ = Ret (map fst items @ catch_all lib (cidrMap r)) \<and>
       sorted (map (priority_of (objs r)) items) \<and>
       mset items = mset (map item_content (matching_items lib node occ (objs r) (cidrMap r))))"
proof -
  let ?m = "matching_items lib node occ (objs r) (cidrMap r)"
  have ok: "has_set (objs r ! a)" if "a \<in> set (concat (map snd (cidrMap r)))" for a
    using that assms mapped_bound [OF assms, of a] wf_alloc_nth [OF assms, of a] by (simp add: mapped_def wf_cc_def)
  have "pq.heap_list (objs r) []" by (simp add: pq.heap_list_def pq.all_ok_def heap_ordered_def)
  then have "(\<exists>e. push_matching lib node occ (objs r) [] (cidrMap r) = Fail e) \<or>
    (\<exists>q. push_matching lib node occ (objs r) [] (cidrMap r) = Ret q \<and> pq.heap_list (objs r) q \<and>
       mset (map item_content q) = mset (map item_content ([] @ ?m)))"
    by (rule push_matching_spec) (rule ok)
  then show ?thesis
  proof (elim disjE exE conjE)
    fix e assume "push_matching lib node occ (objs r) [] (cidrMap r) = Fail e"
    then show ?thesis by (simp add: orderedMatchingClusterCIDRs_def)
  next
    fix q assume q: "push_matching lib node occ (objs r) [] (cidrMap r) = Ret q" "pq.heap_list (objs r) q"
      "mset (map item_content q) = mset (map item_content ([] @ ?m))"
    from pq.pop_all_spec [OF q(2)] obtain ys where
      y: "pop_all (pq_Less (objs r)) pq_place pq_out (length q) q = Some ys"
        "sorted (map (\<lambda>y. priority_of (objs r) (item_content y)) ys)" "mset (map item_content ys) = mset (map item_content q)"
      by blast
    have d: "pq_drain (objs r) (length q) q = Some (map fst (map item_content ys))"
      using y(1) by (simp add: pq_drain_eq item_content_def comp_def)
    show ?thesis
    proof (cases "nodeSelectorAsSelector lib (Some defaultNodeSelector)")
      case (Inl e)
      then show ?thesis using q(1) d by (simp add: orderedMatchingClusterCIDRs_def)
    next
      case (Inr sel)
      have "orderedMatchingClusterCIDRs lib r node occ = Ret (map fst (map item_content ys) @ catch_all lib (cidrMap r))"
        using q(1) d Inr by (simp add: orderedMatchingClusterCIDRs_def catch_all_def split: option.split)
      then show ?thesis using y(2,3) q(3) by (intro disjI2 exI [of _ "map item_content ys"]) (simp add: comp_def)
    qed
  qed
qed

lemma matching_items_mapped: "a \<in> pqi_clusterCIDR ` set (matching_items lib node occ st m) \<Longrightarrow> a \<in> set (concat (map snd m))"
  by (induction lib node occ st m rule: matching_items.induct)
    (auto simp: match_item_def eligible_def split: sum.splits prod.splits bool.splits)

lemma catch_all_mapped: "set (catch_all lib m) \<subseteq> set (concat (map snd m))"
proof (cases "nodeSelectorAsSelector lib (Some defaultNodeSelector)")
  case (Inl e)
  then show ?thesis by (simp add: catch_all_def)
next
  case (Inr sel)
  show ?thesis
  proof (cases "map_of m (labels_String lib sel)")
    case (Some l)
    then show ?thesis using map_of_SomeD [OF Some] by (force simp: catch_all_def Inr)
  qed (simp add: catch_all_def Inr)
qed

lemma ordered_matching_mapped:
  assumes "wf_alloc r" "orderedMatchingClusterCIDRs lib r node occ = Ret l"
  shows "set l \<subseteq> set (mapped r)"
proof -
  from ordered_matching_spec [OF assms(1), of lib node occ] assms(2) obtain items where
    l: "l = map fst items @ catch_all lib (cidrMap r)"
    and m: "mset items = mset (map item_content (matching_items lib node occ (objs r) (cidrMap r)))" by auto
  have "set items = item_content ` set (matching_items lib node occ (objs r) (cidrMap r))"
    using mset_eq_setD [OF m] by simp
  then have "fst ` set items = pqi_clusterCIDR ` set (matching_items lib node occ (objs r) (cidrMap r))"
    by (simp add: image_image item_content_def)
  then show ?thesis
    unfolding l mapped_def using matching_items_mapped catch_all_mapped [of lib "cidrMap r"] by fastforce
qed

end
