(* ===== verification/AllocatorSafety.thy ===== *)
theory AllocatorSafety
  imports MatchingOrder
begin

text \<open>What the allocator's operations keep: an operation that does not release leaves every handed-out CIDR
  and every association of a node in place (\<open>grows\<close>), and a CIDR it hands out overlaps nothing handed out
  before.\<close>

definition assoc_names :: "allocator \<Rightarrow> nat \<Rightarrow> string set" where
  "assoc_names r a = fst ` set (AssociatedNodes (objs r ! a))"

definition grows :: "allocator \<Rightarrow> allocator \<Rightarrow> bool" where
  "grows r r' \<longleftrightarrow> set (mapped r) \<subseteq> set (mapped r') \<and> length (objs r) \<le> length (objs r') \<and>
     (\<forall>a < length (objs r). (\<forall>f. busy r a f \<subseteq> busy r' a f) \<and> assoc_names r a \<subseteq> assoc_names r' a)"

definition same_shape :: "allocator \<Rightarrow> allocator \<Rightarrow> bool" where
  "same_shape r r' \<longleftrightarrow> cidrMap r' = cidrMap r \<and> length (objs r') = length (objs r) \<and>
     (\<forall>a < length (objs r). \<forall>f. rel_option same_pool (get_set f (objs r ! a)) (get_set f (objs r' ! a)))"

lemma grows_refl [simp]: "grows r r"
  by (simp add: grows_def)

lemma grows_trans: "grows r s \<Longrightarrow> grows s t \<Longrightarrow> grows r t"
  unfolding grows_def by (meson order_trans less_le_trans subset_trans)

lemma grows_emit [simp]: "grows r (emit e s) = grows r s"
  by (simp add: grows_def assoc_names_def)

lemma same_shape_refl [simp]: "same_shape r r"
  by (simp add: same_shape_def option.rel_refl)

lemma same_shape_trans: "same_shape r s \<Longrightarrow> same_shape s t \<Longrightarrow> same_shape r t"
proof -
  assume a: "same_shape r s" "same_shape s t"
  have "rel_option same_pool x z" if "rel_option same_pool x y" "rel_option same_pool y z" for x y z
    using that same_pool_trans by (cases x; cases y; cases z) auto
  then show ?thesis using a unfolding same_shape_def by simp blast
qed

lemma same_shape_emit [simp]: "same_shape r (emit e s) = same_shape r s"
  by (simp add: same_shape_def)

lemma same_shape_mapped: "same_shape r s \<Longrightarrow> mapped s = mapped r \<and> length (objs s) = length (objs r)"
  by (simp add: same_shape_def mapped_def)

lemma same_shape_set:
  assumes "same_shape r r'" "a < length (objs r)" "get_set f (objs r ! a) = Some s"
  obtains t where "get_set f (objs r' ! a) = Some t" "same_pool s t"
proof -
  have "rel_option same_pool (get_set f (objs r ! a)) (get_set f (objs r' ! a))"
    using assms(1,2) by (simp add: same_shape_def)
  then show ?thesis using that assms(3) by (auto simp: option_rel_Some1)
qed

lemma put_keeps:
  assumes "a < length (objs r)" "get_set f (objs r ! a) = Some s" "same_pool s t" "used s \<subseteq> used t"
  shows "grows r (upd_obj a (put_set f t) r)" "same_shape r (upd_obj a (put_set f t) r)"
proof -
  have "busy r b g \<subseteq> busy (upd_obj a (put_set f t) r) b g" for b g
    using assms same_pool_geometry(2) [OF assms(3)] by (auto simp: busy_put busy_some)
  then show "grows r (upd_obj a (put_set f t) r)" by (auto simp: grows_def assoc_names_def upd_obj_nth)
  show "same_shape r (upd_obj a (put_set f t) r)"
    using assms by (auto simp: same_shape_def upd_obj_nth option.rel_refl)
qed

lemma put_shape:
  assumes "a < length (objs r)" "get_set f (objs r ! a) = Some s" "same_pool s t"
  shows "same_shape r (upd_obj a (put_set f t) r)"
  using assms by (auto simp: same_shape_def upd_obj_nth option.rel_refl)

lemma assoc_get_set [simp]: "get_set f (associate n c) = get_set f c" "get_set f (dissociate n c) = get_set f c"
  by (cases f; simp add: associate_def dissociate_def)+

lemma busy_assoc [simp]: "busy (upd_obj a (associate n) r) = busy r" "busy (upd_obj a (dissociate n) r) = busy r"
  by (auto simp: fun_eq_iff busy_def upd_obj_nth)

lemma keys_update: "fst ` set (AList.update k v m) = insert k (fst ` set m)"
  using dom_update [of k v m] by (simp add: dom_map_of_conv_image_fst)

lemma values_update: "snd ` set m \<subseteq> {v} \<Longrightarrow> snd ` set (AList.update k v m) \<subseteq> {v}"
  by (induction m) (auto split: if_splits)

lemma assoc_fields:
  "has_set (associate n c) = has_set c" "has_set (dissociate n c) = has_set c"
  "AssociatedNodes (associate n c) = AList.update n True (AssociatedNodes c)"
  "AssociatedNodes (dissociate n c) = AList.delete n (AssociatedNodes c)"
  by (simp_all add: has_set_def associate_def dissociate_def)

lemma assoc_wf:
  assumes "wf_cc c"
  shows "wf_cc (associate n c)" "wf_cc (dissociate n c)"
proof -
  have "snd ` set (AList.delete n (AssociatedNodes c)) \<subseteq> {True}"
    using assms by (auto simp: AList.delete_eq wf_cc_def)
  then show "wf_cc (associate n c)" "wf_cc (dissociate n c)"
    using assms values_update [of "AssociatedNodes c" True n]
    by (simp_all add: wf_cc_def assoc_fields distinct_update distinct_delete)
qed

lemma associate_keeps:
  assumes "wf_alloc r"
  shows "wf_alloc (upd_obj a (associate n) r)" "grows r (upd_obj a (associate n) r)" "same_shape r (upd_obj a (associate n) r)"
    "a < length (objs r) \<Longrightarrow> n \<in> assoc_names (upd_obj a (associate n) r) a"
proof -
  show "wf_alloc (upd_obj a (associate n) r)"
    using assms assoc_wf(1) wf_alloc_nth by (intro wf_alloc_upd) blast+
  show "grows r (upd_obj a (associate n) r)"
    by (auto simp: grows_def assoc_names_def upd_obj_nth associate_def keys_update)
  show "same_shape r (upd_obj a (associate n) r)"
    by (auto simp: same_shape_def upd_obj_nth option.rel_refl)
  show "a < length (objs r) \<Longrightarrow> n \<in> assoc_names (upd_obj a (associate n) r) a"
    by (simp add: assoc_names_def upd_obj_nth associate_def keys_update)
qed

lemma conflicts_mono: "grows r r' \<Longrightarrow> wf_alloc r \<Longrightarrow> conflicts r c \<Longrightarrow> conflicts r' c"
  unfolding conflicts_def grows_def using mapped_bound by blast

text \<open>\<open>allocateCIDR\<close>.\<close>

lemma allocateCIDR_spec:
  assumes "netutils_ok nu" "wf_alloc r" "a < length (objs r)" "get_set f (objs r ! a) = Some s"
  shows "(\<exists>i t. in_range s i \<and> i \<notin> used s \<and> \<not> conflicts r (blk s i) \<and> wf_set t \<and> same_pool s t \<and> used t = insert i (used s) \<and>
       allocateCIDR nu r a f = (upd_obj a (put_set f t) r, Ret (blk s i))) \<or>
     (\<forall>i. in_range s i \<longrightarrow> i \<in> used s \<or> conflicts r (blk s i)) \<and>
     (\<exists>t. wf_set t \<and> same_pool s t \<and> used t = used s \<and>
       allocateCIDR nu r a f = (upd_obj a (put_set f t) r, Fail (CIDRRangeNoCIDRsRemainingErr (set_Label s))))"
proof -
  have w: "wf_set s" using wf_alloc_set(1) [OF assms(2-4)] .
  then have "pool_invar (nu, s)" using netutils_okD(1) [OF assms(1)] by (simp add: pool_invar_def)
  from mcs.examined_start [OF this, of "refused r s"]
  have "mcs.examined (refused r s) (nextCandidate s) (nu, s) 0" by simp
  from allocate_loop_spec [OF assms this, of "nat (MaxCIDRs s)"] show ?thesis
    using assms(4) by (simp add: allocateCIDR_def refused_def)
qed

lemma allocate_family_spec:
  assumes "netutils_ok nu" "wf_alloc r" "a < length (objs r)" "allocate_family nu r a f = (r', res)"
  shows "wf_alloc r' \<and> grows r r' \<and> same_shape r r' \<and> res \<noteq> Panic \<and> effects r' = effects r \<and>
    (\<forall>cs. res = Ret cs \<longrightarrow> length cs \<le> 1 \<and> (cs = [] \<longleftrightarrow> get_set f (objs r ! a) = None) \<and>
       (\<forall>c \<in> set cs. wf_net c \<and> family_of c = f \<and> \<not> conflicts r c \<and> c \<in> busy r' a f))"
proof (cases "get_set f (objs r ! a)")
  case None
  then show ?thesis using assms(2,4) by (auto simp: allocate_family_def)
next
  case (Some s)
  note w = wf_alloc_set [OF assms(2,3) Some]
  from allocateCIDR_spec [OF assms(1-3) Some] show ?thesis
  proof (elim disjE exE conjE)
    fix i t assume i: "in_range s i" "i \<notin> used s" "\<not> conflicts r (blk s i)" and t: "wf_set t" "same_pool s t" "used t = insert i (used s)"
      and eq: "allocateCIDR nu r a f = (upd_obj a (put_set f t) r, Ret (blk s i))"
    have "blk s i \<in> busy (upd_obj a (put_set f t) r) a f"
      using assms(3) t(3) same_pool_geometry(2) [OF t(2)] by (simp add: busy_put)
    moreover have "wf_net (blk s i)" "family_of (blk s i) = f"
      using wf_net_blk [OF wf_setD(1) [OF w(1)] i(1)] w(2) by (simp_all add: family_of_def)
    ultimately show ?thesis
      using eq assms(4) Some i(3) wf_alloc_put [OF assms(2) Some t(1,2)] put_keeps [OF assms(3) Some t(2)] t(3)
      by (auto simp: allocate_family_def)
  next
    fix t assume t: "wf_set t" "same_pool s t" "used t = used s"
      and eq: "allocateCIDR nu r a f = (upd_obj a (put_set f t) r, Fail (CIDRRangeNoCIDRsRemainingErr (set_Label s)))"
    show ?thesis
      using eq assms(4) Some wf_alloc_put [OF assms(2) Some t(1,2)] put_keeps [OF assms(3) Some t(2)] t(3)
      by (auto simp: allocate_family_def)
  qed
qed

definition fresh_grant :: "allocator \<Rightarrow> allocator \<Rightarrow> IPNet list \<Rightarrow> nat \<Rightarrow> bool" where
  "fresh_grant r r' cs a \<longleftrightarrow> cs \<noteq> [] \<and> distinct (map family_of cs) \<and>
     (\<forall>c \<in> set cs. wf_net c \<and> \<not> conflicts r c \<and> c \<in> busy r' a (family_of c))"

lemma fresh_grant_mono: "grows r s \<Longrightarrow> wf_alloc r \<Longrightarrow> fresh_grant s r' cs a \<Longrightarrow> fresh_grant r r' cs a"
  unfolding fresh_grant_def using conflicts_mono by blast

lemma both_families:
  assumes "netutils_ok nu" "wf_alloc r" "a < length (objs r)"
    "allocate_family nu r a V4 = (r1, Ret c4)" "allocate_family nu r1 a V6 = (r2, Ret c6)"
  shows "fresh_grant r r2 (c4 @ c6) a"
proof -
  note s1 = allocate_family_spec [OF assms(1-4)]
  then have w1: "wf_alloc r1" "grows r r1" "same_shape r r1" "a < length (objs r1)"
    using same_shape_mapped [of r r1] assms(3) by auto
  note s2 = allocate_family_spec [OF assms(1) w1(1,4) assms(5)]
  have c4: "length c4 \<le> 1" "c4 = [] \<longleftrightarrow> get_set V4 (objs r ! a) = None"
    "\<And>c. c \<in> set c4 \<Longrightarrow> wf_net c \<and> family_of c = V4 \<and> \<not> conflicts r c \<and> c \<in> busy r1 a V4"
    using s1 by auto
  have c6: "length c6 \<le> 1" "c6 = [] \<longleftrightarrow> get_set V6 (objs r1 ! a) = None"
    "\<And>c. c \<in> set c6 \<Longrightarrow> wf_net c \<and> family_of c = V6 \<and> \<not> conflicts r1 c \<and> c \<in> busy r2 a V6"
    using s2 by auto
  have "busy r1 a V4 \<subseteq> busy r2 a V4" using s2 w1(4) by (simp add: grows_def)
  then have each: "wf_net c \<and> \<not> conflicts r c \<and> c \<in> busy r2 a (family_of c)" if "c \<in> set (c4 @ c6)" for c
    using that c4(3) [of c] c6(3) [of c] conflicts_mono [OF w1(2) assms(2), of c] by auto
  have "c4 @ c6 \<noteq> []"
  proof
    assume "c4 @ c6 = []"
    then have n: "get_set V4 (objs r ! a) = None" "get_set V6 (objs r1 ! a) = None" using c4(2) c6(2) by simp_all
    then have "get_set V6 (objs r ! a) = None"
      using same_shape_set [OF w1(3) assms(3), of V6] by (metis not_Some_eq option.distinct(1))
    then show False using n wf_alloc_nth [OF assms(2,3)] by (simp add: wf_cc_def has_set_def)
  qed
  moreover have "distinct (map family_of c4)" "distinct (map family_of c6)"
    using c4(1) c6(1) by (cases c4; simp; cases c6; simp)+
  then have "distinct (map family_of (c4 @ c6))" using c4(3) c6(3) by fastforce
  ultimately show ?thesis using each by (simp add: fresh_grant_def)
qed

lemma allocate_in_order_spec:
  assumes "netutils_ok nu" "wf_alloc r" "set as \<subseteq> {..<length (objs r)}" "allocate_in_order nu r as = (r', res)"
  shows "wf_alloc r' \<and> grows r r' \<and> same_shape r r' \<and> res \<noteq> Panic \<and> effects r' = effects r \<and>
    (\<forall>cs a. res = Ret (cs, a) \<longrightarrow> a \<in> set as \<and> fresh_grant r r' cs a)"
  using assms(2-)
proof (induction as arbitrary: r)
  case Nil
  then show ?case by auto
next
  case (Cons a as)
  have a: "a < length (objs r)" using Cons.prems(2) by simp
  obtain r1 res1 where f1: "allocate_family nu r a V4 = (r1, res1)" by force
  note s1 = allocate_family_spec [OF assms(1) Cons.prems(1) a f1]
  have l1: "a < length (objs r1)" using s1 same_shape_mapped [of r r1] a by simp
  have later: ?case if step: "wf_alloc s" "grows r s" "same_shape r s" "effects s = effects r"
    and eq: "allocate_in_order nu s as = (r', res)" for s
  proof -
    have "set as \<subseteq> {..<length (objs s)}" using Cons.prems(2) same_shape_mapped [OF step(3)] by simp
    from Cons.IH [OF step(1) this eq] have ih: "wf_alloc r'" "grows s r'" "same_shape s r'" "res \<noteq> Panic" "effects r' = effects s"
      "\<And>cs b. res = Ret (cs, b) \<Longrightarrow> b \<in> set as \<and> fresh_grant s r' cs b" by blast+
    show ?thesis
      using ih(1,4) grows_trans [OF step(2) ih(2)] same_shape_trans [OF step(3) ih(3)] ih(5) step(4)
        fresh_grant_mono [OF step(2) Cons.prems(1)] ih(6) by (metis list.set_intros(2))
  qed
  show ?case
  proof (cases res1)
    case (Ret c4)
    obtain r2 res2 where f2: "allocate_family nu r1 a V6 = (r2, res2)" by force
    have s2: "wf_alloc r2" "grows r1 r2" "same_shape r1 r2" "res2 \<noteq> Panic" "effects r2 = effects r1"
      using allocate_family_spec [OF assms(1) _ l1 f2] s1 by blast+
    have w1: "grows r r1" "same_shape r r1" using s1 by blast+
    have g: "grows r r2" "same_shape r r2"
      by (rule grows_trans [OF w1(1) s2(2)], rule same_shape_trans [OF w1(2) s2(3)])
    show ?thesis
    proof (cases res2)
      case (Fail e)
      then have "allocate_in_order nu r2 as = (r', res)" using Cons.prems(3) f1 f2 Ret by simp
      moreover have "effects r2 = effects r" using s1 s2(5) by simp
      ultimately show ?thesis using later [of r2] s2(1) g by blast
    next
      case R6: (Ret c6)
      have out: "r' = r2" "res = Ret (c4 @ c6, a)" using Cons.prems(3) f1 f2 Ret R6 by simp_all
      have "fresh_grant r r2 (c4 @ c6) a" using both_families [OF assms(1) Cons.prems(1) a] f1 f2 Ret R6 by blast
      then show ?thesis unfolding out using s1 s2 g by simp
    qed (use s2(4) in blast)
  next
    case (Fail e)
    then have "allocate_in_order nu r1 as = (r', res)" using Cons.prems(3) f1 by simp
    then show ?thesis using later [of r1] s1 by blast
  next
    case Panic
    then show ?thesis using s1 by blast
  qed
qed

end
