(* ===== verification/AllocatorOps.thy ===== *)
theory AllocatorOps
  imports AllocatorSafety
begin

text \<open>The remaining operations under the invariant: occupying the CIDRs nodes already have, the service
  ranges, releasing, and the life of \<open>ClusterCIDR\<close> objects.\<close>

definition pods_ok :: "NetUtils \<Rightarrow> string list \<Rightarrow> bool" where
  "pods_ok nu pods \<longleftrightarrow> (\<forall>p \<in> set pods. \<forall>ip n. ParseCIDRSloppy nu p = Inr (ip, n) \<longrightarrow> wf_net n)"

definition pod_nets :: "NetUtils \<Rightarrow> string list \<Rightarrow> IPNet set" where
  "pod_nets nu pods = {n. \<exists>p \<in> set pods. \<exists>ip. ParseCIDRSloppy nu p = Inr (ip, n)}"

definition kept :: "allocator \<Rightarrow> allocator \<Rightarrow> bool" where
  "kept r r' \<longleftrightarrow> wf_alloc r' \<and> grows r r' \<and> same_shape r r' \<and> effects r' = effects r"

lemma kept_refl: "wf_alloc r \<Longrightarrow> kept r r"
  by (simp add: kept_def)

lemma kept_trans: "kept r s \<Longrightarrow> kept s t \<Longrightarrow> kept r t"
  unfolding kept_def using grows_trans [of r s t] same_shape_trans [of r s t] by simp

lemma keptD: "kept r r' \<Longrightarrow> wf_alloc r' \<and> mapped r' = mapped r \<and> length (objs r') = length (objs r)"
  using same_shape_mapped [of r r'] by (simp add: kept_def)

definition covered :: "allocator \<Rightarrow> nat \<Rightarrow> IPNet \<Rightarrow> bool" where
  "covered r a n \<longleftrightarrow> (\<exists>s. get_set (family_of n) (objs r ! a) = Some s \<and> nets_intersect (set_ClusterCIDR s) n \<and> touching s n \<subseteq> used s)"

lemma used_kept:
  assumes "grows r r'" "wf_alloc r" "a < length (objs r)" "get_set f (objs r ! a) = Some s" "get_set f (objs r' ! a) = Some t"
    "same_pool s t"
  shows "used s \<subseteq> used t"
proof
  fix i assume i: "i \<in> used s"
  have "blk s i \<in> busy r a f" using i by (simp add: busy_some [OF assms(4)])
  then have "blk s i \<in> busy r' a f" using assms(1,3) unfolding grows_def by blast
  then have "blk s i \<in> blk s ` used t" using same_pool_geometry(2) [OF assms(6)] by (simp add: busy_some [OF assms(5)])
  then obtain j where j: "j \<in> used t" "blk s i = blk s j" by blast
  have "in_range s i" "in_range s j"
    using i j(1) used_subset [of s] used_subset [of t] same_pool_geometry(3) [OF assms(6)] by auto
  then show "i \<in> used t"
    using j blk_inject [OF wf_setD(1) [OF wf_alloc_set(1) [OF assms(2-4)]]] by metis
qed

lemma covered_kept:
  assumes "kept r r'" "wf_alloc r" "a < length (objs r)" "covered r a n"
  shows "covered r' a n"
proof -
  obtain s where s: "get_set (family_of n) (objs r ! a) = Some s" "nets_intersect (set_ClusterCIDR s) n" "touching s n \<subseteq> used s"
    using assms(4) by (auto simp: covered_def)
  have k: "grows r r'" "same_shape r r'" using assms(1) by (simp_all add: kept_def)
  obtain t where t: "get_set (family_of n) (objs r' ! a) = Some t" "same_pool s t"
    using same_shape_set [OF k(2) assms(3) s(1)] .
  have "used s \<subseteq> used t" by (rule used_kept [OF k(1) assms(2,3) s(1) t])
  then show ?thesis using s t by (auto simp: covered_def same_pool_geometry [OF t(2)])
qed

lemma Occupy_kept:
  assumes "netutils_ok nu" "wf_alloc r" "a < length (objs r)" "wf_net c" "Occupy nu r a c = (r', res)"
  shows "kept r r' \<and> (res = Ret () \<longrightarrow> covered r' a c) \<and> (res = Panic \<longleftrightarrow> get_set (family_of c) (objs r ! a) = None)"
proof (cases "get_set (family_of c) (objs r ! a)")
  case None
  then show ?thesis using Occupy_nil [OF assms(1,4)] assms(2,5) by (simp add: kept_refl)
next
  case (Some s)
  note sp = Occupy_spec [OF assms(1-4) Some]
  show ?thesis
  proof (cases "nets_intersect (set_ClusterCIDR s) c")
    case True
    from sp(1) [OF True] obtain t where t: "Occupy nu r a c = (upd_obj a (put_set (family_of c) t) r, Ret ())"
      "wf_set t" "same_pool s t" "used t = used s \<union> touching s c" by blast
    have "used s \<subseteq> used t" using t(4) by blast
    then have "kept r r'"
      using t(1) assms(5) wf_alloc_put [OF assms(2) Some t(2,3)] put_keeps [OF assms(3) Some t(3)] by (auto simp: kept_def)
    moreover have "covered r' a c"
      using t assms(3,5) True by (auto simp: covered_def upd_obj_nth same_pool_geometry [OF t(3)])
    ultimately show ?thesis using t(1) assms(5) Some by simp
  next
    case False
    from sp(2) [OF False] show ?thesis using assms(2,5) Some by (auto simp: kept_refl)
  qed
qed

lemma occupy_pod_cidrs_kept:
  assumes "netutils_ok nu" "wf_alloc r" "a < length (objs r)" "pods_ok nu pods" "occupy_pod_cidrs nu r a pods = (r', res)"
  shows "kept r r' \<and> (res = Ret True \<longrightarrow> (\<forall>n \<in> pod_nets nu pods. covered r' a n))"
  using assms(2-)
proof (induction pods arbitrary: r)
  case Nil
  then show ?case by (auto simp: pod_nets_def kept_refl)
next
  case (Cons p pods)
  show ?case
  proof (cases "ParseCIDRSloppy nu p")
    case (Inl e)
    then show ?thesis using Cons.prems by (auto simp: kept_refl)
  next
    case (Inr x)
    then obtain ip n where p: "ParseCIDRSloppy nu p = Inr (ip, n)" by (cases x) auto
    then have n: "wf_net n" "pods_ok nu pods" using Cons.prems(3) by (auto simp: pods_ok_def)
    obtain r1 o1 where o: "Occupy nu r a n = (r1, o1)" by force
    note k = Occupy_kept [OF assms(1) Cons.prems(1,2) n(1) o]
    show ?thesis
    proof (cases o1)
      case (Ret u)
      have "occupy_pod_cidrs nu r1 a pods = (r', res)" using Cons.prems(4) p o Ret by simp
      moreover have "wf_alloc r1" "a < length (objs r1)" using k keptD [of r r1] Cons.prems(2) by auto
      ultimately have ih: "kept r1 r'" "res = Ret True \<Longrightarrow> \<forall>m \<in> pod_nets nu pods. covered r' a m"
        using Cons.IH n(2) by blast+
      have "covered r' a n" using covered_kept [OF ih(1) \<open>wf_alloc r1\<close> \<open>a < length (objs r1)\<close>] k Ret by simp
      moreover have "pod_nets nu (p # pods) = insert n (pod_nets nu pods)" using p by (auto simp: pod_nets_def)
      ultimately show ?thesis using ih k kept_trans [of r r1 r'] by auto
    qed (use Cons.prems(4) p o k in auto)
  qed
qed

lemma occupy_in_order_kept:
  assumes "netutils_ok nu" "wf_alloc r" "set as \<subseteq> {..<length (objs r)}" "pods_ok nu (node_PodCIDRs node)"
    "occupy_in_order nu r node as = (r', res)"
  shows "kept r r' \<and> (res = Ret () \<longrightarrow> (\<exists>a \<in> set as. node_Name node \<in> assoc_names r' a \<and>
    (\<forall>n \<in> pod_nets nu (node_PodCIDRs node). covered r' a n)))"
  using assms(2-)
proof (induction as arbitrary: r)
  case Nil
  then show ?case by (auto simp: kept_refl)
next
  case (Cons a as)
  obtain r1 o1 where o: "occupy_pod_cidrs nu r a (node_PodCIDRs node) = (r1, o1)" by force
  have a: "a < length (objs r)" using Cons.prems(2) by simp
  note k = occupy_pod_cidrs_kept [OF assms(1) Cons.prems(1) a Cons.prems(3) o]
  have w1: "wf_alloc r1" "length (objs r1) = length (objs r)" using k keptD [of r r1] by auto
  consider "o1 = Ret True" | "o1 = Ret False" | "o1 \<noteq> Ret True" "o1 \<noteq> Ret False" by blast
  then show ?case
  proof cases
    case 1
    then have out: "r' = upd_obj a (associate (node_Name node)) r1" "res = Ret ()" using Cons.prems(4) o by simp_all
    note ak = associate_keeps [OF w1(1), of a "node_Name node"]
    have k1: "kept r1 r'" using ak(1-3) by (simp add: kept_def out)
    have "covered r' a n" if "n \<in> pod_nets nu (node_PodCIDRs node)" for n
      using covered_kept [OF k1 w1(1)] k 1 that a w1(2) by simp
    moreover have "node_Name node \<in> assoc_names r' a" using ak(4) a w1(2) by (simp add: out)
    ultimately show ?thesis using kept_trans [of r r1 r'] k k1 by auto
  next
    case 2
    then have "occupy_in_order nu r1 node as = (r', res)" using Cons.prems(4) o by simp
    then show ?thesis using Cons.IH [OF w1(1)] Cons.prems(2,3) w1(2) k kept_trans [of r r1 r'] by auto
  next
    case 3
    then have "r' = r1" "res \<noteq> Ret ()" using Cons.prems(4) o by (cases o1; auto)+
    then show ?thesis using k by auto
  qed
qed

lemma occupyCIDRs_kept:
  assumes "netutils_ok nu" "wf_alloc r" "pods_ok nu (node_PodCIDRs node)" "occupyCIDRs nu lib r node = (r', res)"
  shows "kept r r' \<and> (res = Ret () \<and> node_PodCIDRs node \<noteq> [] \<longrightarrow> (\<exists>a \<in> set (mapped r). node_Name node \<in> assoc_names r' a \<and>
    (\<forall>n \<in> pod_nets nu (node_PodCIDRs node). covered r' a n)))"
proof (cases "node_PodCIDRs node = []")
  case True
  then show ?thesis using assms by (auto simp: occupyCIDRs_def kept_refl)
next
  case False
  show ?thesis
  proof (cases "orderedMatchingClusterCIDRs lib r node True")
    case (Ret l)
    have m: "set l \<subseteq> set (mapped r)" by (rule ordered_matching_mapped [OF assms(2) Ret])
    then have l: "set l \<subseteq> {..<length (objs r)}" using mapped_bound [OF assms(2)] by blast
    show ?thesis
    proof (cases "l = []")
      case False
      then have "occupy_in_order nu r node l = (r', res)" using assms(4) Ret \<open>node_PodCIDRs node \<noteq> []\<close> by (simp add: occupyCIDRs_def)
      from occupy_in_order_kept [OF assms(1,2) l assms(3) this] m show ?thesis by blast
    qed (use assms(2,4) Ret \<open>node_PodCIDRs node \<noteq> []\<close> in \<open>auto simp: occupyCIDRs_def kept_refl\<close>)
  qed (use assms(2,4) False in \<open>auto simp: occupyCIDRs_def kept_refl\<close>)
qed

text \<open>The service ranges.\<close>

lemma occupyServiceCIDR_kept:
  assumes "netutils_ok nu" "wf_alloc r" "a < length (objs r)" "wf_net c" "occupyServiceCIDR nu r a c = (r', res)"
  shows "kept r r' \<and> (res = Panic \<longleftrightarrow> get_set (family_of c) (objs r ! a) = None) \<and>
    (\<forall>s. get_set (family_of c) (objs r ! a) = Some s \<longrightarrow> \<not> nets_intersect (set_ClusterCIDR s) c \<or> covered r' a c)"
proof -
  have as: "associatedCIDRSet nu (objs r ! a) c = Inr (get_set (family_of c) (objs r ! a))"
    by (simp add: associatedCIDRSet_def cidr_family_wf [OF assms(1,4)])
  show ?thesis
  proof (cases "get_set (family_of c) (objs r ! a)")
    case None
    then show ?thesis using assms(2,5) as by (simp add: occupyServiceCIDR_def kept_refl)
  next
    case (Some s)
    obtain r1 o1 where o: "Occupy nu r a c = (r1, o1)" by force
    note k = Occupy_kept [OF assms(1-4) o]
    show ?thesis
    proof (cases "nets_intersect (set_ClusterCIDR s) c")
      case True
      then have "o1 = Ret ()" using Occupy_spec(1) [OF assms(1-4) Some] o by auto
      then show ?thesis using True k o as Some assms(5) by (auto simp: occupyServiceCIDR_def)
    qed (use as Some assms(2,5) in \<open>auto simp: occupyServiceCIDR_def kept_refl\<close>)
  qed
qed

lemma filter_service_loop_kept:
  assumes "netutils_ok nu" "wf_alloc r" "set as \<subseteq> {..<length (objs r)}" "wf_net c" "filter_service_loop nu r c as = (r', res)"
  shows "kept r r' \<and> (res = Ret () \<longrightarrow> (\<forall>a \<in> set as. \<forall>s. get_set (family_of c) (objs r ! a) = Some s \<longrightarrow>
    \<not> nets_intersect (set_ClusterCIDR s) c \<or> covered r' a c)) \<and>
    (res = Panic \<longleftrightarrow> (\<exists>a \<in> set as. get_set (family_of c) (objs r ! a) = None)) \<and> (res = Ret () \<or> res = Panic)"
  using assms(2-)
proof (induction as arbitrary: r)
  case Nil
  then show ?case by (auto simp: kept_refl)
next
  case (Cons a as)
  have a: "a < length (objs r)" using Cons.prems(2) by simp
  obtain r1 o1 where o: "occupyServiceCIDR nu r a c = (r1, o1)" by force
  note k = occupyServiceCIDR_kept [OF assms(1) Cons.prems(1) a assms(4) o]
  have w1: "wf_alloc r1" "length (objs r1) = length (objs r)" "same_shape r r1" using k keptD [of r r1] by (auto simp: kept_def)
  show ?case
  proof (cases "o1 = Panic")
    case True
    then show ?thesis using Cons.prems(4) o k by auto
  next
    case False
    then have eq: "filter_service_loop nu r1 c as = (r', res)" using Cons.prems(4) o by (cases o1) auto
    from Cons.IH [OF w1(1) _ assms(4) eq] Cons.prems(2) w1(2)
    have ih: "kept r1 r'" "res = Ret () \<Longrightarrow> b \<in> set as \<Longrightarrow> get_set (family_of c) (objs r1 ! b) = Some t \<Longrightarrow>
        \<not> nets_intersect (set_ClusterCIDR t) c \<or> covered r' b c"
      "res = Panic \<longleftrightarrow> (\<exists>b \<in> set as. get_set (family_of c) (objs r1 ! b) = None)" "res = Ret () \<or> res = Panic" for b t
      by auto
    have rel: "rel_option same_pool (get_set (family_of c) (objs r ! b)) (get_set (family_of c) (objs r1 ! b))" if "b \<in> set as" for b
      using w1(3) Cons.prems(2) that by (auto simp: same_shape_def)
    have pan: "res = Panic \<longleftrightarrow> (\<exists>b \<in> set (a # as). get_set (family_of c) (objs r ! b) = None)"
      using ih(3) rel k False by (metis list.set_intros(1,2) option.rel_distinct(1,2) option.exhaust set_ConsD)
    have "\<not> nets_intersect (set_ClusterCIDR s) c \<or> covered r' b c"
      if h: "res = Ret ()" "b \<in> set (a # as)" "get_set (family_of c) (objs r ! b) = Some s" for b s
    proof (cases "b \<in> set as")
      case True
      then obtain t where t: "get_set (family_of c) (objs r1 ! b) = Some t" "same_pool s t"
        using rel [OF True] h(3) by (auto simp: option_rel_Some1)
      then show ?thesis using ih(2) [OF h(1) True t(1)] same_pool_geometry(9) [OF t(2)] by simp
    next
      case False
      then show ?thesis using h k covered_kept [OF ih(1) w1(1)] a w1(2) by auto
    qed
    then show ?thesis using ih(1,4) pan k kept_trans [of r r1 r'] by blast
  qed
qed

text \<open>Releasing: only CIDRs that overlap what is released, in the object it is released from, become free.\<close>

definition spares :: "allocator \<Rightarrow> allocator \<Rightarrow> nat \<Rightarrow> IPNet set \<Rightarrow> bool" where
  "spares r r' a C \<longleftrightarrow> wf_alloc r' \<and> same_shape r r' \<and> (\<forall>b < length (objs r). assoc_names r' b = assoc_names r b) \<and>
     (\<forall>b < length (objs r). \<forall>f. \<forall>n \<in> busy r b f.
        b \<noteq> a \<or> (\<forall>c \<in> C. family_of c = f \<longrightarrow> addresses n \<inter> addresses c = {}) \<longrightarrow> n \<in> busy r' b f)"

lemma spares_refl: "wf_alloc r \<Longrightarrow> spares r r a C"
  by (simp add: spares_def)

lemma spares_trans: "spares r s a C \<Longrightarrow> spares s t a D \<Longrightarrow> spares r t a (C \<union> D)"
  unfolding spares_def using same_shape_trans [of r s t] same_shape_mapped [of r s] by auto

lemma spares_mono: "spares r s a C \<Longrightarrow> C \<subseteq> D \<Longrightarrow> spares r s a D"
  unfolding spares_def by blast

lemma Release_spares:
  assumes "netutils_ok nu" "wf_alloc r" "a < length (objs r)" "wf_net c" "Release nu r a c = (r', res)"
  shows "spares r r' a {c} \<and> effects r' = effects r \<and> (res = Panic \<longleftrightarrow> get_set (family_of c) (objs r ! a) = None) \<and>
    (res = Ret () \<longrightarrow> (\<forall>n \<in> busy r' a (family_of c). addresses n \<inter> addresses c = {}))"
proof (cases "get_set (family_of c) (objs r ! a)")
  case None
  then show ?thesis using Release_nil [OF assms(1,4)] assms(2,5) by (simp add: spares_refl)
next
  case (Some s)
  note sp = Release_spec [OF assms(1-4) Some]
  show ?thesis
  proof (cases "nets_intersect (set_ClusterCIDR s) c")
    case True
    from sp(1) [OF True] obtain t where t: "Release nu r a c = (upd_obj a (put_set (family_of c) t) r, Ret ())"
      "wf_set t" "same_pool s t" "used t = used s - touching s c" by blast
    have out: "r' = upd_obj a (put_set (family_of c) t) r" "res = Ret ()" using t(1) assms(5) by simp_all
    have b: "busy r' b f = (if b = a \<and> f = family_of c then blk s ` (used s - touching s c) else busy r b f)" for b f
      using t(4) same_pool_geometry(2) [OF t(3)] by (simp add: out busy_put [OF assms(3)])
    have disj: "i \<in> used s \<Longrightarrow> i \<notin> touching s c \<longleftrightarrow> addresses (blk s i) \<inter> addresses c = {}" for i
      using used_subset [of s] by (auto simp: touching_def)
    have "n \<in> busy r' b f" if "n \<in> busy r b f" "b \<noteq> a \<or> (family_of c = f \<longrightarrow> addresses n \<inter> addresses c = {})" for n b f
      using that disj by (auto simp: b busy_some [OF Some])
    moreover have "assoc_names r' b = assoc_names r b" for b by (simp add: out assoc_names_def upd_obj_nth)
    ultimately have "spares r r' a {c}"
      using wf_alloc_put [OF assms(2) Some t(2,3)] put_shape [OF assms(3) Some t(3)] by (simp add: spares_def out)
    moreover have "\<forall>n \<in> busy r' a (family_of c). addresses n \<inter> addresses c = {}" using disj by (auto simp: b)
    ultimately show ?thesis using out Some by simp
  next
    case False
    from sp(2) [OF False] show ?thesis using assms(2,5) Some by (auto simp: spares_refl)
  qed
qed

end
