(* ===== verification/ClusterCIDRLife.thy ===== *)
theory ClusterCIDRLife
  imports AllocatorOps
begin

text \<open>Releasing the CIDRs of a node, settling an allocation with the API server, and the life of the
  internal \<open>ClusterCIDR\<close> objects.\<close>

lemma release_cidrs_spares:
  assumes "netutils_ok nu" "wf_alloc r" "a < length (objs r)" "\<forall>c \<in> set cs. wf_net c" "release_cidrs nu r a cs = (r', res)"
  shows "spares r r' a (set cs) \<and> effects r' = effects r"
  using assms(2-)
proof (induction cs arbitrary: r)
  case Nil
  then show ?case by (simp add: spares_refl)
next
  case (Cons c cs)
  obtain r1 o1 where o: "Release nu r a c = (r1, o1)" by force
  have k: "spares r r1 a {c}" "effects r1 = effects r"
    using Release_spares [OF assms(1) Cons.prems(1,2) _ o] Cons.prems(3) by auto
  then have w1: "wf_alloc r1" "a < length (objs r1)" using same_shape_mapped [of r r1] Cons.prems(2) by (auto simp: spares_def)
  show ?case
  proof (cases o1)
    case (Ret u)
    then have "release_cidrs nu r1 a cs = (r', res)" using Cons.prems(4) o by simp
    with Cons.IH [OF w1] Cons.prems(3) have ih: "spares r1 r' a (set cs)" "effects r' = effects r1" by auto
    then show ?thesis using spares_trans [OF k(1) ih(1)] k(2) by simp
  qed (use Cons.prems(4) o k spares_mono [OF k(1), of "set (c # cs)"] in auto)
qed

lemma release_pod_cidrs_spares:
  assumes "netutils_ok nu" "wf_alloc r" "a < length (objs r)" "pods_ok nu pods" "release_pod_cidrs nu r a pods = (r', res)"
  shows "spares r r' a (pod_nets nu pods) \<and> effects r' = effects r"
  using assms(2-)
proof (induction pods arbitrary: r)
  case Nil
  then show ?case by (simp add: spares_refl)
next
  case (Cons p pods)
  show ?case
  proof (cases "ParseCIDRSloppy nu p")
    case (Inl e)
    then show ?thesis using Cons.prems by (auto simp: spares_refl)
  next
    case (Inr x)
    then obtain ip n where p: "ParseCIDRSloppy nu p = Inr (ip, n)" by (cases x) auto
    then have n: "wf_net n" "pods_ok nu pods" using Cons.prems(3) by (auto simp: pods_ok_def)
    have nets: "pod_nets nu (p # pods) = {n} \<union> pod_nets nu pods" using p by (auto simp: pod_nets_def)
    obtain r1 o1 where o: "Release nu r a n = (r1, o1)" by force
    have k: "spares r r1 a {n}" "effects r1 = effects r"
      using Release_spares [OF assms(1) Cons.prems(1,2) n(1) o] by auto
    then have w1: "wf_alloc r1" "a < length (objs r1)" using same_shape_mapped [of r r1] Cons.prems(2) by (auto simp: spares_def)
    show ?thesis
    proof (cases o1)
      case (Ret u)
      then have "release_pod_cidrs nu r1 a pods = (r', res)" using Cons.prems(4) p o by simp
      with Cons.IH [OF w1 n(2)] have ih: "spares r1 r' a (pod_nets nu pods)" "effects r' = effects r1" by auto
      then show ?thesis unfolding nets using spares_trans [OF k(1) ih(1)] k(2) by simp
    qed (use Cons.prems(4) p o k spares_mono [OF k(1), of "pod_nets nu (p # pods)"] nets in auto)
  qed
qed

lemma patch_loop_state: "patch_loop api r name cs n i err = (r', e) \<Longrightarrow> objs r' = objs r \<and> cidrMap r' = cidrMap r"
  by (induction n arbitrary: r i err) (auto simp: Let_def split: option.splits)

text \<open>What is unchanged by recording effects.\<close>

definition same_data :: "allocator \<Rightarrow> allocator \<Rightarrow> bool" where
  "same_data r r' \<longleftrightarrow> objs r' = objs r \<and> cidrMap r' = cidrMap r"

lemma same_dataD:
  assumes "same_data r r'"
  shows "wf_alloc r' = wf_alloc r" "mapped r' = mapped r" "busy r' = busy r" "assoc_names r' = assoc_names r"
    "same_shape r r'" "length (objs r') = length (objs r)"
  using assms by (simp_all add: same_data_def wf_alloc_def mapped_def busy_def assoc_names_def same_shape_def fun_eq_iff option.rel_refl)

lemma same_data_emit [simp]: "same_data r (emit e s) = same_data r s"
  by (simp add: same_data_def)

lemma same_data_refl [simp]: "same_data r r"
  by (simp add: same_data_def)

lemma spares_data:
  assumes "same_data r s" "spares s t a C"
  shows "spares r t a C"
  using assms(2) same_dataD [OF assms(1)] same_shape_trans [of r s t] by (simp add: spares_def)

lemma update_spares:
  assumes "netutils_ok nu" "wf_alloc r" "a < length (objs r)" "\<forall>c \<in> set cs. wf_net c"
    "updateCIDRsAllocation nu api r cs name a = (r', res)"
  shows "spares r r' a (set cs) \<or>
    (\<exists>node r1. nodeLister_Get api name = Inr node \<and> node_PodCIDRs node = [] \<and>
       patch_loop api r (node_Name node) (ipnetToStringList cs) cidrUpdateRetries 0 None = (r1, None) \<and>
       r' = upd_obj a (associate (node_Name node)) r1 \<and> res = Ret ())"
proof (cases "nodeLister_Get api name")
  case (Inl e)
  then show ?thesis using assms(2,5) by (auto simp: updateCIDRsAllocation_def spares_refl)
next
  case (Inr node)
  show ?thesis
  proof (cases "node_PodCIDRs node = []")
    case False
    then show ?thesis
      using Inr assms(2,5) release_cidrs_spares [OF assms(1-4)]
      by (auto simp: updateCIDRsAllocation_def Let_def spares_refl split: if_splits)
  next
    case True
    obtain r1 e where p: "patch_loop api r (node_Name node) (ipnetToStringList cs) cidrUpdateRetries 0 None = (r1, e)" by force
    have d: "same_data r r1" using patch_loop_state [OF p] by (simp add: same_data_def)
    show ?thesis
    proof (cases "ipnetToStringList cs = []")
      case e0: True
      then show ?thesis using True Inr assms(2,5) by (auto simp: updateCIDRsAllocation_def spares_refl)
    next
      case ne: False
      show ?thesis
      proof (cases e)
        case None
        then show ?thesis using True Inr p ne assms(5) by (auto simp: updateCIDRsAllocation_def Let_def)
      next
        case (Some err)
        let ?r2 = "RecordNodeStatusChange node ''CIDRAssignmentFailed'' r1"
        have d2: "same_data r ?r2" using d by (simp add: RecordNodeStatusChange_def)
        have w2: "wf_alloc ?r2" "a < length (objs ?r2)" using same_dataD [OF d2] assms(2,3) by simp_all
        have "spares ?r2 r' a (set cs)"
        proof (cases "IsServerTimeout api err")
          case True
          then have "r' = ?r2"
            using \<open>node_PodCIDRs node = []\<close> Inr p ne Some assms(5) by (simp add: updateCIDRsAllocation_def Let_def)
          then show ?thesis using w2(1) spares_refl by simp
        next
          case False
          obtain r3 o3 where rel: "release_cidrs nu ?r2 a cs = (r3, o3)" by force
          then have "r' = r3"
            using False \<open>node_PodCIDRs node = []\<close> Inr p ne Some assms(5)
            by (cases o3) (auto simp: updateCIDRsAllocation_def Let_def)
          then show ?thesis using release_cidrs_spares [OF assms(1) w2 assms(4) rel] by simp
        qed
        then show ?thesis using spares_data [OF d2] by blast
      qed
    qed
  qed
qed

lemma ReleaseCIDR_spec:
  assumes "netutils_ok nu" "wf_alloc r" "pods_ok nu (node_PodCIDRs node)" "ReleaseCIDR nu lib r (Some node) = (r', res)"
  shows "wf_alloc r' \<and> same_shape r r' \<and> effects r' = effects r \<and>
    (\<forall>b < length (objs r). assoc_names r b - {node_Name node} \<subseteq> assoc_names r' b) \<and>
    (\<forall>b < length (objs r). \<forall>f. \<forall>n \<in> busy r b f.
       (\<forall>c \<in> pod_nets nu (node_PodCIDRs node). family_of c = f \<longrightarrow> addresses n \<inter> addresses c = {}) \<longrightarrow> n \<in> busy r' b f)"
proof -
  have same: ?thesis if "r' = r" using that assms(2) by auto
  show ?thesis
  proof (cases "node_PodCIDRs node = []")
    case True
    then show ?thesis using assms(4) same by (simp add: ReleaseCIDR_def)
  next
    case False
    show ?thesis
    proof (cases "allocatedClusterCIDR lib r node")
      case (Ret a)
      then obtain l where l: "orderedMatchingClusterCIDRs lib r node False = Ret l" "a \<in> set l"
        by (auto simp: allocatedClusterCIDR_def find_Some_iff split: outcome.splits option.splits)
      have a: "a < length (objs r)" using ordered_matching_mapped [OF assms(2) l(1)] l(2) mapped_bound [OF assms(2)] by blast
      obtain r1 o1 where o: "release_pod_cidrs nu r a (node_PodCIDRs node) = (r1, o1)" by force
      have k: "spares r r1 a (pod_nets nu (node_PodCIDRs node))" "effects r1 = effects r"
        using release_pod_cidrs_spares [OF assms(1,2) a assms(3) o] by auto
      have w: "wf_alloc r1" "same_shape r r1" using k(1) by (auto simp: spares_def)
      let ?d = "upd_obj a (dissociate (node_Name node)) r1"
      have d: "wf_alloc ?d" "same_shape r1 ?d"
        using assoc_wf(2) wf_alloc_nth w(1) by (auto intro!: wf_alloc_upd simp: same_shape_def upd_obj_nth option.rel_refl)
      have "assoc_names r1 b - {node_Name node} \<subseteq> assoc_names ?d b" for b
        by (auto simp: assoc_names_def upd_obj_nth assoc_fields keys_delete)
      then have dis: "r' = ?d \<Longrightarrow> ?thesis"
        using k d same_shape_trans [OF w(2) d(2)] by (auto simp: spares_def)
      have sp: "r' = r1 \<Longrightarrow> ?thesis" using k by (auto simp: spares_def)
      show ?thesis using dis sp assms(4) False Ret o by (cases o1) (auto simp: ReleaseCIDR_def)
    qed (use assms(4) False same in \<open>auto simp: ReleaseCIDR_def\<close>)
  qed
qed

text \<open>Association lists as split lists.\<close>

lemma alist_split:
  assumes "map_of m k = Some l"
  obtains m1 m2 where "m = m1 @ (k, l) # m2" "k \<notin> fst ` set m1" "\<And>v. AList.update k v m = m1 @ (k, v) # m2"
  using assms
proof (induction m arbitrary: thesis)
  case (Cons x m)
  show ?case
  proof (cases "fst x = k")
    case True
    then show ?thesis using Cons.prems by (intro Cons.prems(1) [of "[]" m]) (cases x; auto)+
  next
    case False
    then have "map_of m k = Some l" using Cons.prems(2) by (cases x) auto
    from Cons.IH [OF _ this] obtain m1 m2 where "m = m1 @ (k, l) # m2" "k \<notin> fst ` set m1"
      "\<And>v. AList.update k v m = m1 @ (k, v) # m2" by blast
    then show ?thesis using False by (intro Cons.prems(1) [of "x # m1" m2]) (cases x; auto)+
  qed
qed simp

lemma drop_address:
  assumes "distinct (map fst m)" "distinct (concat (map snd m))" "map_of m k = Some l" "a \<in> set l"
  defines "m' \<equiv> (if length l = 1 then AList.delete k m else AList.update k (remove1 a l) m)"
  shows "set (concat (map snd m')) = set (concat (map snd m)) - {a}" "distinct (concat (map snd m'))" "distinct (map fst m')"
proof -
  obtain m1 m2 where m: "m = m1 @ (k, l) # m2" "k \<notin> fst ` set m1" "\<And>v. AList.update k v m = m1 @ (k, v) # m2"
    using alist_split [OF assms(3)] by metis
  have "AList.delete k m1 = m1" "AList.delete k m2 = m2"
    using assms(1) m(1,2) by (auto intro!: delete_absent)
  then have del: "AList.delete k m = m1 @ m2" by (simp add: m(1) AList.delete_eq)
  let ?A = "set (concat (map snd m1))" and ?B = "set (concat (map snd m2))"
  have d: "distinct l" "set l \<inter> ?B = {}" "?A \<inter> (set l \<union> ?B) = {}" "distinct (concat (map snd m1))" "distinct (concat (map snd m2))"
    using assms(2) by (auto simp: m(1))
  have l1: "length l = 1 \<Longrightarrow> l = [a]" using assms(4) by (cases l) auto
  have r: "set (remove1 a l) = set l - {a}" "distinct (remove1 a l)" using d(1) by (simp_all add: set_remove1_eq)
  have na: "a \<notin> ?A" "a \<notin> ?B" using d(2,3) assms(4) by blast+
  show "set (concat (map snd m')) = set (concat (map snd m)) - {a}"
  proof (cases "length l = 1")
    case True
    then have "m' = m1 @ m2" by (simp add: m'_def del)
    then show ?thesis using na l1 True by (simp add: m(1))
  next
    case False
    then have "m' = m1 @ (k, remove1 a l) # m2" by (simp add: m'_def m(3))
    then show ?thesis using na r(1) by (simp add: m(1) Un_Diff)
  qed
  show "distinct (concat (map snd m'))"
  proof (cases "length l = 1")
    case True
    then show ?thesis using d(3-5) unfolding m'_def del by auto
  next
    case False
    have "set (remove1 a l) \<inter> ?B = {}" "?A \<inter> (set (remove1 a l) \<union> ?B) = {}" using d(2,3) r(1) by blast+
    then show ?thesis using False r(2) d(4,5) unfolding m'_def m(3) by simp
  qed
  show "distinct (map fst m')"
    using assms(1) unfolding m'_def by (simp add: distinct_delete distinct_update)
qed

lemma mark_terminating:
  fixes a :: nat
  assumes "wf_alloc r"
  defines "t \<equiv> upd_obj a (\<lambda>c. c\<lparr>Terminating := True\<rparr>) r"
  shows "wf_alloc t" "busy t = busy r" "assoc_names t = assoc_names r"
proof -
  have gs: "get_set g (c\<lparr>Terminating := True\<rparr>) = get_set g c" for g c by (cases g) simp_all
  show "wf_alloc t" unfolding t_def using assms(1) wf_alloc_nth
    by (intro wf_alloc_upd) (auto simp: wf_cc_def gs has_set_def)
  show "busy t = busy r" "assoc_names t = assoc_names r"
    unfolding t_def by (auto simp: fun_eq_iff busy_def assoc_names_def upd_obj_nth gs)
qed

lemma deleteClusterCIDR_cases:
  assumes "deleteClusterCIDR lib r obj = (r', res)"
  obtains (same) "r' = r"
  | (blocked) a where "AssociatedNodes (objs r ! a) \<noteq> []" "res \<noteq> Ret ()"
      "r' = upd_obj a (\<lambda>c. c\<lparr>Terminating := True\<rparr>) r"
  | (removed) a k l where "map_of (cidrMap r) k = Some l" "a \<in> set l" "AssociatedNodes (objs r ! a) = []" "res = Ret ()"
      "cc_Name (objs r ! a) = obj_Name obj"
      "r' = (upd_obj a (\<lambda>c. c\<lparr>Terminating := True\<rparr>) r)
         \<lparr>cidrMap := (if length l = 1 then AList.delete k (cidrMap r) else AList.update k (remove1 a l) (cidrMap r))\<rparr>"
proof (cases "nodeSelectorKey lib obj")
  case (Inl e)
  then show ?thesis using assms same by (simp add: deleteClusterCIDR_def)
next
  case key: (Inr k)
  show ?thesis
  proof (cases "map_of (cidrMap r) k")
    case None
    then show ?thesis using assms key same by (simp add: deleteClusterCIDR_def)
  next
    case l: (Some l)
    show ?thesis
    proof (cases "find (\<lambda>a. cc_Name (objs r ! a) = obj_Name obj) l")
      case None
      then show ?thesis using assms key l same by (simp add: deleteClusterCIDR_def)
    next
      case f: (Some a)
      then have a: "a \<in> set l" "cc_Name (objs r ! a) = obj_Name obj" by (auto simp: find_Some_iff)
      show ?thesis
      proof (cases "AssociatedNodes (objs r ! a) = []")
        case True
        with assms key l f have "res = Ret ()" "r' = (upd_obj a (\<lambda>c. c\<lparr>Terminating := True\<rparr>) r)
           \<lparr>cidrMap := (if length l = 1 then AList.delete k (cidrMap r) else AList.update k (remove1 a l) (cidrMap r))\<rparr>"
          by (auto simp: deleteClusterCIDR_def Let_def split: if_splits)
        with removed [OF l a(1) True _ a(2)] show ?thesis by blast
      next
        case False
        with assms key l f have "res \<noteq> Ret ()" "r' = upd_obj a (\<lambda>c. c\<lparr>Terminating := True\<rparr>) r"
          by (auto simp: deleteClusterCIDR_def Let_def)
        with blocked [OF False] show ?thesis by blast
      qed
    qed
  qed
qed

lemma deleteClusterCIDR_spec:
  assumes "wf_alloc r" "deleteClusterCIDR lib r obj = (r', res)"
  shows "wf_alloc r' \<and> busy r' = busy r \<and> assoc_names r' = assoc_names r \<and> length (objs r') = length (objs r) \<and>
    effects r' = effects r \<and> set (mapped r') \<subseteq> set (mapped r) \<and>
    (\<forall>a \<in> set (mapped r). assoc_names r a \<noteq> {} \<longrightarrow> a \<in> set (mapped r'))"
  using assms(2)
proof (cases rule: deleteClusterCIDR_cases)
  case same
  then show ?thesis using assms(1) by simp
next
  case (blocked a)
  then show ?thesis using mark_terminating [OF assms(1), of a] by simp
next
  case (removed a k l)
  let ?t = "upd_obj a (\<lambda>c. c\<lparr>Terminating := True\<rparr>) r"
  let ?m = "if length l = 1 then AList.delete k (cidrMap r) else AList.update k (remove1 a l) (cidrMap r)"
  note mt = mark_terminating [OF assms(1), of a]
  have "distinct (map fst (cidrMap r))" "distinct (concat (map snd (cidrMap r)))"
    using assms(1) by (simp_all add: wf_alloc_def mapped_def)
  note da = drop_address [OF this removed(1,2)]
  have f: "mapped r' = concat (map snd ?m)" "cidrMap r' = ?m" "objs r' = objs ?t" "effects r' = effects r"
    "busy r' = busy ?t" "assoc_names r' = assoc_names ?t"
    unfolding removed(6) by (simp_all only: mapped_def busy_def assoc_names_def fun_eq_iff allocator.simps upd_obj_sel allocator.ext_inject) auto
  have "assoc_names r a = {}" using removed(3) by (simp add: assoc_names_def)
  moreover have "set (mapped r') = set (mapped r) - {a}" using da(1) f(1) by (simp add: mapped_def)
  moreover have "wf_alloc r'"
    using mt(1) da(2,3) calculation(2) unfolding wf_alloc_def f by auto
  ultimately show ?thesis using mt(2,3) f(3-6) by auto
qed

text \<open>Creation. A specification is sound when each CIDR text it gives parses, if at all, to a CIDR of the
  right family whose host bits fit (or, for IPv6, to one the set constructor refuses as too large).\<close>

definition text_ok :: "NetUtils \<Rightarrow> family \<Rightarrow> int \<Rightarrow> string \<Rightarrow> bool" where
  "text_ok nu f p text \<longleftrightarrow> text = [] \<or>
     (\<forall>ip n. ParseCIDRSloppy nu text = Inr (ip, n) \<longrightarrow> wf_net n \<and> family_of n = f \<and>
        (fits n p \<or> f = V6 \<and> 128 - p - int (plen n) > 16))"

definition spec_ok :: "NetUtils \<Rightarrow> ClusterCIDRSpec \<Rightarrow> bool" where
  "spec_ok nu spec \<longleftrightarrow> text_ok nu V4 (PerNodeHostBits spec) (spec_IPv4 spec) \<and> text_ok nu V6 (PerNodeHostBits spec) (spec_IPv6 spec)"

lemma make_cidr_set_spec:
  assumes "netutils_ok nu" "text_ok nu f (PerNodeHostBits (obj_Spec obj)) text"
  shows "make_cidr_set nu obj fam text \<noteq> Panic"
    and "make_cidr_set nu obj fam text = Ret x \<Longrightarrow>
      (case x of None \<Rightarrow> text = [] | Some s \<Rightarrow> text \<noteq> [] \<and> wf_set s \<and> family_of (set_ClusterCIDR s) = f \<and> used s = {} \<and>
         (\<exists>ip. ParseCIDRSloppy nu text = Inr (ip, set_ClusterCIDR s)))"
proof -
  have "make_cidr_set nu obj fam text \<noteq> Panic \<and> (\<forall>x. make_cidr_set nu obj fam text = Ret x \<longrightarrow>
      (case x of None \<Rightarrow> text = [] | Some s \<Rightarrow> text \<noteq> [] \<and> wf_set s \<and> family_of (set_ClusterCIDR s) = f \<and> used s = {} \<and>
         (\<exists>ip. ParseCIDRSloppy nu text = Inr (ip, set_ClusterCIDR s))))"
  proof (cases "text = []")
    case True
    then show ?thesis by (simp add: make_cidr_set_def)
  next
    case False
    show ?thesis
    proof (cases "ParseCIDRSloppy nu text")
      case (Inl e)
      then show ?thesis using False by (simp add: make_cidr_set_def)
    next
      case (Inr y)
      then obtain ip n where p: "ParseCIDRSloppy nu text = Inr (ip, n)" by (cases y) auto
      then have n: "wf_net n" "family_of n = f" "fits n (PerNodeHostBits (obj_Spec obj)) \<or> f = V6 \<and> 128 - PerNodeHostBits (obj_Spec obj) - int (plen n) > 16"
        using assms(2) False by (auto simp: text_ok_def)
      note nu = netutils_okD(1) [OF assms(1)]
      show ?thesis
      proof (cases "fits n (PerNodeHostBits (obj_Spec obj))")
        case True
        from NewMultiCIDRSet_ok [OF nu True, of "obj_Name obj"] show ?thesis
          using False p n(2) by (auto simp: make_cidr_set_def)
      next
        case nf: False
        then have "f = V6" "128 - PerNodeHostBits (obj_Spec obj) - int (plen n) > 16" using n(3) by auto
        moreover have "length (net_IP n) = 16" using wf_net_lengths [OF n(1)] n(2) \<open>f = V6\<close> by (auto simp: family_of_def split: if_splits)
        ultimately show ?thesis using NewMultiCIDRSet_too_big [OF nu n(1)] False p by (simp add: make_cidr_set_def)
      qed
    qed
  qed
  then show "make_cidr_set nu obj fam text \<noteq> Panic"
    and "make_cidr_set nu obj fam text = Ret x \<Longrightarrow>
      (case x of None \<Rightarrow> text = [] | Some s \<Rightarrow> text \<noteq> [] \<and> wf_set s \<and> family_of (set_ClusterCIDR s) = f \<and> used s = {} \<and>
         (\<exists>ip. ParseCIDRSloppy nu text = Inr (ip, set_ClusterCIDR s)))" by blast+
qed

lemma createClusterCIDRSet_spec:
  assumes "netutils_ok nu" "spec_ok nu (obj_Spec obj)"
  shows "createClusterCIDRSet nu obj t \<noteq> Panic"
    and "createClusterCIDRSet nu obj t = Ret c \<Longrightarrow> has_set c \<Longrightarrow>
      wf_cc c \<and> cc_Name c = obj_Name obj \<and> Terminating c = t \<and> AssociatedNodes c = [] \<and> (\<forall>f s. get_set f c = Some s \<longrightarrow> used s = {})"
proof -
  let ?m4 = "make_cidr_set nu obj ''IPv4'' (spec_IPv4 (obj_Spec obj))"
    and ?m6 = "make_cidr_set nu obj ''IPv6'' (spec_IPv6 (obj_Spec obj))"
  have ok: "text_ok nu V4 (PerNodeHostBits (obj_Spec obj)) (spec_IPv4 (obj_Spec obj))"
    "text_ok nu V6 (PerNodeHostBits (obj_Spec obj)) (spec_IPv6 (obj_Spec obj))"
    using assms(2) by (simp_all add: spec_ok_def)
  note m4 = make_cidr_set_spec [OF assms(1) ok(1), of "''IPv4''"] and m6 = make_cidr_set_spec [OF assms(1) ok(2), of "''IPv6''"]
  show "createClusterCIDRSet nu obj t \<noteq> Panic"
    using m4(1) m6(1) by (simp add: createClusterCIDRSet_def split: outcome.splits)
  assume c: "createClusterCIDRSet nu obj t = Ret c" "has_set c"
  then obtain s4 s6 where s: "?m4 = Ret s4" "?m6 = Ret s6"
    and ce: "c = \<lparr> cc_Name = obj_Name obj, IPv4CIDRSet = s4, IPv6CIDRSet = s6, AssociatedNodes = [], Terminating = t \<rparr>"
    by (auto simp: createClusterCIDRSet_def split: outcome.splits)
  have "wf_set s \<and> family_of (set_ClusterCIDR s) = f \<and> used s = {}" if "get_set f c = Some s" for f s
    using that m4(2) [OF s(1)] m6(2) [OF s(2)] by (cases f) (auto simp: ce)
  then show "wf_cc c \<and> cc_Name c = obj_Name obj \<and> Terminating c = t \<and> AssociatedNodes c = [] \<and> (\<forall>f s. get_set f c = Some s \<longrightarrow> used s = {})"
    using c(2) by (auto simp: wf_cc_def ce)
qed

lemma append_object:
  assumes "wf_alloc r" "wf_cc c"
  shows "wf_alloc (r\<lparr>objs := objs r @ [c]\<rparr>)" "grows r (r\<lparr>objs := objs r @ [c]\<rparr>)"
proof -
  have m: "mapped (r\<lparr>objs := objs r @ [c]\<rparr>) = mapped r" by (simp add: mapped_def)
  show "wf_alloc (r\<lparr>objs := objs r @ [c]\<rparr>)"
    using assms by (auto simp: wf_alloc_def m nth_append less_Suc_eq)
  show "grows r (r\<lparr>objs := objs r @ [c]\<rparr>)"
    by (auto simp: grows_def m busy_def assoc_names_def nth_append)
qed

lemma map_address:
  assumes "wf_alloc r" "a < length (objs r)" "a \<notin> set (mapped r)"
    "m' = AList.update k (l @ [a]) (cidrMap r)" "l = (case map_of (cidrMap r) k of Some l \<Rightarrow> l | None \<Rightarrow> [])"
  shows "wf_alloc (r\<lparr>cidrMap := m'\<rparr>)" "grows r (r\<lparr>cidrMap := m'\<rparr>)" "set (mapped (r\<lparr>cidrMap := m'\<rparr>)) = insert a (set (mapped r))"
proof -
  have d: "distinct (map fst (cidrMap r))" "distinct (mapped r)" using assms(1) by (simp_all add: wf_alloc_def)
  have mp: "mapped (r\<lparr>cidrMap := m'\<rparr>) = concat (map snd m')" by (simp add: mapped_def)
  have c: "set (concat (map snd m')) = insert a (set (mapped r)) \<and> distinct (concat (map snd m'))"
  proof (cases "map_of (cidrMap r) k")
    case None
    then have "m' = cidrMap r @ [(k, [a])]" using assms(4,5) by (simp add: update_fresh)
    then show ?thesis using d(2) assms(3) by (auto simp: mapped_def)
  next
    case (Some l0)
    obtain m1 m2 where m: "cidrMap r = m1 @ (k, l0) # m2" "\<And>v. AList.update k v (cidrMap r) = m1 @ (k, v) # m2"
      using alist_split [OF Some] by metis
    have "m' = m1 @ (k, l0 @ [a]) # m2" using assms(4,5) Some m(2) by simp
    then show ?thesis using d(2) assms(3) by (auto simp: mapped_def m(1))
  qed
  show "set (mapped (r\<lparr>cidrMap := m'\<rparr>)) = insert a (set (mapped r))" using c mp by simp
  show "wf_alloc (r\<lparr>cidrMap := m'\<rparr>)"
    unfolding wf_alloc_def mp using c assms(1,2,4) d(1) by (auto simp: wf_alloc_def distinct_update)
  show "grows r (r\<lparr>cidrMap := m'\<rparr>)"
    unfolding grows_def mp using c by (auto simp: busy_def assoc_names_def)
qed

lemma mapClusterCIDRSet_spec:
  assumes "wf_alloc r" "wf_cc c"
  shows "wf_alloc (mapClusterCIDRSet r k c)" "grows r (mapClusterCIDRSet r k c)" "effects (mapClusterCIDRSet r k c) = effects r"
proof -
  let ?r = "r\<lparr>objs := objs r @ [c]\<rparr>" and ?a = "length (objs r)"
  note ao = append_object [OF assms]
  have na: "?a \<notin> set (mapped ?r)" "?a < length (objs ?r)" using assms(1) by (auto simp: wf_alloc_def mapped_def)
  let ?l = "case map_of (cidrMap ?r) k of Some l \<Rightarrow> l | None \<Rightarrow> []"
  note ma = map_address [OF ao(1) na(2,1) refl, of ?l k, OF refl]
  have "mapClusterCIDRSet r k c = ?r \<or> mapClusterCIDRSet r k c = ?r\<lparr>cidrMap := AList.update k (?l @ [?a]) (cidrMap ?r)\<rparr>"
    by (simp add: mapClusterCIDRSet_def Let_def split: option.split)
  then show "wf_alloc (mapClusterCIDRSet r k c)" "grows r (mapClusterCIDRSet r k c)"
    using ao ma(1,2) grows_trans [OF ao(2) ma(2)] by auto
  show "effects (mapClusterCIDRSet r k c) = effects r" by (simp add: mapClusterCIDRSet_def Let_def split: option.split)
qed

lemma createClusterCIDR_spec:
  assumes "netutils_ok nu" "wf_alloc r" "spec_ok nu (obj_Spec obj)" "createClusterCIDR nu lib api r obj t = (r', res)"
  shows "wf_alloc r' \<and> grows r r' \<and> res \<noteq> Panic"
proof (cases "nodeSelectorKey lib obj")
  case (Inl e)
  then show ?thesis using assms(2,4) by (auto simp: createClusterCIDR_def)
next
  case (Inr k)
  note cs = createClusterCIDRSet_spec [OF assms(1,3), of t]
  show ?thesis
  proof (cases "createClusterCIDRSet nu obj t")
    case (Ret c)
    show ?thesis
    proof (cases "has_set c")
      case True
      then have "wf_cc c" using cs(2) [OF Ret] by blast
      note ms = mapClusterCIDRSet_spec [OF assms(2) this, of k]
      show ?thesis using assms(4) Inr Ret True ms
        by (auto simp: createClusterCIDR_def has_set_def Let_def split: if_splits option.splits)
    next
      case False
      then show ?thesis using assms(2,4) Inr Ret by (auto simp: createClusterCIDR_def has_set_def)
    qed
  qed (use assms(2,4) Inr cs(1) in \<open>auto simp: createClusterCIDR_def\<close>)
qed

end
