(* ===== verification/Controller.thy ===== *)
theory Controller
  imports Allocator
begin

text \<open>The controller around the allocator: start-up (\<open>NewMultiCIDRRangeAllocator\<close>), the informer handlers, the
  two sync handlers and the work-queue loops. A handler takes the allocator and what it read from the
  informer caches and returns the new state, the recorded effects and its result.\<close>

record CIDRAllocatorParams =
  param_ClusterCIDRs :: "IPNet list"
  param_ServiceCIDR :: "IPNet option"
  param_SecondaryServiceCIDR :: "IPNet option"
  param_NodeCIDRMaskSizes :: "int list"

definition int32 :: "int \<Rightarrow> int" where
  "int32 x = sint (word_of_int x :: 32 word)"

definition MinInt32 :: int where
  "MinInt32 = - (2 ^ 31)"

fun default_spec_loop ::
    "NetUtils \<Rightarrow> bool \<Rightarrow> int list \<Rightarrow> nat \<Rightarrow> IPNet list \<Rightarrow> ClusterCIDRSpec \<times> int \<times> int \<Rightarrow> (ClusterCIDRSpec \<times> int \<times> int) option" where
  "default_spec_loop nu isDualstack sizes i [] acc = Some acc"
| "default_spec_loop nu isDualstack sizes i (cidr # cidrs) (spec, v4bits, v6bits) =
     (if IsIPv4CIDR nu cidr then
        (if length sizes \<le> i then None
         else let bits = int32 (ipv4MaxCIDRMask - int32 (sizes ! i));
                  spec1 = spec\<lparr>spec_IPv4 := net_String cidr\<rparr>;
                  spec2 = (if \<not> isDualstack \<and> bits > minPerNodeHostBits then spec1\<lparr>PerNodeHostBits := bits\<rparr> else spec1)
              in default_spec_loop nu isDualstack sizes (i + 1) cidrs (spec2, bits, v6bits))
      else if IsIPv6CIDR nu cidr then
        (if length sizes \<le> i then None
         else let bits = int32 (ipv6MaxCIDRMask - int32 (sizes ! i));
                  spec1 = spec\<lparr>spec_IPv6 := net_String cidr\<rparr>;
                  spec2 = (if \<not> isDualstack \<and> bits > minPerNodeHostBits then spec1\<lparr>PerNodeHostBits := bits\<rparr> else spec1)
              in default_spec_loop nu isDualstack sizes (i + 1) cidrs (spec2, v4bits, bits))
      else default_spec_loop nu isDualstack sizes (i + 1) cidrs (spec, v4bits, v6bits))"

definition dual_stack_bits :: "int \<Rightarrow> int \<Rightarrow> int \<Rightarrow> int" where
  "dual_stack_bits v4bits v6bits current =
     (if v4bits \<ge> minPerNodeHostBits \<and> v4bits \<le> v6bits then v4bits
      else if v6bits \<ge> minPerNodeHostBits \<and> v6bits \<le> ipv4MaxCIDRMask then v6bits
      else current)"

definition createDefaultClusterCIDR ::
    "NetUtils \<Rightarrow> CIDRAllocatorParams \<Rightarrow> ClusterCIDRObject list \<Rightarrow> ClusterCIDRObject list option" where
  "createDefaultClusterCIDR nu params items =
     (if param_ClusterCIDRs params = [] then Some items
      else if list_ex (\<lambda>ob. obj_Name ob = defaultClusterCIDRName) items then Some items
      else let isDualstack = (length (param_ClusterCIDRs params) = 2);
               spec0 = \<lparr> spec_NodeSelector = None, PerNodeHostBits = minPerNodeHostBits, spec_IPv4 = [], spec_IPv6 = [] \<rparr>
           in case default_spec_loop nu isDualstack (param_NodeCIDRMaskSizes params) 0 (param_ClusterCIDRs params)
                     (spec0, MinInt32, MinInt32) of
                None \<Rightarrow> None
              | Some (spec, v4bits, v6bits) \<Rightarrow>
                  let spec' = (if isDualstack
                               then spec\<lparr>PerNodeHostBits := dual_stack_bits v4bits v6bits (PerNodeHostBits spec)\<rparr> else spec)
                  in Some (items @ [\<lparr> obj_Name = defaultClusterCIDRName, obj_Generation = 0, obj_ResourceVersion = [],
                                     obj_Finalizers = [], obj_DeletionTimestamp = None, obj_Spec = spec' \<rparr>]))"

text \<open>\<open>listClusterCIDRs\<close> polls the API server, at most \<open>Steps\<close> = 11 times.\<close>

fun list_poll :: "Api \<Rightarrow> nat \<Rightarrow> nat \<Rightarrow> go_error + ClusterCIDRObject list" where
  "list_poll api 0 i = Inl (Errorf ''failed to list all clusterCIDRs, cannot proceed without updating CIDR map'')"
| "list_poll api (Suc n) i =
     (case api_List api i of Inl _ \<Rightarrow> list_poll api n (i + 1) | Inr items \<Rightarrow> Inr items)"

definition listClusterCIDRs :: "Api \<Rightarrow> go_error + ClusterCIDRObject list" where
  "listClusterCIDRs api = list_poll api 11 0"

fun bootstrap_loop ::
    "NetUtils \<Rightarrow> ('sel, 'req) LabelsLib \<Rightarrow> Api \<Rightarrow> allocator \<Rightarrow> ClusterCIDRObject list \<Rightarrow> allocator \<times> unit outcome" where
  "bootstrap_loop nu lib api r [] = (r, Ret ())"
| "bootstrap_loop nu lib api r (obj # items) =
     (case reconcileBootstrap nu lib api r obj of
        (r', Ret _) \<Rightarrow> bootstrap_loop nu lib api r' items
      | (r', Fail e) \<Rightarrow> bootstrap_loop nu lib api (emit (ClusterCIDREvent (obj_Name obj) e) r') items
      | (r', Panic) \<Rightarrow> (r', Panic))"

definition filter_service :: "NetUtils \<Rightarrow> allocator \<Rightarrow> IPNet option \<Rightarrow> allocator \<times> unit outcome" where
  "filter_service nu r cidr = (case cidr of None \<Rightarrow> (r, Ret ()) | Some c \<Rightarrow> filterOutServiceRange nu r c)"

fun occupy_nodes ::
    "NetUtils \<Rightarrow> ('sel, 'req) LabelsLib \<Rightarrow> allocator \<Rightarrow> Node list \<Rightarrow> allocator \<times> unit outcome" where
  "occupy_nodes nu lib r [] = (r, Ret ())"
| "occupy_nodes nu lib r (node # nodes) =
     (if node_PodCIDRs node = [] then occupy_nodes nu lib r nodes
      else (case occupyCIDRs nu lib r node of
              (r', Panic) \<Rightarrow> (r', Panic)
            | (r', _) \<Rightarrow> occupy_nodes nu lib r' nodes))"

definition NewMultiCIDRRangeAllocator ::
    "NetUtils \<Rightarrow> ('sel, 'req) LabelsLib \<Rightarrow> Api \<Rightarrow> CIDRAllocatorParams \<Rightarrow> Node list option \<Rightarrow>
     store \<times> (string \<times> nat list) list \<Rightarrow> allocator outcome" where
  "NewMultiCIDRRangeAllocator nu lib api params nodeList test =
     (let r0 = (if snd test \<noteq> [] then \<lparr> objs = fst test, cidrMap = snd test, effects = [] \<rparr>
                else \<lparr> objs = [], cidrMap = [], effects = [] \<rparr>)
      in case listClusterCIDRs api of
           Inl e \<Rightarrow> Fail e
         | Inr listed \<Rightarrow>
             (case createDefaultClusterCIDR nu params listed of
                None \<Rightarrow> Panic
              | Some items \<Rightarrow>
                  (case bootstrap_loop nu lib api r0 items of
                     (r1, Ret _) \<Rightarrow>
                       (case filter_service nu r1 (param_ServiceCIDR params) of
                          (r2, Ret _) \<Rightarrow>
                            (case filter_service nu r2 (param_SecondaryServiceCIDR params) of
                               (r3, Ret _) \<Rightarrow>
                                 (case nodeList of
                                    None \<Rightarrow> Ret r3
                                  | Some nodes \<Rightarrow>
                                      (case occupy_nodes nu lib r3 nodes of
                                         (r4, Ret _) \<Rightarrow> Ret r4
                                       | (r4, Fail e) \<Rightarrow> Fail e
                                       | (r4, Panic) \<Rightarrow> Panic))
                             | (r3, Fail e) \<Rightarrow> Fail e
                             | (r3, Panic) \<Rightarrow> Panic)
                        | (r2, Fail e) \<Rightarrow> Fail e
                        | (r2, Panic) \<Rightarrow> Panic)
                   | (r1, Fail e) \<Rightarrow> Fail e
                   | (r1, Panic) \<Rightarrow> Panic)))"

text \<open>What a delete notification carries: a node, the last state of a node the informer missed the deletion
  of, or something else.\<close>

datatype deleted_object = DeletedNode "Node option" | Tombstone "Node option" | TombstoneOther | DeletedOther

definition handleNodeDelete ::
    "NetUtils \<Rightarrow> ('sel, 'req) LabelsLib \<Rightarrow> allocator \<Rightarrow> deleted_object \<Rightarrow> allocator \<times> unit outcome" where
  "handleNodeDelete nu lib r obj =
     (let release = (\<lambda>node. case ReleaseCIDR nu lib r node of
                              (r', Panic) \<Rightarrow> (r', Panic)
                            | (r', _) \<Rightarrow> (r', Ret ()))
      in case obj of
           DeletedNode node \<Rightarrow> release node
         | Tombstone node \<Rightarrow> release node
         | TombstoneOther \<Rightarrow> (r, Ret ())
         | DeletedOther \<Rightarrow> (r, Ret ()))"

definition syncNode ::
    "NetUtils \<Rightarrow> ('sel, 'req) LabelsLib \<Rightarrow> Api \<Rightarrow> allocator \<Rightarrow> string \<Rightarrow> allocator \<times> unit outcome" where
  "syncNode nu lib api r key =
     (case nodeLister_Get api key of
        Inl err \<Rightarrow> if IsNotFound api err then (r, Ret ()) else (r, Fail err)
      | Inr node \<Rightarrow>
          if \<not> IsZero (node_DeletionTimestamp node) then ReleaseCIDR nu lib r (Some node)
          else AllocateOrOccupyCIDR nu lib api r (Some node))"

definition syncClusterCIDR ::
    "NetUtils \<Rightarrow> ('sel, 'req) LabelsLib \<Rightarrow> Api \<Rightarrow> allocator \<Rightarrow> string \<Rightarrow> allocator \<times> unit outcome" where
  "syncClusterCIDR nu lib api r key =
     (case clusterCIDRLister_Get api key of
        Inl err \<Rightarrow> if IsNotFound api err then (r, Ret ()) else (r, Fail err)
      | Inr obj \<Rightarrow>
          if \<not> IsZero (obj_DeletionTimestamp obj) then reconcileDelete lib api r obj
          else reconcileCreate nu lib api r obj)"

definition finish_item :: "queue \<Rightarrow> string \<Rightarrow> allocator \<times> unit outcome \<Rightarrow> allocator \<times> bool outcome" where
  "finish_item q key res =
     (case res of
        (r, Ret _) \<Rightarrow> (emit (QueueDone q key) (emit (QueueForget q key) r), Ret True)
      | (r, Fail e) \<Rightarrow> (emit (QueueDone q key) (emit (QueueAddRateLimited q key) r), Ret True)
      | (r, Panic) \<Rightarrow> (emit (QueueDone q key) r, Panic))"

definition processNextCIDRWorkItem ::
    "NetUtils \<Rightarrow> ('sel, 'req) LabelsLib \<Rightarrow> Api \<Rightarrow> allocator \<Rightarrow> string \<times> bool \<Rightarrow> allocator \<times> bool outcome" where
  "processNextCIDRWorkItem nu lib api r got =
     (case got of (key, shutdown) \<Rightarrow>
        if shutdown then (r, Ret False)
        else finish_item cidrQueue key (syncClusterCIDR nu lib api r key))"

definition processNextNodeWorkItem ::
    "NetUtils \<Rightarrow> ('sel, 'req) LabelsLib \<Rightarrow> Api \<Rightarrow> allocator \<Rightarrow> string \<times> bool \<Rightarrow> allocator \<times> bool outcome" where
  "processNextNodeWorkItem nu lib api r got =
     (case got of (key, shutdown) \<Rightarrow>
        if shutdown then (r, Ret False)
        else finish_item nodeQueue key (syncNode nu lib api r key))"

text \<open>The informer callbacks put keys on the queues; \<open>None\<close> is a failure of the key function.\<close>

definition onClusterCIDRAdd :: "allocator \<Rightarrow> string option \<Rightarrow> allocator" where
  "onClusterCIDRAdd r key = (case key of None \<Rightarrow> r | Some k \<Rightarrow> emit (QueueAdd cidrQueue k) r)"

definition onClusterCIDRUpdate :: "allocator \<Rightarrow> bool \<Rightarrow> string option \<Rightarrow> allocator" where
  "onClusterCIDRUpdate r deepEqual key =
     (if deepEqual then r else case key of None \<Rightarrow> r | Some k \<Rightarrow> emit (QueueAdd cidrQueue k) r)"

definition onClusterCIDRDelete :: "allocator \<Rightarrow> string option \<Rightarrow> allocator" where
  "onClusterCIDRDelete r key = (case key of None \<Rightarrow> r | Some k \<Rightarrow> emit (QueueAdd cidrQueue k) r)"

definition onNodeAdd :: "allocator \<Rightarrow> string option \<Rightarrow> allocator" where
  "onNodeAdd r key = (case key of None \<Rightarrow> r | Some k \<Rightarrow> emit (QueueAdd nodeQueue k) r)"

definition onNodeUpdate :: "allocator \<Rightarrow> string option \<Rightarrow> allocator" where
  "onNodeUpdate r key = (case key of None \<Rightarrow> r | Some k \<Rightarrow> emit (QueueAdd nodeQueue k) r)"

end
