(* ===== verification/System.thy ===== *)
theory System
  imports ClusterCIDRLife Controller
begin

text \<open>The allocator over time. A step is one handler run under \<open>r.lock\<close>; the ghost list of grants holds, for
  every node the controller has successfully patched and not released since, the CIDRs it was given and
  the object they came from.\<close>

type_synonym grant = "string \<times> IPNet list \<times> nat"

definition granted ::
    "NetUtils \<Rightarrow> ('sel, 'req) LabelsLib \<Rightarrow> Api \<Rightarrow> allocator \<Rightarrow> Node \<Rightarrow> grant list" where
  "granted nu lib api r node =
     (if node_PodCIDRs node \<noteq> [] then []
      else case prioritizedCIDRs nu lib r node of
        (r1, Ret (cidrs, a)) \<Rightarrow>
          if cidrs = [] then []
          else (case nodeLister_Get api (node_Name node) of
                  Inl _ \<Rightarrow> []
                | Inr cur \<Rightarrow>
                    if node_PodCIDRs cur \<noteq> [] then []
                    else (case patch_loop api r1 (node_Name cur) (ipnetToStringList cidrs) cidrUpdateRetries 0 None of
                            (_, None) \<Rightarrow> [(node_Name cur, cidrs, a)]
                          | (_, Some _) \<Rightarrow> []))
      | _ \<Rightarrow> [])"

definition apart :: "IPNet list \<Rightarrow> IPNet list \<Rightarrow> bool" where
  "apart cs ds \<longleftrightarrow> (\<forall>c \<in> set cs. \<forall>d \<in> set ds. family_of c = family_of d \<longrightarrow> addresses c \<inter> addresses d = {})"

definition grant_ok :: "allocator \<Rightarrow> grant \<Rightarrow> bool" where
  "grant_ok r g = (case g of (n, cs, a) \<Rightarrow> a \<in> set (mapped r) \<and> n \<in> assoc_names r a \<and>
     (\<forall>c \<in> set cs. wf_net c \<and> c \<in> busy r a (family_of c)))"

definition safe :: "allocator \<Rightarrow> grant list \<Rightarrow> bool" where
  "safe r G \<longleftrightarrow> wf_alloc r \<and> (\<forall>g \<in> set G. grant_ok r g) \<and> sorted_wrt (\<lambda>g h. apart (fst (snd g)) (fst (snd h))) G"

definition empty_allocator :: allocator where
  "empty_allocator = \<lparr> objs = [], cidrMap = [], effects = [] \<rparr>"

text \<open>What the pod CIDRs of a released node may be: those the controller gave it, or others that overlap no
  grant of another node.\<close>

definition releasable :: "NetUtils \<Rightarrow> grant list \<Rightarrow> Node \<Rightarrow> bool" where
  "releasable nu G node \<longleftrightarrow> (\<forall>d \<in> pod_nets nu (node_PodCIDRs node).
     (\<exists>(n, cs, a) \<in> set G. n = node_Name node \<and> d \<in> set cs) \<or>
     (\<forall>(n, cs, a) \<in> set G. n \<noteq> node_Name node \<longrightarrow> apart [d] cs))"

inductive system :: "NetUtils \<Rightarrow> ('sel, 'req) LabelsLib \<Rightarrow> allocator \<Rightarrow> grant list \<Rightarrow> bool"
  for nu :: NetUtils and lib :: "('sel, 'req) LabelsLib" where
  initial: "system nu lib empty_allocator []"
| create: "system nu lib r G \<Longrightarrow> spec_ok nu (obj_Spec obj) \<Longrightarrow> createClusterCIDR nu lib api r obj t = (r', res) \<Longrightarrow>
    system nu lib r' G"
| delete: "system nu lib r G \<Longrightarrow> reconcileDelete lib api r obj = (r', res) \<Longrightarrow> system nu lib r' G"
| service: "system nu lib r G \<Longrightarrow> wf_net c \<Longrightarrow> filterOutServiceRange nu r c = (r', res) \<Longrightarrow> system nu lib r' G"
| node_sync: "system nu lib r G \<Longrightarrow> pods_ok nu (node_PodCIDRs node) \<Longrightarrow>
    AllocateOrOccupyCIDR nu lib api r (Some node) = (r', res) \<Longrightarrow> system nu lib r' (granted nu lib api r node @ G)"
| node_release: "system nu lib r G \<Longrightarrow> pods_ok nu (node_PodCIDRs node) \<Longrightarrow> releasable nu G node \<Longrightarrow>
    ReleaseCIDR nu lib r (Some node) = (r', res) \<Longrightarrow>
    system nu lib r' (filter (\<lambda>g. fst g \<noteq> node_Name node) G)"
| effect: "system nu lib r G \<Longrightarrow> system nu lib (emit e r) G"

lemma safe_mono:
  assumes "safe r G" "wf_alloc r'" "\<And>n cs a. (n, cs, a) \<in> set G \<Longrightarrow> grant_ok r (n, cs, a) \<Longrightarrow> grant_ok r' (n, cs, a)"
  shows "safe r' G"
  using assms unfolding safe_def by auto

lemma grant_ok_grows: "grows r r' \<Longrightarrow> wf_alloc r \<Longrightarrow> grant_ok r g \<Longrightarrow> grant_ok r' g"
  using mapped_bound [of r] by (cases g) (fastforce simp: grant_ok_def grows_def)

lemma safe_grows: "safe r G \<Longrightarrow> grows r r' \<Longrightarrow> wf_alloc r' \<Longrightarrow> safe r' G"
  using safe_mono [of r G r'] grant_ok_grows [of r r'] by (simp add: safe_def)

lemma safe_emit: "safe (emit e r) G = safe r G"
  by (simp add: safe_def grant_ok_def assoc_names_def split_def)

lemma apart_sym: "apart cs ds = apart ds cs"
  unfolding apart_def by (metis Int_commute)

lemma fresh_apart:
  assumes "fresh_grant r r' cs a" "grant_ok r (n, ds, b)"
  shows "apart cs ds"
  unfolding apart_def
proof (intro ballI impI)
  fix c d assume c: "c \<in> set cs" and d: "d \<in> set ds" and f: "family_of c = family_of d"
  have b: "b \<in> set (mapped r)" "d \<in> busy r b (family_of c)" using assms(2) d f by (simp_all add: grant_ok_def)
  have "\<not> conflicts r c" using assms(1) c by (simp add: fresh_grant_def)
  then show "addresses c \<inter> addresses d = {}" using b unfolding conflicts_def by blast
qed

lemma prioritized_spec:
  assumes "netutils_ok nu" "wf_alloc r" "prioritizedCIDRs nu lib r node = (r', res)"
  shows "wf_alloc r' \<and> grows r r' \<and> same_shape r r' \<and> res \<noteq> Panic \<and> effects r' = effects r \<and>
    (\<forall>cs a. res = Ret (cs, a) \<longrightarrow> a \<in> set (mapped r) \<and> fresh_grant r r' cs a)"
proof (cases "orderedMatchingClusterCIDRs lib r node True")
  case (Ret l)
  have m: "set l \<subseteq> set (mapped r)" by (rule ordered_matching_mapped [OF assms(2) Ret])
  then have "set l \<subseteq> {..<length (objs r)}" using mapped_bound [OF assms(2)] by blast
  from allocate_in_order_spec [OF assms(1,2) this] assms(3) Ret m show ?thesis
    by (simp add: prioritizedCIDRs_def) blast
next
  case (Fail e)
  then show ?thesis using assms(2,3) by (auto simp: prioritizedCIDRs_def)
next
  case Panic
  then show ?thesis using ordered_matching_spec [OF assms(2), of lib node True] by auto
qed

lemma spares_grants:
  assumes "safe r G" "grows r r1" "spares r1 r' a (set cs)" "\<And>g. g \<in> set G \<Longrightarrow> apart cs (fst (snd g))"
  shows "safe r' G"
proof (rule safe_mono [OF assms(1)])
  show "wf_alloc r'" using assms(3) by (simp add: spares_def)
  fix n ds b assume g: "(n, ds, b) \<in> set G" "grant_ok r (n, ds, b)"
  have w: "wf_alloc r" using assms(1) by (simp add: safe_def)
  have b: "b < length (objs r1)" "grant_ok r1 (n, ds, b)"
    using grant_ok_grows [OF assms(2) w g(2)] g(2) mapped_bound [OF w] assms(2) by (auto simp: grant_ok_def grows_def intro: less_le_trans)
  have ap: "apart cs ds" using assms(4) [OF g(1)] by simp
  have s: "mapped r' = mapped r1" "assoc_names r' b = assoc_names r1 b"
    using assms(3) b(1) same_shape_mapped [of r1 r'] by (auto simp: spares_def)
  have "d \<in> busy r' b (family_of d)" if d: "d \<in> set ds" for d
  proof -
    have "d \<in> busy r1 b (family_of d)" using b(2) d by (simp add: grant_ok_def)
    moreover have "\<forall>c \<in> set cs. family_of c = family_of d \<longrightarrow> addresses d \<inter> addresses c = {}"
      using ap d by (simp add: apart_def Int_commute)
    ultimately show ?thesis using assms(3) b(1) unfolding spares_def by blast
  qed
  then show "grant_ok r' (n, ds, b)" using b(2) s by (simp add: grant_ok_def)
qed

lemma safe_node_sync:
  assumes "netutils_ok nu" "safe r G" "pods_ok nu (node_PodCIDRs node)" "AllocateOrOccupyCIDR nu lib api r (Some node) = (r', res)"
  shows "safe r' (granted nu lib api r node @ G)"
proof (cases "node_PodCIDRs node = []")
  case False
  then have "occupyCIDRs nu lib r node = (r', res)" using assms(4) by (simp add: AllocateOrOccupyCIDR_def)
  moreover have "wf_alloc r" using assms(2) by (simp add: safe_def)
  ultimately have "kept r r'" using occupyCIDRs_kept [OF assms(1) _ assms(3)] by blast
  then show ?thesis using safe_grows [OF assms(2)] False by (simp add: kept_def granted_def)
next
  case empty: True
  have w: "wf_alloc r" using assms(2) by (simp add: safe_def)
  obtain r1 o1 where p: "prioritizedCIDRs nu lib r node = (r1, o1)" by force
  note ps = prioritized_spec [OF assms(1) w p]
  then have w1: "wf_alloc r1" "grows r r1" "mapped r1 = mapped r" "length (objs r1) = length (objs r)"
    using same_shape_mapped [of r r1] by auto
  show ?thesis
  proof (cases o1)
    case (Fail e)
    then have "r' = RecordNodeStatusChange node ''CIDRNotAvailable'' r1" using assms(4) empty p by (simp add: AllocateOrOccupyCIDR_def)
    then show ?thesis
      using safe_grows [OF assms(2) w1(2,1)] empty p Fail by (simp add: RecordNodeStatusChange_def safe_emit granted_def)
  next
    case (Ret ca)
    obtain cs a where ca: "ca = (cs, a)" by force
    then have fg: "fresh_grant r r1 cs a" and am: "a \<in> set (mapped r)" using ps Ret by auto
    have ne: "cs \<noteq> []" and wc: "\<forall>c \<in> set cs. wf_net c" using fg by (auto simp: fresh_grant_def)
    have ap: "apart cs (fst (snd g))" if "g \<in> set G" for g
      using fresh_apart [OF fg] assms(2) that by (cases g) (auto simp: safe_def)
    have upd: "updateCIDRsAllocation nu api r1 cs (node_Name node) a = (r', res)"
      using assms(4) empty p Ret ca ne by (simp add: AllocateOrOccupyCIDR_def)
    have a1: "a < length (objs r1)" using am mapped_bound [OF w] w1(4) by simp
    show ?thesis
    proof (cases "granted nu lib api r node = []")
      case True
      have "spares r1 r' a (set cs)"
        using update_spares [OF assms(1) w1(1) a1 wc upd] True empty p Ret ca ne by (auto simp: granted_def)
      then show ?thesis using spares_grants [OF assms(2) w1(2) _ ap] True by simp
    next
      case False
      then obtain cur r2 where c: "nodeLister_Get api (node_Name node) = Inr cur" "node_PodCIDRs cur = []"
        "patch_loop api r1 (node_Name cur) (ipnetToStringList cs) cidrUpdateRetries 0 None = (r2, None)"
        using empty p Ret ca ne by (auto simp: granted_def split: sum.splits if_splits prod.splits option.splits)
      have c4: "r' = upd_obj a (associate (node_Name cur)) r2"
        using upd c ne by (simp add: updateCIDRsAllocation_def Let_def ipnetToStringList_def)
      have g: "granted nu lib api r node = [(node_Name cur, cs, a)]"
        using empty p Ret ca ne c(1-3) by (simp add: granted_def)
      have d: "same_data r1 r2" using patch_loop_state [OF c(3)] by (simp add: same_data_def)
      have w2: "wf_alloc r2" "a < length (objs r2)" "grows r1 r2"
        using same_dataD [OF d] w1(1) a1 by (simp_all add: grows_def)
      note ak = associate_keeps [OF w2(1), of a "node_Name cur"]
      have gr: "grows r r'" "wf_alloc r'"
        using grows_trans [OF w1(2) grows_trans [OF w2(3) ak(2)]] ak(1) c4 by simp_all
      have "busy r1 a f \<subseteq> busy r' a f" for f using same_dataD(3) [OF d] c4 by simp
      then have "grant_ok r' (node_Name cur, cs, a)"
        using fg am w1(3) ak(4) [OF w2(2)] same_dataD(2) [OF d] c4 by (auto simp: grant_ok_def fresh_grant_def)
      then show ?thesis using safe_grows [OF assms(2) gr] ap by (auto simp: g safe_def)
    qed
  qed (use ps in simp)
qed

lemma safe_filter: "safe r G \<Longrightarrow> safe r (filter P G)"
  by (auto simp: safe_def intro: sorted_wrt_filter)

lemma sorted_wrt_both: "sorted_wrt R xs \<Longrightarrow> x \<in> set xs \<Longrightarrow> y \<in> set xs \<Longrightarrow> x = y \<or> R x y \<or> R y x"
  by (induction xs) auto

lemma safe_apart: "safe r G \<Longrightarrow> g \<in> set G \<Longrightarrow> h \<in> set G \<Longrightarrow> g \<noteq> h \<Longrightarrow> apart (fst (snd g)) (fst (snd h))"
  using sorted_wrt_both [of "\<lambda>g h. apart (fst (snd g)) (fst (snd h))" G g h] apart_sym unfolding safe_def by blast

lemma releasable_apart:
  assumes "safe r G" "releasable nu G node" "d \<in> pod_nets nu (node_PodCIDRs node)" "(n, cs, a) \<in> set G" "n \<noteq> node_Name node"
  shows "apart cs [d]"
proof -
  consider ds b where "(node_Name node, ds, b) \<in> set G" "d \<in> set ds" | "apart [d] cs"
    using assms(2-5) unfolding releasable_def by blast
  then show ?thesis
  proof cases
    case 1
    then have "apart cs ds" using safe_apart [OF assms(1) assms(4) 1(1)] assms(5) by auto
    then show ?thesis using 1(2) by (simp add: apart_def)
  qed (simp add: apart_sym)
qed

lemma safe_release:
  assumes "netutils_ok nu" "safe r G" "pods_ok nu (node_PodCIDRs node)" "releasable nu G node"
    "ReleaseCIDR nu lib r (Some node) = (r', res)"
  shows "safe r' (filter (\<lambda>g. fst g \<noteq> node_Name node) G)"
proof (rule safe_mono [OF safe_filter [OF assms(2)]])
  have w: "wf_alloc r" using assms(2) by (simp add: safe_def)
  note rel = ReleaseCIDR_spec [OF assms(1) w assms(3,5)]
  then show "wf_alloc r'" by blast
  fix n cs a assume g: "(n, cs, a) \<in> set (filter (\<lambda>g. fst g \<noteq> node_Name node) G)" "grant_ok r (n, cs, a)"
  then have n: "n \<noteq> node_Name node" "(n, cs, a) \<in> set G" by auto
  have a: "a < length (objs r)" "a \<in> set (mapped r')"
    using g(2) mapped_bound [OF w] same_shape_mapped [of r r'] rel by (auto simp: grant_ok_def)
  have "c \<in> busy r' a (family_of c)" if c: "c \<in> set cs" for c
  proof -
    have "c \<in> busy r a (family_of c)" using g(2) c by (simp add: grant_ok_def)
    moreover have "addresses c \<inter> addresses d = {}"
      if "d \<in> pod_nets nu (node_PodCIDRs node)" "family_of d = family_of c" for d
      using releasable_apart [OF assms(2,4) that(1) n(2,1)] c that(2) by (simp add: apart_def)
    ultimately show ?thesis using rel a(1) by blast
  qed
  moreover have "n \<in> assoc_names r' a" using rel a(1) g(2) n(1) by (auto simp: grant_ok_def)
  ultimately show "grant_ok r' (n, cs, a)" using g(2) a(2) by (simp add: grant_ok_def)
qed

lemma safe_delete:
  assumes "safe r G" "reconcileDelete lib api r obj = (r', res)"
  shows "safe r' G"
proof (cases "clusterCIDRFinalizer \<in> set (obj_Finalizers obj)")
  case True
  have w: "wf_alloc r" using assms(1) by (simp add: safe_def)
  obtain r1 o1 where d: "deleteClusterCIDR lib r obj = (r1, o1)" by force
  note ds = deleteClusterCIDR_spec [OF w d]
  have "safe r1 G"
  proof (rule safe_mono [OF assms(1)])
    show "wf_alloc r1" using ds by blast
    fix n cs a assume "grant_ok r (n, cs, a)"
    then show "grant_ok r1 (n, cs, a)" using ds by (auto simp: grant_ok_def)
  qed
  moreover have "\<exists>e. r' = r1 \<or> r' = emit e r1"
    using assms(2) True d by (auto simp: reconcileDelete_def Let_def split: outcome.splits)
  ultimately show ?thesis by (auto simp: safe_emit)
qed (use assms in \<open>simp add: reconcileDelete_def\<close>)

lemma filterOutServiceRange_kept:
  assumes "netutils_ok nu" "wf_alloc r" "wf_net c" "filterOutServiceRange nu r c = (r', res)"
  shows "kept r r'"
proof -
  have "set (mapped r) \<subseteq> {..<length (objs r)}" using mapped_bound [OF assms(2)] by blast
  from filter_service_loop_kept [OF assms(1,2) this assms(3)] assms(4) show ?thesis
    by (simp add: filterOutServiceRange_def)
qed

lemma system_safe:
  assumes "netutils_ok nu" "system nu lib r G"
  shows "safe r G"
  using assms(2)
proof induction
  case initial
  then show ?case by (simp add: safe_def empty_allocator_def wf_alloc_def mapped_def)
next
  case (create r G obj api t r' res)
  then have "wf_alloc r" by (simp add: safe_def)
  from createClusterCIDR_spec [OF assms(1) this create.hyps(2,3)] show ?case
    using safe_grows [OF create.IH] by blast
next
  case (delete r G api obj r' res)
  then show ?case using safe_delete by blast
next
  case (service r G c r' res)
  then have w: "wf_alloc r" by (simp add: safe_def)
  from filterOutServiceRange_kept [OF assms(1) w service.hyps(2,3)] show ?case
    using safe_grows [OF service.IH] by (simp add: kept_def)
next
  case (node_sync r G node api r' res)
  then show ?case using safe_node_sync [OF assms(1)] by blast
next
  case (node_release r G node r' res)
  then show ?case using safe_release [OF assms(1)] by blast
next
  case (effect r G e)
  then show ?case by (simp add: safe_emit)
qed

end
