(* ===== verification/Ledger.thy ===== *)
theory Ledger
  imports System
begin

text \<open>What the controller promises, without its data structures: a ledger of grants, where a grant is entered
  only when it overlaps no other and is removed with its node. Every behaviour of the controller is a
  behaviour of the ledger, from start-up through every work item.\<close>

inductive ledger :: "grant list \<Rightarrow> bool" where
  ledger_empty: "ledger []"
| ledger_give: "ledger G \<Longrightarrow> cs \<noteq> [] \<Longrightarrow> distinct (map family_of cs) \<Longrightarrow> \<forall>c \<in> set cs. wf_net c \<Longrightarrow>
    \<forall>(m, ds, b) \<in> set G. apart cs ds \<Longrightarrow> ledger ((n, cs, a) # G)"
| ledger_take: "ledger G \<Longrightarrow> ledger (filter (\<lambda>g. fst g \<noteq> n) G)"

lemma ledger_apart:
  assumes "ledger G"
  shows "sorted_wrt (\<lambda>(n, cs, a) (m, ds, b). apart cs ds) G \<and> (\<forall>(n, cs, a) \<in> set G. cs \<noteq> [] \<and> distinct (map family_of cs))"
  using assms by induction (auto intro: sorted_wrt_filter)

lemma granted_cases:
  assumes "netutils_ok nu" "wf_alloc r"
  obtains "granted nu lib api r node = []"
  | n r1 cs a where "granted nu lib api r node = [(n, cs, a)]" "fresh_grant r r1 cs a"
proof -
  obtain r1 o1 where p: "prioritizedCIDRs nu lib r node = (r1, o1)" by force
  note ps = prioritized_spec [OF assms p]
  have "granted nu lib api r node = [] \<or> (\<exists>n cs a. o1 = Ret (cs, a) \<and> granted nu lib api r node = [(n, cs, a)])"
    using p by (simp add: granted_def split: sum.split prod.split option.split outcome.split)
  then show ?thesis using ps that by blast
qed

lemma system_ledger:
  assumes "netutils_ok nu" "system nu lib r G"
  shows "ledger G"
  using assms(2)
proof induction
  case (node_sync r G node api r' res)
  have s: "safe r G" by (rule system_safe [OF assms(1) node_sync.hyps(1)])
  then have "wf_alloc r" by (simp add: safe_def)
  from assms(1) this show ?case
  proof (cases rule: granted_cases [of nu r lib api node])
    case 1
    then show ?thesis using node_sync.IH by simp
  next
    case (2 n r1 cs a)
    have "\<forall>(m, ds, b) \<in> set G. apart cs ds" using fresh_apart [OF 2(2)] s by (auto simp: safe_def)
    then show ?thesis using 2 node_sync.IH by (auto simp: fresh_grant_def intro: ledger_give)
  qed
qed (auto intro: ledger.intros)

text \<open>Start-up: the state \<open>NewMultiCIDRRangeAllocator\<close> returns is a reachable one.\<close>

lemma system_bootstrap:
  assumes "system nu lib r G" "\<forall>ob \<in> set items. spec_ok nu (obj_Spec ob)" "bootstrap_loop nu lib api r items = (r', res)"
  shows "system nu lib r' G"
  using assms
proof (induction items arbitrary: r)
  case (Cons ob items)
  obtain r1 o1 where b: "reconcileBootstrap nu lib api r ob = (r1, o1)" by force
  then have "system nu lib r1 G"
    using system.create [OF Cons.prems(1)] Cons.prems(2) by (auto simp: reconcileBootstrap_def)
  then show ?case using Cons.IH Cons.prems b by (cases o1) (auto intro: system.effect)
qed simp

lemma system_filter:
  assumes "system nu lib r G" "\<forall>c \<in> set_option p. wf_net c" "filter_service nu r p = (r', res)"
  shows "system nu lib r' G"
  using assms system.service [OF assms(1)] by (cases p) (auto simp: filter_service_def)

lemma system_occupy_nodes:
  assumes "system nu lib r G" "\<forall>node \<in> set nodes. pods_ok nu (node_PodCIDRs node)" "occupy_nodes nu lib r nodes = (r', res)"
  shows "system nu lib r' G"
  using assms
proof (induction nodes arbitrary: r)
  case (Cons node nodes)
  show ?case
  proof (cases "node_PodCIDRs node = []")
    case False
    obtain r1 o1 where b: "occupyCIDRs nu lib r node = (r1, o1)" by force
    have "AllocateOrOccupyCIDR nu lib undefined r (Some node) = (r1, o1)" "granted nu lib undefined r node = []"
      using b False by (simp_all add: AllocateOrOccupyCIDR_def granted_def)
    then have "system nu lib r1 G" using system.node_sync [OF Cons.prems(1)] Cons.prems(2) by fastforce
    then show ?thesis using Cons.IH Cons.prems b False by (cases o1) auto
  qed (use Cons in simp)
qed simp

lemma NewMultiCIDRRangeAllocator_system:
  assumes "NewMultiCIDRRangeAllocator nu lib api params nodeList ([], []) = Ret r"
    "\<And>listed items ob. listClusterCIDRs api = Inr listed \<Longrightarrow> createDefaultClusterCIDR nu params listed = Some items \<Longrightarrow>
       ob \<in> set items \<Longrightarrow> spec_ok nu (obj_Spec ob)"
    "\<forall>c \<in> set_option (param_ServiceCIDR params) \<union> set_option (param_SecondaryServiceCIDR params). wf_net c"
    "\<forall>nodes \<in> set_option nodeList. \<forall>node \<in> set nodes. pods_ok nu (node_PodCIDRs node)"
  shows "system nu lib r []"
proof -
  obtain listed items r1 r2 r3 where s: "listClusterCIDRs api = Inr listed" "createDefaultClusterCIDR nu params listed = Some items"
    "bootstrap_loop nu lib api empty_allocator items = (r1, Ret ())"
    "filter_service nu r1 (param_ServiceCIDR params) = (r2, Ret ())"
    "filter_service nu r2 (param_SecondaryServiceCIDR params) = (r3, Ret ())"
    "case nodeList of None \<Rightarrow> r = r3 | Some nodes \<Rightarrow> occupy_nodes nu lib r3 nodes = (r, Ret ())"
    using assms(1) by (auto simp: NewMultiCIDRRangeAllocator_def empty_allocator_def
        split: sum.splits option.splits prod.splits outcome.splits)
  have "system nu lib r1 []" using system_bootstrap [OF system.initial _ s(3)] assms(2) [OF s(1,2)] by blast
  then have "system nu lib r2 []" using system_filter [OF _ _ s(4)] assms(3) by blast
  then have "system nu lib r3 []" using system_filter [OF _ _ s(5)] assms(3) by blast
  then show ?thesis using s(6) assms(4) system_occupy_nodes by (cases nodeList) auto
qed

text \<open>A work item, whatever it finds, is a step.\<close>

lemma system_finish:
  "system nu lib r G \<Longrightarrow> finish_item q key (r, o1) = (r', res) \<Longrightarrow> system nu lib r' G"
  by (cases o1) (auto simp: finish_item_def intro: system.effect)

lemma system_syncClusterCIDR:
  assumes "system nu lib r G" "\<And>ob. clusterCIDRLister_Get api key = Inr ob \<Longrightarrow> spec_ok nu (obj_Spec ob)"
    "syncClusterCIDR nu lib api r key = (r', res)"
  shows "system nu lib r' G"
proof (cases "clusterCIDRLister_Get api key")
  case (Inr ob)
  then show ?thesis
    using assms(3) system.delete [OF assms(1)] system.create [OF assms(1) assms(2) [OF Inr]]
    by (auto simp: syncClusterCIDR_def reconcileCreate_def split: if_splits)
qed (use assms in \<open>auto simp: syncClusterCIDR_def split: if_splits\<close>)

lemma system_syncNode:
  assumes "system nu lib r G"
    "\<And>node. nodeLister_Get api key = Inr node \<Longrightarrow> pods_ok nu (node_PodCIDRs node) \<and> releasable nu G node"
    "syncNode nu lib api r key = (r', res)"
  shows "\<exists>G'. system nu lib r' G'"
proof (cases "nodeLister_Get api key")
  case (Inr node)
  then show ?thesis
    using assms(3) system.node_release [OF assms(1), of node r' res] system.node_sync [OF assms(1), of node api r' res]
      assms(2) [OF Inr]
    by (cases "IsZero (node_DeletionTimestamp node)") (auto simp: syncNode_def)
qed (use assms in \<open>auto simp: syncNode_def split: if_splits\<close>)

end
