(* ===== verification/Outcomes.thy ===== *)
theory Outcomes
  imports Ledger
begin

text \<open>When allocation fails, what a node update does in each case, and what releasing gives back.\<close>

definition exhausted :: "allocator \<Rightarrow> nat \<Rightarrow> family \<Rightarrow> bool" where
  "exhausted r a f \<longleftrightarrow> (\<exists>s. get_set f (objs r ! a) = Some s \<and> (\<forall>i. in_range s i \<longrightarrow> i \<in> used s \<or> conflicts r (blk s i)))"

lemma exhausted_mono:
  assumes "exhausted r a f" "wf_alloc r" "grows r r'" "same_shape r r'" "a < length (objs r)"
  shows "exhausted r' a f"
proof -
  obtain s where s: "get_set f (objs r ! a) = Some s" "\<forall>i. in_range s i \<longrightarrow> i \<in> used s \<or> conflicts r (blk s i)"
    using assms(1) by (auto simp: exhausted_def)
  obtain t where t: "get_set f (objs r' ! a) = Some t" "same_pool s t" using same_shape_set [OF assms(4,5) s(1)] .
  have "used s \<subseteq> used t" by (rule used_kept [OF assms(3,2,5) s(1) t])
  then show ?thesis
    using s(2) t(1) conflicts_mono [OF assms(3,2)] unfolding exhausted_def
    by (auto simp: same_pool_geometry [OF t(2)])
qed

lemma allocate_family_fail:
  assumes "netutils_ok nu" "wf_alloc r" "a < length (objs r)" "allocate_family nu r a f = (r', Fail e)"
  shows "exhausted r' a f"
proof (cases "get_set f (objs r ! a)")
  case (Some s)
  from allocateCIDR_spec [OF assms(1-3) Some] assms(4) Some have "exhausted r a f"
    by (auto simp: allocate_family_def exhausted_def)
  then show ?thesis using exhausted_mono [OF _ assms(2) _ _ assms(3)] allocate_family_spec [OF assms] by blast
qed (use assms(4) in \<open>simp add: allocate_family_def\<close>)

lemma allocate_in_order_fail:
  assumes "netutils_ok nu" "wf_alloc r" "set as \<subseteq> {..<length (objs r)}" "allocate_in_order nu r as = (r', Fail e)" "a \<in> set as"
  shows "\<exists>f. exhausted r' a f"
  using assms(2-)
proof (induction as arbitrary: r)
  case (Cons b as)
  have b: "b < length (objs r)" using Cons.prems(2) by simp
  obtain r1 o1 where f1: "allocate_family nu r b V4 = (r1, o1)" by force
  note s1 = allocate_family_spec [OF assms(1) Cons.prems(1) b f1]
  have later: "\<exists>f. exhausted r' a f"
    if s: "wf_alloc s" "length (objs s) = length (objs r)" "allocate_in_order nu s as = (r', Fail e)" "exhausted s b f" for s f
  proof (cases "a = b")
    case True
    have sub: "set as \<subseteq> {..<length (objs s)}" "b < length (objs s)" using Cons.prems(2) s(2) by simp_all
    show ?thesis
      using exhausted_mono [OF s(4,1) _ _ sub(2)] allocate_in_order_spec [OF assms(1) s(1) sub(1) s(3)] True by blast
  next
    case False
    then show ?thesis using Cons.IH [OF s(1) _ s(3)] Cons.prems(2,4) s(2) by simp
  qed
  show ?case
  proof (cases o1)
    case (Fail e1)
    then have f: "allocate_in_order nu r1 as = (r', Fail e)" "allocate_family nu r b V4 = (r1, Fail e1)"
      using Cons.prems(3) f1 by simp_all
    have "wf_alloc r1" "length (objs r1) = length (objs r)" using s1 same_shape_mapped [of r r1] by simp_all
    then show ?thesis by (rule later [OF _ _ f(1) allocate_family_fail [OF assms(1) Cons.prems(1) b f(2)]])
  next
    case (Ret c4)
    obtain r2 o2 where f2: "allocate_family nu r1 b V6 = (r2, o2)" by force
    have b1: "b < length (objs r1)" "wf_alloc r1" using b s1 same_shape_mapped [of r r1] by auto
    note s2 = allocate_family_spec [OF assms(1) b1(2,1) f2]
    obtain e2 where o2: "o2 = Fail e2" using Cons.prems(3) f1 f2 Ret s2 by (cases o2) auto
    then have f: "allocate_in_order nu r2 as = (r', Fail e)" "allocate_family nu r1 b V6 = (r2, Fail e2)"
      using Cons.prems(3) f1 f2 Ret by simp_all
    have "wf_alloc r2" "length (objs r2) = length (objs r)"
      using s1 s2 same_shape_mapped [of r r1] same_shape_mapped [of r1 r2] by simp_all
    then show ?thesis by (rule later [OF _ _ f(1) allocate_family_fail [OF assms(1) b1(2,1) f(2)]])
  qed (use s1 in blast)
qed simp

text \<open>The patch loop: it stops at the first success and tries at most as often as it may.\<close>

lemma patch_loop_spec:
  "(\<exists>j < n. api_PatchNodeCIDRs api (i + j) name cs = None \<and> (\<forall>k < j. api_PatchNodeCIDRs api (i + k) name cs \<noteq> None) \<and>
      patch_loop api r name cs n i err = (r\<lparr>effects := effects r @ replicate (Suc j) (PatchNodeCIDRs name cs)\<rparr>, None)) \<or>
   (\<forall>k < n. api_PatchNodeCIDRs api (i + k) name cs \<noteq> None) \<and>
     patch_loop api r name cs n i err = (r\<lparr>effects := effects r @ replicate n (PatchNodeCIDRs name cs)\<rparr>,
       if n = 0 then err else api_PatchNodeCIDRs api (i + n - 1) name cs)"
proof (induction n arbitrary: r i err)
  case (Suc n)
  show ?case
  proof (cases "api_PatchNodeCIDRs api i name cs")
    case None
    then show ?thesis by (intro disjI1 exI [of _ 0]) (simp add: Let_def emit_def)
  next
    case (Some e)
    let ?r = "emit (PatchNodeCIDRs name cs) r"
    have loop: "patch_loop api r name cs (Suc n) i err = patch_loop api ?r name cs n (Suc i) (Some e)"
      using Some by (simp add: Let_def)
    have all: "(\<forall>k < Suc m. api_PatchNodeCIDRs api (i + k) name cs \<noteq> None) \<longleftrightarrow>
      (\<forall>k < m. api_PatchNodeCIDRs api (Suc i + k) name cs \<noteq> None)" for m
      using Some by (auto simp: less_Suc_eq_0_disj)
    show ?thesis
      using Suc.IH [of "Suc i" ?r "Some e"]
    proof (elim disjE exE conjE)
      fix j assume j: "j < n" "api_PatchNodeCIDRs api (Suc i + j) name cs = None" "\<forall>k < j. api_PatchNodeCIDRs api (Suc i + k) name cs \<noteq> None"
        "patch_loop api ?r name cs n (Suc i) (Some e) =
           (?r\<lparr>effects := effects ?r @ replicate (Suc j) (PatchNodeCIDRs name cs)\<rparr>, None)"
      have "\<forall>k < Suc j. api_PatchNodeCIDRs api (i + k) name cs \<noteq> None" using all j(3) by blast
      then show ?thesis using j loop by (intro disjI1 exI [of _ "Suc j"]) (simp add: emit_def)
    next
      assume f: "\<forall>k < n. api_PatchNodeCIDRs api (Suc i + k) name cs \<noteq> None"
        "patch_loop api ?r name cs n (Suc i) (Some e) = (?r\<lparr>effects := effects ?r @ replicate n (PatchNodeCIDRs name cs)\<rparr>,
           if n = 0 then Some e else api_PatchNodeCIDRs api (Suc i + n - 1) name cs)"
      have "\<forall>k < Suc n. api_PatchNodeCIDRs api (i + k) name cs \<noteq> None" using all f(1) by blast
      then show ?thesis using f(2) loop Some by (intro disjI2) (simp add: emit_def)
    qed
  qed
qed simp

text \<open>Releasing what was reserved succeeds and frees it.\<close>

lemma busy_intersects:
  assumes "wf_alloc r" "a < length (objs r)" "c \<in> busy r a f"
  obtains s where "get_set f (objs r ! a) = Some s" "nets_intersect (set_ClusterCIDR s) c"
proof (cases "get_set f (objs r ! a)")
  case (Some s)
  obtain i where i: "i \<in> used s" "c = blk s i" using assms(3) by (auto simp: busy_some [OF Some])
  have "wf_geometry s" using wf_setD(1) [OF wf_alloc_set(1) [OF assms(1,2) Some]] .
  then have "accepts_cidr s (blk s i)" using blk_accepted i(1) used_subset [of s] by blast
  then show ?thesis using that [OF Some] i(2) by (simp add: accepts_cidr_def)
qed (use assms(3) in \<open>simp add: busy_def\<close>)

lemma Release_shrinks:
  assumes "netutils_ok nu" "wf_alloc r" "a < length (objs r)" "wf_net c" "Release nu r a c = (r', res)"
  shows "busy r' b f \<subseteq> busy r b f"
proof (cases "get_set (family_of c) (objs r ! a)")
  case None
  then show ?thesis using Release_nil [OF assms(1,4)] assms(5) by simp
next
  case (Some s)
  note sp = Release_spec [OF assms(1-4) Some]
  show ?thesis
  proof (cases "nets_intersect (set_ClusterCIDR s) c")
    case True
    from sp(1) [OF True] obtain t where t: "Release nu r a c = (upd_obj a (put_set (family_of c) t) r, Ret ())"
      "same_pool s t" "used t = used s - touching s c" by blast
    then show ?thesis
      using assms(5) same_pool_geometry(2) [OF t(2)] by (auto simp: busy_put [OF assms(3)] busy_some [OF Some])
  next
    case False
    from sp(2) [OF False] show ?thesis using assms(5) by auto
  qed
qed

lemma release_cidrs_frees:
  assumes "netutils_ok nu" "wf_alloc r" "a < length (objs r)" "\<forall>c \<in> set cs. wf_net c" "release_cidrs nu r a cs = (r', Ret u)"
  shows "(\<forall>b f. busy r' b f \<subseteq> busy r b f) \<and> (\<forall>c \<in> set cs. \<forall>n \<in> busy r' a (family_of c). addresses n \<inter> addresses c = {})"
  using assms(2-)
proof (induction cs arbitrary: r)
  case (Cons c cs)
  obtain r1 o1 where o: "Release nu r a c = (r1, o1)" by force
  have o1: "o1 = Ret ()" "release_cidrs nu r1 a cs = (r', Ret u)" using Cons.prems(4) o by (cases o1; simp)+
  have c: "wf_net c" using Cons.prems(3) by simp
  note sp = Release_spares [OF assms(1) Cons.prems(1,2) c o]
  note sh = Release_shrinks [OF assms(1) Cons.prems(1,2) c o]
  have w1: "wf_alloc r1" "a < length (objs r1)"
    using sp same_shape_mapped [of r r1] Cons.prems(2) by (auto simp: spares_def)
  have ih: "\<forall>b f. busy r' b f \<subseteq> busy r1 b f" "\<forall>c \<in> set cs. \<forall>n \<in> busy r' a (family_of c). addresses n \<inter> addresses c = {}"
    using Cons.IH [OF w1 _ o1(2)] Cons.prems(3) by auto
  have "\<forall>n \<in> busy r' a (family_of c). addresses n \<inter> addresses c = {}" using sp o1(1) ih(1) by blast
  moreover have "busy r' b f \<subseteq> busy r b f" for b f using ih(1) sh [of b f] by blast
  ultimately show ?case using ih(2) by simp
qed simp

lemma release_cidrs_succeeds:
  assumes "netutils_ok nu" "wf_alloc r" "a < length (objs r)" "\<forall>c \<in> set cs. wf_net c \<and> c \<in> busy r a (family_of c)"
    "distinct (map family_of cs)"
  shows "\<exists>r'. release_cidrs nu r a cs = (r', Ret ())"
  using assms(2-)
proof (induction cs arbitrary: r)
  case (Cons c cs)
  obtain r1 o1 where o: "Release nu r a c = (r1, o1)" by force
  have c: "wf_net c" "c \<in> busy r a (family_of c)" using Cons.prems(3) by simp_all
  obtain s where "get_set (family_of c) (objs r ! a) = Some s" "nets_intersect (set_ClusterCIDR s) c"
    using busy_intersects [OF Cons.prems(1,2) c(2)] .
  then have o1: "o1 = Ret ()" using Release_spec(1) [OF assms(1) Cons.prems(1,2) c(1)] o by auto
  note sp = Release_spares [OF assms(1) Cons.prems(1,2) c(1) o]
  have w1: "wf_alloc r1" "a < length (objs r1)"
    using sp same_shape_mapped [of r r1] Cons.prems(2) by (auto simp: spares_def)
  have "d \<in> busy r1 a (family_of d)" if d: "d \<in> set cs" for d
  proof -
    have "family_of d \<noteq> family_of c" using Cons.prems(4) d by (auto simp: image_iff)
    moreover have "d \<in> busy r a (family_of d)" using Cons.prems(3) d by simp
    ultimately show ?thesis using sp Cons.prems(2) unfolding spares_def by fastforce
  qed
  then show ?case using Cons.IH [OF w1] Cons.prems(3,4) o o1 by simp
qed simp

lemma release_pods_as_cidrs:
  assumes "release_pod_cidrs nu r a pods = (r', Ret u)"
  shows "\<exists>ns. set ns = pod_nets nu pods \<and> release_cidrs nu r a ns = (r', Ret u)"
  using assms
proof (induction pods arbitrary: r)
  case (Cons p pods)
  obtain ip n r1 where s: "ParseCIDRSloppy nu p = Inr (ip, n)" "Release nu r a n = (r1, Ret ())" "release_pod_cidrs nu r1 a pods = (r', Ret u)"
    using Cons.prems by (auto split: sum.splits prod.splits outcome.splits)
  from Cons.IH [OF s(3)] obtain ns where "set ns = pod_nets nu pods" "release_cidrs nu r1 a ns = (r', Ret u)" by blast
  then show ?case using s(1,2) by (intro exI [of _ "n # ns"]) (auto simp: pod_nets_def)
qed (simp add: pod_nets_def)

end
