(* ===== verification/LabelsRef.thy ===== *)
theory LabelsRef
  imports Selector
begin

text \<open>What the controller relies on from the labels package, and an instance that has it: the equality selectors
  \<open>k=v,...\<close>. A selector printed as a map key and parsed again has the same requirements.\<close>

definition labels_law :: "('sel, 'req) LabelsLib \<Rightarrow> bool" where
  "labels_law lib \<longleftrightarrow> (\<forall>reqs. (\<forall>q \<in> set reqs. \<exists>key op vals. labels_NewRequirement lib key op vals = Inr q) \<longrightarrow>
     (\<exists>ls qs. labels_Parse lib (labels_String lib (labels_Add lib (labels_NewSelector lib) reqs)) = Inr ls \<and>
        labels_Requirements lib ls = (qs, True) \<and> mset qs = mset reqs))"

fun split_on :: "char \<Rightarrow> string \<Rightarrow> string list" where
  "split_on c [] = [[]]"
| "split_on c (x # xs) =
     (if x = c then [] # split_on c xs
      else case split_on c xs of y # ys \<Rightarrow> (x # y) # ys | [] \<Rightarrow> [[x]])"

fun join_on :: "char \<Rightarrow> string list \<Rightarrow> string" where
  "join_on c [] = []"
| "join_on c [s] = s"
| "join_on c (s # t # ss) = s @ c # join_on c (t # ss)"

type_synonym eq_req = "string \<times> string"

definition print_req :: "eq_req \<Rightarrow> string" where
  "print_req q = fst q @ CHR ''='' # snd q"

definition parse_req :: "string \<Rightarrow> eq_req" where
  "parse_req s = (takeWhile (\<lambda>c. c \<noteq> CHR ''='') s, drop 1 (dropWhile (\<lambda>c. c \<noteq> CHR ''='') s))"

definition plain :: "string \<Rightarrow> bool" where
  "plain s = list_all (\<lambda>c. c \<noteq> CHR ''='' \<and> c \<noteq> CHR '','') s"

definition ref_labels :: "(eq_req list option, eq_req) LabelsLib" where
  "ref_labels =
     \<lparr> labels_Parse = (\<lambda>s. if s = [] then Inr (Some []) else Inr (Some (map parse_req (split_on CHR '','' s)))),
       labels_Requirements = (\<lambda>sel. case sel of Some reqs \<Rightarrow> (reqs, True) | None \<Rightarrow> ([], False)),
       labels_Matches = (\<lambda>q ls. map_of ls (fst q) = Some (snd q)),
       labels_NewRequirement = (\<lambda>key op vals.
          if op = Op_In \<and> length vals = 1 \<and> plain key \<and> plain (hd vals) then Inr (key, hd vals)
          else Inl (Errorf ''not an equality requirement'')),
       labels_NewSelector = Some [],
       labels_Add = (\<lambda>sel reqs. map_option (\<lambda>old. old @ reqs) sel),
       labels_String = (\<lambda>sel. case sel of Some reqs \<Rightarrow> join_on CHR '','' (map print_req reqs) | None \<Rightarrow> []),
       labels_Nothing = None,
       labels_Everything = Some [] \<rparr>"

lemma split_on_plain: "c \<notin> set s \<Longrightarrow> split_on c s = [s]"
  by (induction s) auto

lemma split_on_append: "c \<notin> set s \<Longrightarrow> split_on c (s @ c # t) = s # split_on c t"
  by (induction s) auto

lemma split_join: "ss \<noteq> [] \<Longrightarrow> (\<And>s. s \<in> set ss \<Longrightarrow> c \<notin> set s) \<Longrightarrow> split_on c (join_on c ss) = ss"
  by (induction c ss rule: join_on.induct) (simp_all add: split_on_plain split_on_append)

lemma parse_print: "plain (fst q) \<Longrightarrow> parse_req (print_req q) = q"
proof -
  assume "plain (fst q)"
  then have "\<forall>c \<in> set (fst q). c \<noteq> CHR ''=''" by (simp add: plain_def list_all_iff)
  then show ?thesis
    by (cases q) (simp add: parse_req_def print_req_def takeWhile_append2 dropWhile_append2)
qed

lemma print_req_comma: "plain (fst q) \<Longrightarrow> plain (snd q) \<Longrightarrow> CHR '','' \<notin> set (print_req q)"
proof -
  assume "plain (fst q)" "plain (snd q)"
  then have "CHR '','' \<notin> set (fst q)" "CHR '','' \<notin> set (snd q)" unfolding plain_def list_all_iff by blast+
  moreover have "CHR '','' \<noteq> CHR ''=''" by simp
  ultimately show ?thesis unfolding print_req_def by (simp only: set_append list.set Un_iff insert_iff simp_thms)
qed

lemma join_on_nonempty: "(\<And>s. s \<in> set ss \<Longrightarrow> s \<noteq> []) \<Longrightarrow> ss \<noteq> [] \<Longrightarrow> join_on c ss \<noteq> []"
  by (induction c ss rule: join_on.induct) simp_all

lemma ref_labels_law: "labels_law ref_labels"
  unfolding labels_law_def
proof (intro allI impI)
  fix reqs :: "eq_req list"
  assume "\<forall>q \<in> set reqs. \<exists>key op vals. labels_NewRequirement ref_labels key op vals = Inr q"
  then have p: "\<forall>q \<in> set reqs. plain (fst q) \<and> plain (snd q)"
    by (fastforce simp: ref_labels_def split: if_splits)
  have st: "labels_String ref_labels (labels_Add ref_labels (labels_NewSelector ref_labels) reqs) = join_on CHR '','' (map print_req reqs)"
    by (simp add: ref_labels_def)
  have "labels_Parse ref_labels (join_on CHR '','' (map print_req reqs)) = Inr (Some reqs)"
  proof (cases "reqs = []")
    case False
    have "split_on CHR '','' (join_on CHR '','' (map print_req reqs)) = map print_req reqs"
      using False p print_req_comma by (intro split_join) (simp, fastforce)
    moreover have "map parse_req (map print_req reqs) = reqs" using p by (simp add: map_idI parse_print comp_def)
    moreover have "join_on CHR '','' (map print_req reqs) \<noteq> []"
      using False by (intro join_on_nonempty) (auto simp: print_req_def)
    ultimately show ?thesis by (simp add: ref_labels_def)
  qed (simp add: ref_labels_def)
  then show "\<exists>ls qs. labels_Parse ref_labels (labels_String ref_labels (labels_Add ref_labels (labels_NewSelector ref_labels) reqs)) = Inr ls \<and>
      labels_Requirements ref_labels ls = (qs, True) \<and> mset qs = mset reqs"
    by (simp add: st) (simp add: ref_labels_def)
qed

lemma key_match:
  assumes "labels_law lib" "convert_requirements lib rs = Inr reqs"
    "key = labels_String lib (labels_Add lib (labels_NewSelector lib) reqs)"
  shows "matchCIDRLabels lib node key =
    Inr ((\<forall>q \<in> set reqs. labels_Matches lib q (node_Labels node)),
         int (length (filter (\<lambda>q. labels_Matches lib q (node_Labels node)) reqs)))"
proof -
  have new: "\<exists>key op vals. labels_NewRequirement lib key op vals = Inr q" if "q \<in> set reqs" for q
    using assms(2) that
  proof (induction rs arbitrary: reqs)
    case (Cons rq rs)
    then obtain q' qs where c: "nodeSelectorRequirementsAsLabelRequirements lib rq = Inr q'" "convert_requirements lib rs = Inr qs"
      "reqs = q' # qs" by (auto split: sum.splits)
    have "\<exists>op. labels_NewRequirement lib (nsr_Key rq) op (nsr_Values rq) = Inr q'"
      using c(1) unfolding nodeSelectorRequirementsAsLabelRequirements_def Let_def by (meson Inl_Inr_False)
    then show ?case using Cons c by auto
  qed simp
  then obtain ls qs where l: "labels_Parse lib key = Inr ls" "labels_Requirements lib ls = (qs, True)" "mset qs = mset reqs"
    using assms(1,3) unfolding labels_law_def by blast
  let ?P = "\<lambda>q. labels_Matches lib q (node_Labels node)"
  have "mset (filter ?P qs) = mset (filter ?P reqs)" by (simp add: l(3))
  then have "length (filter ?P qs) = length (filter ?P reqs)" by (metis size_mset)
  moreover have "length qs = length reqs" using l(3) by (metis size_mset)
  ultimately show ?thesis using l(1,2) by (simp add: matchCIDRLabels_def Let_def length_filter_all)
qed

end
