(* ===== verification/Demo.thy ===== *)
theory Demo
  imports Outcomes LabelsRef
begin

text \<open>A small concrete cluster, on which the general results are instantiated: one IPv4 object for the nodes
  labelled \<open>env=prod\<close> and one dual-stack default object.\<close>

lemma ref_netutils_ok: "netutils_ok ref_netutils"
  using ref_netutils_families ref_netutils_parse
  by (auto simp: netutils_ok_def netutils_cidr_def wf_net_def ip_To4_def)

definition default_key :: string where
  "default_key = ''kubernetes.io/clusterCIDR=default''"

definition demo_store :: store where
  "demo_store =
     [\<lparr> cc_Name = ''prod'', IPv4CIDRSet = Some (demo_set demo_v4), IPv6CIDRSet = None, AssociatedNodes = [], Terminating = False \<rparr>,
      \<lparr> cc_Name = ''spare'', IPv4CIDRSet = Some (demo_set demo_v4), IPv6CIDRSet = Some (demo_set demo_v6),
         AssociatedNodes = [(''n0'', True)], Terminating = True \<rparr>]"

definition demo_alloc :: allocator where
  "demo_alloc = \<lparr> objs = demo_store, cidrMap = [(''env=prod'', [0]), (default_key, [1])], effects = [] \<rparr>"

definition demo_node :: "string list \<Rightarrow> Node" where
  "demo_node pods = \<lparr> node_Name = ''n0'', node_Labels = [(''env'', ''prod'')], node_PodCIDRs = pods, node_DeletionTimestamp = None \<rparr>"

definition demo_object :: "string list \<Rightarrow> ClusterCIDRObject" where
  "demo_object fins = \<lparr> obj_Name = ''prod'', obj_Generation = 1, obj_ResourceVersion = ''7'', obj_Finalizers = fins,
     obj_DeletionTimestamp = None,
     obj_Spec = \<lparr> spec_NodeSelector = Some [\<lparr> MatchExpressions =
         [\<lparr> nsr_Key = ''env'', nsr_Operator = ''In'', nsr_Values = [''prod''] \<rparr>], MatchFields = [] \<rparr>],
       PerNodeHostBits = 4, spec_IPv4 = net_String demo_v4, spec_IPv6 = [] \<rparr> \<rparr>"

definition demo_api :: "bool \<Rightarrow> Api" where
  "demo_api timeout =
     \<lparr> nodeLister_Get = (\<lambda>_. Inr (demo_node [])), clusterCIDRLister_Get = (\<lambda>_. Inr (demo_object [])),
       api_PatchNodeCIDRs = (\<lambda>i _ _. if timeout \<or> i < 2 then Some (Errorf ''patch failed'') else None),
       api_Create = (\<lambda>_. None), api_Update = (\<lambda>_. None),
       api_List = (\<lambda>i. if i < 3 then Inl (Errorf ''unavailable'') else Inr [demo_object []]),
       IsNotFound = (\<lambda>_. False), IsServerTimeout = (\<lambda>_. timeout) \<rparr>"

lemma all_family: "(\<forall>f. P f) \<longleftrightarrow> P V4 \<and> P V6"
  by (metis family.exhaust)

lemma demo_wf_cc: "a < length demo_store \<Longrightarrow> wf_cc (demo_store ! a)"
proof -
  have "family_of demo_v4 = V4" "family_of demo_v6 = V6" by (simp_all add: family_of_def demo_dims)
  then have "wf_cc (demo_store ! 0)" "wf_cc (demo_store ! 1)"
    using demo_wf by (simp_all add: wf_cc_def all_family has_set_def demo_store_def)
  moreover assume "a < length demo_store"
  then have "a = 0 \<or> a = 1" by (auto simp: demo_store_def)
  ultimately show ?thesis by auto
qed

lemma demo_alloc_sel [simp]:
  "objs demo_alloc = demo_store" "cidrMap demo_alloc = [(''env=prod'', [0]), (default_key, [1])]" "effects demo_alloc = []"
  "mapped demo_alloc = [0, 1]" "length demo_store = 2"
  by (simp_all add: demo_alloc_def mapped_def demo_store_def)

lemma demo_wf_alloc: "wf_alloc demo_alloc"
  using demo_wf_cc by (auto simp: wf_alloc_def default_key_def)

lemma demo_sets [simp]:
  "get_set V4 (demo_store ! 0) = Some (demo_set demo_v4)" "get_set V6 (demo_store ! 0) = None"
  "get_set V4 (demo_store ! Suc 0) = Some (demo_set demo_v4)" "get_set V6 (demo_store ! Suc 0) = Some (demo_set demo_v6)"
  by (simp_all add: demo_store_def)

end
