(* ===== verification/QueueProps.thy ===== *)
theory QueueProps
  imports Demo
begin

text \<open>Properties of the choice of ClusterCIDRs for a node: the priority queue, the matching of selectors, and
  \<open>orderedMatchingClusterCIDRs\<close>.\<close>



text \<open>With equal label counts and equal capacities, an object with only an IPv6 range
  whose node mask is longer than 32 bits precedes every object with an IPv4 range, however many addresses
  their node blocks have: the comparison of node masks does not take the address family into account.\<close>

theorem mask_across_families:
  assumes "labelMatchCount x = labelMatchCount y"
    "maxAllocatable (st ! pqi_clusterCIDR x) = maxAllocatable (st ! pqi_clusterCIDR y)"
    "IPv4CIDRSet (st ! pqi_clusterCIDR x) = None" "IPv6CIDRSet (st ! pqi_clusterCIDR x) = Some s6" "32 < NodeMaskSize s6"
    "IPv4CIDRSet (st ! pqi_clusterCIDR y) = Some s4" "NodeMaskSize s4 \<le> 32"
  shows "pq_Less st x y = Some True"
  using assms by (simp add: pq_Less_def nodeMaskSize_def Let_def)

theorem mask_across_families_witness:
  "pq_Less [\<lparr> cc_Name = ''v6'', IPv4CIDRSet = None, IPv6CIDRSet = Some ((demo_set demo_v6)\<lparr>NodeMaskSize := 64\<rparr>),
              AssociatedNodes = [], Terminating = False \<rparr>,
            \<lparr> cc_Name = ''v4'', IPv4CIDRSet = Some (demo_set demo_v4), IPv6CIDRSet = None, AssociatedNodes = [], Terminating = False \<rparr>]
     (match_item 0 ''a'' 0) (match_item 0 ''a'' 1) = Some True \<and> (2::nat) ^ (128 - 64) > 2 ^ (32 - 28)"
  using mask_across_families [of "match_item 0 ''a'' 0" "match_item 0 ''a'' 1"
      "[\<lparr> cc_Name = ''v6'', IPv4CIDRSet = None, IPv6CIDRSet = Some ((demo_set demo_v6)\<lparr>NodeMaskSize := 64\<rparr>),
              AssociatedNodes = [], Terminating = False \<rparr>,
        \<lparr> cc_Name = ''v4'', IPv4CIDRSet = Some (demo_set demo_v4), IPv6CIDRSet = None, AssociatedNodes = [], Terminating = False \<rparr>]"
      "(demo_set demo_v6)\<lparr>NodeMaskSize := 64\<rparr>" "demo_set demo_v4"]
  by (simp add: match_item_def maxAllocatable_def MaxInt_def demo_dims)



lemma matching_items_iff:
  "a \<in> pqi_clusterCIDR ` set (matching_items lib node occ st m) \<longleftrightarrow>
     (\<exists>label l cnt. (label, l) \<in> set m \<and> a \<in> set l \<and> matchCIDRLabels lib node label = Inr (True, cnt) \<and> (\<not> occ \<or> \<not> Terminating (st ! a)))"
proof (induction m)
  case (Cons x m)
  obtain label l where x: "x = (label, l)" by force
  have im: "pqi_clusterCIDR ` match_item cnt label ` A = A" for cnt A by (force simp: match_item_def)
  have "a \<in> pqi_clusterCIDR ` set (matching_items lib node occ st (x # m)) \<longleftrightarrow>
    (\<exists>cnt. matchCIDRLabels lib node label = Inr (True, cnt) \<and> a \<in> set (eligible st occ l)) \<or>
    a \<in> pqi_clusterCIDR ` set (matching_items lib node occ st m)"
  proof (cases "\<exists>cnt. matchCIDRLabels lib node label = Inr (True, cnt)")
    case True
    then obtain cnt where "matchCIDRLabels lib node label = Inr (True, cnt)" by blast
    then show ?thesis by (simp add: x im image_Un)
  next
    case False
    then have "(case matchCIDRLabels lib node label of Inr (True, cnt) \<Rightarrow> map (match_item cnt label) (eligible st occ l) | _ \<Rightarrow> []) = []"
      by (auto split: sum.split prod.split bool.split)
    then show ?thesis using False by (simp add: x)
  qed
  then show ?case unfolding Cons.IH by (auto simp: x eligible_def)
qed simp

text \<open>C15. The objects \<open>orderedMatchingClusterCIDRs\<close> returns are those whose selector the node
  matches and, on an occupy or allocate call, which are not terminating, together with every object of the
  default selector, whether it is terminating or not.\<close>

theorem selected_objects:
  assumes "wf_alloc r" "orderedMatchingClusterCIDRs lib r node occ = Ret l"
  shows "a \<in> set l \<longleftrightarrow> a \<in> set (catch_all lib (cidrMap r)) \<or>
    (\<exists>label as cnt. (label, as) \<in> set (cidrMap r) \<and> a \<in> set as \<and> matchCIDRLabels lib node label = Inr (True, cnt) \<and>
       (\<not> occ \<or> \<not> Terminating (objs r ! a)))"
proof -
  from ordered_matching_spec [OF assms(1), of lib node occ] assms(2) obtain items where
    l: "l = map fst items @ catch_all lib (cidrMap r)"
    and m: "mset items = mset (map item_content (matching_items lib node occ (objs r) (cidrMap r)))" by auto
  have "fst ` set items = pqi_clusterCIDR ` set (matching_items lib node occ (objs r) (cidrMap r))"
    using mset_eq_setD [OF m] by (simp add: image_image item_content_def)
  then show ?thesis unfolding l matching_items_iff [symmetric] by auto
qed

lemma demo_match:
  "matchCIDRLabels ref_labels (demo_node pods) ''env=prod'' = Inr (True, 1)"
  "matchCIDRLabels ref_labels (demo_node pods) default_key = Inr (False, 0)"
  "nodeSelectorAsSelector ref_labels (Some defaultNodeSelector) = Inr (Some [(defaultClusterCIDRKey, defaultClusterCIDRValue)])"
  "labels_String ref_labels (Some [(defaultClusterCIDRKey, defaultClusterCIDRValue)]) = default_key"
  "default_key \<noteq> ''env=prod''"
proof -
  have n: "matchCIDRLabels ref_labels (demo_node pods) label = matchCIDRLabels ref_labels (demo_node []) label" for label
  proof -
    have "node_Labels (demo_node pods) = node_Labels (demo_node [])" by (simp add: demo_node_def)
    then show ?thesis by (simp only: matchCIDRLabels_def)
  qed
  show "matchCIDRLabels ref_labels (demo_node pods) ''env=prod'' = Inr (True, 1)" unfolding n by code_simp
  show "matchCIDRLabels ref_labels (demo_node pods) default_key = Inr (False, 0)" unfolding n by code_simp
qed code_simp+

lemma demo_ordered_first:
  assumes "cidrMap r = (''env=prod'', [0]) # m" "m = [] \<or> m = [(default_key, [1])]" "\<not> Terminating (objs r ! 0)"
  shows "orderedMatchingClusterCIDRs ref_labels r (demo_node pods) True = Ret (if m = [] then [0] else [0, 1])"
proof -
  have p: "push_matching ref_labels (demo_node pods) True (objs r) [] (cidrMap r) = Ret [match_item 1 ''env=prod'' 0]"
    using assms demo_match by (auto simp: pq_Push_def heap_Push_def heap_up.simps pq_place_def match_item_def)
  show ?thesis using assms(1,2) demo_match(3-5) unfolding orderedMatchingClusterCIDRs_def p
    by (auto simp: pq_Pop_def heap_Pop_def heap_down.simps heap_swap_def match_item_def pq_place_def pq_out_def)
qed

lemma demo_ordered: "orderedMatchingClusterCIDRs ref_labels demo_alloc (demo_node pods) True = Ret [0, 1]"
  using demo_ordered_first [of demo_alloc "[(default_key, [1])]" pods] by (simp add: demo_store_def)

theorem selected_objects_witness:
  "Terminating (objs demo_alloc ! 1) \<and> (1 \<in> set [0, 1 :: nat] \<longleftrightarrow> 1 \<in> set (catch_all ref_labels (cidrMap demo_alloc)) \<or>
    (\<exists>label as cnt. (label, as) \<in> set (cidrMap demo_alloc) \<and> 1 \<in> set as \<and>
       matchCIDRLabels ref_labels (demo_node []) label = Inr (True, cnt) \<and> (\<not> True \<or> \<not> Terminating (objs demo_alloc ! 1))))"
  using selected_objects [OF demo_wf_alloc demo_ordered, of 1] by (simp add: demo_store_def)



end
