(* ===== verification/AllocProps.thy ===== *)
theory AllocProps
  imports QueueProps
begin

text \<open>Properties of allocation, occupation, release and the service ranges.\<close>

text \<open>C6. \<open>allocateCIDR\<close> on a set of a well-formed allocator returns either a block of
  that set that overlaps no block in use in any mapped object, and then marks exactly this block, or, after
  at most one round over the set, the no-CIDRs-remaining error, and then every block of the set is in use or
  overlaps one in use and no block was marked.\<close>

theorem allocate_fresh_or_full:
  assumes "netutils_ok nu" "wf_alloc r" "a < length (objs r)" "get_set f (objs r ! a) = Some s"
  shows "case allocateCIDR nu r a f of
      (r', Ret c) \<Rightarrow> \<exists>i. in_range s i \<and> i \<notin> used s \<and> c = blk s i \<and> \<not> conflicts r c \<and> wf_alloc r' \<and>
        busy r' a f = insert c (busy r a f)
    | (r', Fail e) \<Rightarrow> e = CIDRRangeNoCIDRsRemainingErr (set_Label s) \<and> (\<forall>i. in_range s i \<longrightarrow> i \<in> used s \<or> conflicts r (blk s i)) \<and>
        wf_alloc r' \<and> busy r' = busy r
    | (r', Panic) \<Rightarrow> False"
  using allocateCIDR_spec [OF assms]
proof (elim disjE exE conjE)
  fix i t assume i: "in_range s i" "i \<notin> used s" "\<not> conflicts r (blk s i)" and t: "wf_set t" "same_pool s t" "used t = insert i (used s)"
    and eq: "allocateCIDR nu r a f = (upd_obj a (put_set f t) r, Ret (blk s i))"
  then show ?thesis
    using wf_alloc_put [OF assms(2,4) t(1,2)] same_pool_geometry(2) [OF t(2)]
    by (auto simp: busy_put [OF assms(3)] busy_some [OF assms(4)])
next
  fix t assume all: "\<forall>i. in_range s i \<longrightarrow> i \<in> used s \<or> conflicts r (blk s i)" and t: "wf_set t" "same_pool s t" "used t = used s"
    and eq: "allocateCIDR nu r a f = (upd_obj a (put_set f t) r, Fail (CIDRRangeNoCIDRsRemainingErr (set_Label s)))"
  have "busy (upd_obj a (put_set f t) r) b g = busy r b g" for b g
    using t(3) same_pool_geometry(2) [OF t(2)] by (simp add: busy_put [OF assms(3)] busy_some [OF assms(4)])
  then show ?thesis using all eq wf_alloc_put [OF assms(2,4) t(1,2)] by (simp add: fun_eq_iff)
qed

theorem allocate_fresh_or_full_witness:
  "case allocateCIDR ref_netutils demo_alloc 0 V4 of
      (r', Ret c) \<Rightarrow> \<exists>i. in_range (demo_set demo_v4) i \<and> i \<notin> used (demo_set demo_v4) \<and> c = blk (demo_set demo_v4) i \<and>
        \<not> conflicts demo_alloc c \<and> wf_alloc r' \<and> busy r' 0 V4 = insert c (busy demo_alloc 0 V4)
    | (r', Fail e) \<Rightarrow> e = CIDRRangeNoCIDRsRemainingErr (set_Label (demo_set demo_v4)) \<and>
        (\<forall>i. in_range (demo_set demo_v4) i \<longrightarrow> i \<in> used (demo_set demo_v4) \<or> conflicts demo_alloc (blk (demo_set demo_v4) i)) \<and>
        wf_alloc r' \<and> busy r' = busy demo_alloc
    | (r', Panic) \<Rightarrow> False"
  by (rule allocate_fresh_or_full [OF ref_netutils_ok demo_wf_alloc]) (simp_all add: demo_store_def)



text \<open>Allocation in one family, decided by whether the family is exhausted.\<close>

lemma allocate_family_decided:
  assumes "netutils_ok nu" "wf_alloc r" "a < length (objs r)" "get_set f (objs r ! a) = Some s"
  shows "exhausted r a f \<Longrightarrow> \<exists>t e. allocate_family nu r a f = (upd_obj a (put_set f t) r, Fail e)"
    and "\<not> exhausted r a f \<Longrightarrow> \<exists>t c. allocate_family nu r a f = (upd_obj a (put_set f t) r, Ret [c]) \<and> c \<notin> busy r a f"
proof -
  have fresh: "blk s i \<notin> busy r a f" if "in_range s i" "i \<notin> used s" for i
    using that used_subset [of s] blk_inject [OF wf_setD(1) [OF wf_alloc_set(1) [OF assms(2-4)]]]
    by (auto simp: busy_some [OF assms(4)])
  show "exhausted r a f \<Longrightarrow> \<exists>t e. allocate_family nu r a f = (upd_obj a (put_set f t) r, Fail e)"
    using allocateCIDR_spec [OF assms] assms(4) by (auto simp: exhausted_def allocate_family_def)
  show "\<not> exhausted r a f \<Longrightarrow> \<exists>t c. allocate_family nu r a f = (upd_obj a (put_set f t) r, Ret [c]) \<and> c \<notin> busy r a f"
    using allocateCIDR_spec [OF assms] assms(4) fresh by (auto simp: exhausted_def allocate_family_def)
qed

lemma exhausted_other_family:
  assumes "wf_alloc r" "a < length (objs r)" "f \<noteq> g"
  shows "exhausted (upd_obj a (put_set f t) r) a g = exhausted r a g"
proof (cases "get_set g (objs r ! a)")
  case (Some s)
  have "family_of (blk s i) = g" if "in_range s i" for i
    using wf_net_blk [OF wf_setD(1) [OF wf_alloc_set(1) [OF assms(1,2) Some]] that] wf_alloc_set(2) [OF assms(1,2) Some]
    by (simp add: family_of_def)
  then have "conflicts (upd_obj a (put_set f t) r) (blk s i) = conflicts r (blk s i)" if "in_range s i" for i
    using assms(3) that by (simp add: conflicts_def busy_put [OF assms(2)])
  then show ?thesis using Some assms by (auto simp: exhausted_def upd_obj_nth)
qed (use assms in \<open>simp add: exhausted_def upd_obj_nth\<close>)

lemma first_object_allocates:
  assumes "netutils_ok nu" "wf_alloc r" "orderedMatchingClusterCIDRs lib r node True = Ret (a # l)"
    "\<forall>f s. get_set f (objs r ! a) = Some s \<longrightarrow> (\<exists>i. in_range s i \<and> i \<notin> used s \<and> \<not> conflicts r (blk s i))"
  shows "\<exists>r' cs. prioritizedCIDRs nu lib r node = (r', Ret (cs, a)) \<and>
    length cs = (if IPv4CIDRSet (objs r ! a) \<noteq> None \<and> IPv6CIDRSet (objs r ! a) \<noteq> None then 2 else 1) \<and>
    (\<forall>f. f \<in> family_of ` set cs \<longleftrightarrow> get_set f (objs r ! a) \<noteq> None)"
proof -
  have a: "a < length (objs r)" using ordered_matching_mapped [OF assms(2,3)] mapped_bound [OF assms(2)] by auto
  have free: "\<not> exhausted r a f" for f using assms(4) unfolding exhausted_def by blast
  have fam: "\<exists>s cs. allocate_family nu s0 a f = (s, Ret cs) \<and> length cs = (if get_set f (objs s0 ! a) = None then 0 else 1) \<and>
      family_of ` set cs = (if get_set f (objs s0 ! a) = None then {} else {f}) \<and> (s = s0 \<or> (\<exists>t. s = upd_obj a (put_set f t) s0)) \<and> wf_alloc s"
    if s0: "wf_alloc s0" "a < length (objs s0)" "\<not> exhausted s0 a f" for s0 f
  proof (cases "get_set f (objs s0 ! a)")
    case None
    then show ?thesis using s0(1) by (simp add: allocate_family_def)
  next
    case (Some s)
    from allocate_family_decided(2) [OF assms(1) s0(1,2) Some s0(3)] obtain t c where
      c: "allocate_family nu s0 a f = (upd_obj a (put_set f t) s0, Ret [c])" by blast
    then show ?thesis using allocate_family_spec [OF assms(1) s0(1,2) c] Some by auto
  qed
  from fam [OF assms(2) a free] obtain r1 c4 where c4: "allocate_family nu r a V4 = (r1, Ret c4)"
    "length c4 = (if get_set V4 (objs r ! a) = None then 0 else 1)" "family_of ` set c4 = (if get_set V4 (objs r ! a) = None then {} else {V4})"
    "r1 = r \<or> (\<exists>t. r1 = upd_obj a (put_set V4 t) r)" "wf_alloc r1" by blast
  have r1: "a < length (objs r1)" "\<not> exhausted r1 a V6" "get_set V6 (objs r1 ! a) = get_set V6 (objs r ! a)"
    using c4(4) a free exhausted_other_family [OF assms(2) a, of V4 V6] by (auto simp: upd_obj_nth)
  from fam [OF c4(5) r1(1,2)] obtain r2 c6 where c6: "allocate_family nu r1 a V6 = (r2, Ret c6)"
    "length c6 = (if get_set V6 (objs r ! a) = None then 0 else 1)" "family_of ` set c6 = (if get_set V6 (objs r ! a) = None then {} else {V6})"
    unfolding r1(3) by blast
  have "has_set (objs r ! a)" using wf_alloc_nth [OF assms(2) a] by (simp add: wf_cc_def)
  then have "length (c4 @ c6) = (if IPv4CIDRSet (objs r ! a) \<noteq> None \<and> IPv6CIDRSet (objs r ! a) \<noteq> None then 2 else 1)"
    using c4(2) c6(2) by (auto simp: has_set_def split: if_splits)
  moreover have "f \<in> family_of ` set (c4 @ c6) \<longleftrightarrow> get_set f (objs r ! a) \<noteq> None" for f
    using c4(3) c6(3) by (cases f) (auto simp: image_Un split: if_splits)
  ultimately show ?thesis using assms(3) c4(1) c6(1) by (simp add: prioritizedCIDRs_def)
qed

text \<open>C8. When the first object in priority order has, in each of its families, a block that is
  free and overlaps none in use, \<open>prioritizedCIDRs\<close> succeeds with exactly one CIDR of each configured family
  from this object.\<close>

theorem first_choice:
  assumes "netutils_ok nu" "wf_alloc r" "orderedMatchingClusterCIDRs lib r node True = Ret (a # l)"
    "\<forall>f s. get_set f (objs r ! a) = Some s \<longrightarrow> (\<exists>i. in_range s i \<and> i \<notin> used s \<and> \<not> conflicts r (blk s i))"
  shows "\<exists>r' cs. prioritizedCIDRs nu lib r node = (r', Ret (cs, a)) \<and>
    length cs = (if IPv4CIDRSet (objs r ! a) \<noteq> None \<and> IPv6CIDRSet (objs r ! a) \<noteq> None then 2 else 1) \<and>
    (\<forall>f. f \<in> family_of ` set cs \<longleftrightarrow> get_set f (objs r ! a) \<noteq> None)"
  by (rule first_object_allocates [OF assms])

lemma demo_free: "a < 2 \<Longrightarrow> busy demo_alloc a f = {}"
  using less_2_cases [of a] by (cases f) (auto simp: busy_def demo_store_def)

lemma demo_no_conflict: "\<not> conflicts demo_alloc c"
  by (auto simp: conflicts_def demo_free)

theorem first_choice_witness:
  "\<exists>r' cs. prioritizedCIDRs ref_netutils ref_labels demo_alloc (demo_node []) = (r', Ret (cs, 0)) \<and>
    length cs = (if IPv4CIDRSet (objs demo_alloc ! 0) \<noteq> None \<and> IPv6CIDRSet (objs demo_alloc ! 0) \<noteq> None then 2 else 1) \<and>
    (\<forall>f. f \<in> family_of ` set cs \<longleftrightarrow> get_set f (objs demo_alloc ! 0) \<noteq> None)"
proof (rule first_choice [OF ref_netutils_ok demo_wf_alloc demo_ordered], intro allI impI)
  fix f s assume "get_set f (objs demo_alloc ! 0) = Some s"
  then have "s = demo_set demo_v4" by (cases f) (simp_all add: demo_store_def)
  then show "\<exists>i. in_range s i \<and> i \<notin> used s \<and> \<not> conflicts demo_alloc (blk s i)"
    using demo_no_conflict by (intro exI [of _ 0]) (simp add: demo_in_range)
qed

text \<open>C39. When an object has a usable IPv4 block but no usable IPv6 block, \<open>prioritizedCIDRs\<close>
  goes on to the next object without giving the IPv4 block back: after the failure a block that was free is
  in use, although no node has it.\<close>

theorem ipv4_block_leaks:
  assumes "netutils_ok nu" "wf_alloc r" "a < length (objs r)" "IPv4CIDRSet (objs r ! a) = Some s4" "IPv6CIDRSet (objs r ! a) = Some s6"
    "\<not> exhausted r a V4" "exhausted r a V6"
  shows "\<exists>r' e c. allocate_in_order nu r [a] = (r', Fail e) \<and> c \<in> busy r' a V4 \<and> c \<notin> busy r a V4"
proof -
  have s: "get_set V4 (objs r ! a) = Some s4" "get_set V6 (objs r ! a) = Some s6" using assms(4,5) by simp_all
  from allocate_family_decided(2) [OF assms(1-3) s(1) assms(6)] obtain t c where
    f4: "allocate_family nu r a V4 = (upd_obj a (put_set V4 t) r, Ret [c])" "c \<notin> busy r a V4" by blast
  let ?r1 = "upd_obj a (put_set V4 t) r"
  note s4 = allocate_family_spec [OF assms(1-3) f4(1)]
  have w: "wf_alloc ?r1" and c: "c \<in> busy ?r1 a V4" and a: "a < length (objs ?r1)" using s4 assms(3) by auto
  have g6: "get_set V6 (objs ?r1 ! a) = Some s6" "exhausted ?r1 a V6"
    using s(2) assms(3,7) exhausted_other_family [OF assms(2,3), of V4 V6] by (simp_all add: upd_obj_nth)
  from allocate_family_decided(1) [OF assms(1) w a g6] obtain u e where
    f6: "allocate_family nu ?r1 a V6 = (upd_obj a (put_set V6 u) ?r1, Fail e)" by blast
  have "c \<in> busy (upd_obj a (put_set V6 u) ?r1) a V4" using c by (simp add: busy_put [OF a])
  then show ?thesis using f4 f6 by auto
qed

lemma demo_v6_full:
  obtains r where "wf_alloc r" "length (objs r) = 2" "IPv4CIDRSet (objs r ! 1) = Some (demo_set demo_v4)"
    "\<exists>s6. IPv6CIDRSet (objs r ! 1) = Some s6" "\<not> exhausted r 1 V4" "exhausted r 1 V6"
proof -
  let ?s = "demo_set demo_v6"
  have f: "family_of demo_v6 = V6" "family_of demo_v4 = V4" by (simp_all add: family_of_def demo_dims)
  have g: "get_set (family_of demo_v6) (objs demo_alloc ! 1) = Some ?s" by (simp add: f demo_store_def)
  from Occupy_spec(1) [OF ref_netutils_ok demo_wf_alloc _ demo_nets(2) g] obtain t where
    t: "wf_set t" "same_pool ?s t" "used t = used ?s \<union> touching ?s demo_v6" using demo_intersects(2) by auto
  let ?r = "upd_obj 1 (put_set V6 t) demo_alloc"
  have w: "wf_alloc ?r" using wf_alloc_put [OF demo_wf_alloc _ t(1,2), of V6 1] g f by simp
  have gs: "get_set V4 (objs ?r ! 1) = Some (demo_set demo_v4)" "get_set V6 (objs ?r ! 1) = Some t"
    by (simp_all add: upd_obj_nth demo_store_def)
  have geo: "wf_geometry ?s" by (rule wf_setD(1) [OF demo_wf(2)])
  have "i \<in> touching ?s demo_v6" if i: "in_range ?s i" for i
    using addresses_blk [OF geo i] net_addr_in_addresses [OF wf_net_blk(1) [OF geo i]] i
    by (auto simp: touching_def in_cluster_def)
  then have "exhausted ?r 1 V6" using gs(2) t(3) same_pool_geometry(3) [OF t(2)] by (auto simp: exhausted_def)
  moreover have "\<not> exhausted ?r 1 V4"
  proof
    assume "exhausted ?r 1 V4"
    then have "conflicts ?r (blk (demo_set demo_v4) 0)" using gs(1) by (auto simp: exhausted_def demo_in_range)
    moreover have "family_of (blk (demo_set demo_v4) 0) = V4"
      using wf_net_blk(3) [OF wf_setD(1) [OF demo_wf(1)]] by (simp add: family_of_def demo_in_range demo_dims)
    ultimately show False by (auto simp: conflicts_def busy_put demo_free)
  qed
  ultimately show ?thesis using that [of ?r] w gs by (simp add: upd_obj_def)
qed

theorem ipv4_block_leaks_witness:
  "\<exists>r r' e c. wf_alloc r \<and> allocate_in_order ref_netutils r [1] = (r', Fail e) \<and> c \<in> busy r' 1 V4 \<and> c \<notin> busy r 1 V4"
proof -
  obtain r where r: "wf_alloc r" "length (objs r) = 2" "IPv4CIDRSet (objs r ! 1) = Some (demo_set demo_v4)"
    "\<exists>s6. IPv6CIDRSet (objs r ! 1) = Some s6" "\<not> exhausted r 1 V4" "exhausted r 1 V6"
    using demo_v6_full .
  then show ?thesis using ipv4_block_leaks [OF ref_netutils_ok r(1) _ r(3) _ r(5,6)] by auto
qed

text \<open>C10. \<open>occupyCIDRs\<close> frees nothing and keeps the invariant; when it succeeds for a node with
  pod CIDRs, one mapped object records the node and has in use every block that overlaps one of the pod
  CIDRs, so that none of these addresses is given to another node from there.\<close>

theorem occupy_covers:
  assumes "netutils_ok nu" "wf_alloc r" "pods_ok nu (node_PodCIDRs node)" "node_PodCIDRs node \<noteq> []"
  shows "case occupyCIDRs nu lib r node of (r', res) \<Rightarrow> wf_alloc r' \<and> grows r r' \<and> cidrMap r' = cidrMap r \<and>
    (res = Ret () \<longrightarrow> (\<exists>a \<in> set (mapped r). node_Name node \<in> assoc_names r' a \<and>
      (\<forall>n \<in> pod_nets nu (node_PodCIDRs node). \<exists>s. get_set (family_of n) (objs r' ! a) = Some s \<and>
         nets_intersect (set_ClusterCIDR s) n \<and> touching s n \<subseteq> used s)))"
proof -
  obtain r' res where o: "occupyCIDRs nu lib r node = (r', res)" by force
  from occupyCIDRs_kept [OF assms(1-3) o] show ?thesis
    using o assms(4) by (auto simp: kept_def same_shape_def covered_def)
qed

lemma demo_pods: "pods_ok ref_netutils [net_String demo_v4]" "pod_nets ref_netutils [net_String demo_v4] = {demo_v4}"
  using ref_ParseCIDR_String [OF demo_nets(1)] demo_nets(1) by (auto simp: pods_ok_def pod_nets_def)

theorem occupy_covers_witness:
  "case occupyCIDRs ref_netutils ref_labels demo_alloc (demo_node [net_String demo_v4]) of (r', res) \<Rightarrow>
    wf_alloc r' \<and> grows demo_alloc r' \<and> cidrMap r' = cidrMap demo_alloc \<and>
    (res = Ret () \<longrightarrow> (\<exists>a \<in> set (mapped demo_alloc). node_Name (demo_node [net_String demo_v4]) \<in> assoc_names r' a \<and>
      (\<forall>n \<in> pod_nets ref_netutils (node_PodCIDRs (demo_node [net_String demo_v4])). \<exists>s. get_set (family_of n) (objs r' ! a) = Some s \<and>
         nets_intersect (set_ClusterCIDR s) n \<and> touching s n \<subseteq> used s)))"
  by (rule occupy_covers [OF ref_netutils_ok demo_wf_alloc]) (simp_all add: demo_node_def demo_pods)

end
