(* ===== verification/NodeProps.thy ===== *)
theory NodeProps
  imports AllocProps
begin

text \<open>Properties of releasing a node, of the service ranges, and of the update of the node object.\<close>

lemma ReleaseCIDR_success:
  assumes "netutils_ok nu" "wf_alloc r" "pods_ok nu (node_PodCIDRs node)" "node_PodCIDRs node \<noteq> []"
    "ReleaseCIDR nu lib r (Some node) = (r', Ret ())"
  shows "\<exists>a \<in> set (mapped r). node_Name node \<in> assoc_names r a \<and> node_Name node \<notin> assoc_names r' a \<and>
    (\<forall>b f. busy r' b f \<subseteq> busy r b f) \<and>
    (\<forall>c \<in> pod_nets nu (node_PodCIDRs node). \<forall>n \<in> busy r' a (family_of c). addresses n \<inter> addresses c = {})"
proof -
  obtain a r1 where a: "allocatedClusterCIDR lib r node = Ret a"
    and r1: "release_pod_cidrs nu r a (node_PodCIDRs node) = (r1, Ret ())" "r' = upd_obj a (dissociate (node_Name node)) r1"
    using assms(4,5) by (auto simp: ReleaseCIDR_def split: outcome.splits prod.splits)
  obtain l where l: "orderedMatchingClusterCIDRs lib r node False = Ret l" "a \<in> set l"
    "map_of (AssociatedNodes (objs r ! a)) (node_Name node) = Some True"
    using a by (auto simp: allocatedClusterCIDR_def find_Some_iff split: outcome.splits option.splits)
  have m: "a \<in> set (mapped r)" using ordered_matching_mapped [OF assms(2) l(1)] l(2) by blast
  then have al: "a < length (objs r)" using mapped_bound [OF assms(2)] by blast
  obtain ns where ns: "set ns = pod_nets nu (node_PodCIDRs node)" "release_cidrs nu r a ns = (r1, Ret ())"
    using release_pods_as_cidrs [OF r1(1)] by blast
  have w: "\<forall>c \<in> set ns. wf_net c" using assms(3) by (auto simp: ns(1) pod_nets_def pods_ok_def)
  note fr = release_cidrs_frees [OF assms(1,2) al w ns(2)]
  have in_r: "node_Name node \<in> assoc_names r a" using map_of_SomeD [OF l(3)] by (force simp: assoc_names_def)
  have out: "node_Name node \<notin> assoc_names r' a"
    using al release_cidrs_spares [OF assms(1,2) al w ns(2)] same_shape_mapped [of r r1]
    by (auto simp: r1(2) assoc_names_def upd_obj_nth assoc_fields keys_delete spares_def)
  show ?thesis using m in_r out fr by (intro bexI [of _ a]) (simp_all add: r1(2) ns(1))
qed

text \<open>C9. \<open>ReleaseCIDR\<close> keeps the invariant, never adds a block, and leaves in use every
  block, of any object, that overlaps none of the node's pod CIDRs. When it succeeds for a node with pod CIDRs,
  the object the node was associated with no longer records the node and has no block left in use that
  overlaps them.\<close>

theorem release_effect_on_node:
  assumes "netutils_ok nu" "wf_alloc r" "pods_ok nu (node_PodCIDRs node)" "node_PodCIDRs node \<noteq> []"
  shows "case ReleaseCIDR nu lib r (Some node) of (r', res) \<Rightarrow> wf_alloc r' \<and> cidrMap r' = cidrMap r \<and>
    (\<forall>b < length (objs r). \<forall>f. \<forall>n \<in> busy r b f.
       (\<forall>c \<in> pod_nets nu (node_PodCIDRs node). family_of c = f \<longrightarrow> addresses n \<inter> addresses c = {}) \<longrightarrow> n \<in> busy r' b f) \<and>
    (res = Ret () \<longrightarrow> (\<exists>a \<in> set (mapped r). node_Name node \<in> assoc_names r a \<and> node_Name node \<notin> assoc_names r' a \<and>
       (\<forall>b f. busy r' b f \<subseteq> busy r b f) \<and>
       (\<forall>c \<in> pod_nets nu (node_PodCIDRs node). \<forall>n \<in> busy r' a (family_of c). addresses n \<inter> addresses c = {})))"
proof -
  obtain r' res where rel: "ReleaseCIDR nu lib r (Some node) = (r', res)" by force
  have "res = Ret () \<Longrightarrow> ReleaseCIDR nu lib r (Some node) = (r', Ret ())" using rel by simp
  note succ = ReleaseCIDR_success [OF assms this]
  show ?thesis using ReleaseCIDR_spec [OF assms(1-3) rel] succ rel by (simp add: same_shape_def)
qed

theorem release_effect_on_node_witness:
  "case ReleaseCIDR ref_netutils ref_labels demo_alloc (Some (demo_node [net_String demo_v4])) of (r', res) \<Rightarrow>
    wf_alloc r' \<and> cidrMap r' = cidrMap demo_alloc \<and>
    (\<forall>b < length (objs demo_alloc). \<forall>f. \<forall>n \<in> busy demo_alloc b f.
       (\<forall>c \<in> pod_nets ref_netutils (node_PodCIDRs (demo_node [net_String demo_v4])). family_of c = f \<longrightarrow> addresses n \<inter> addresses c = {}) \<longrightarrow> n \<in> busy r' b f) \<and>
    (res = Ret () \<longrightarrow> (\<exists>a \<in> set (mapped demo_alloc). node_Name (demo_node [net_String demo_v4]) \<in> assoc_names demo_alloc a \<and>
       node_Name (demo_node [net_String demo_v4]) \<notin> assoc_names r' a \<and> (\<forall>b f. busy r' b f \<subseteq> busy demo_alloc b f) \<and>
       (\<forall>c \<in> pod_nets ref_netutils (node_PodCIDRs (demo_node [net_String demo_v4])). \<forall>n \<in> busy r' a (family_of c). addresses n \<inter> addresses c = {})))"
  by (rule release_effect_on_node [OF ref_netutils_ok demo_wf_alloc]) (simp_all add: demo_node_def demo_pods)

lemma same_shape_back:
  assumes "same_shape r r'" "a < length (objs r)" "get_set f (objs r' ! a) = Some t"
  obtains s where "get_set f (objs r ! a) = Some s" "same_pool s t"
proof -
  have "rel_option same_pool (get_set f (objs r ! a)) (Some t)" using assms unfolding same_shape_def by metis
  then show ?thesis using that by (auto simp: option_rel_Some2)
qed

lemma reserved_conflict:
  assumes "wf_alloc r" "a \<in> set (mapped r)" "get_set (family_of svc) (objs r ! a) = Some s" "wf_net svc"
    "\<not> nets_intersect (set_ClusterCIDR s) svc \<or> covered r a svc" "in_range s i" "addresses (blk s i) \<inter> addresses svc \<noteq> {}"
  shows "conflicts r (blk s i)"
proof -
  have a: "a < length (objs r)" using mapped_bound [OF assms(1,2)] .
  note ws = wf_alloc_set [OF assms(1) a assms(3)]
  have g: "wf_geometry s" by (rule wf_setD(1) [OF ws(1)])
  have wc: "wf_net (set_ClusterCIDR s)" using g by (simp add: wf_geometry_def)
  have sf: "same_family s svc" using family_of_eq [OF wc assms(4)] ws(2) by (simp add: same_family_def)
  have "addresses (set_ClusterCIDR s) \<inter> addresses svc \<noteq> {}"
    using assms(7) addresses_blk [OF g assms(6)] by (auto simp: in_cluster_def)
  then have "covered r a svc" using assms(5) cluster_intersect_iff [OF ws(1) assms(4)] sf by blast
  then have "i \<in> used s" using assms(3,6,7) by (auto simp: covered_def touching_def)
  then have "blk s i \<in> busy r a (family_of svc)" by (simp add: busy_some [OF assms(3)])
  moreover have "family_of (blk s i) = family_of svc" using wf_net_blk(3) [OF g assms(6)] ws(2) by (simp add: family_of_def)
  ultimately show ?thesis
    using assms(2) net_addr_in_addresses [OF wf_net_blk(1) [OF g assms(6)]] unfolding conflicts_def by auto
qed

lemma service_reserved:
  assumes "netutils_ok nu" "wf_alloc r" "wf_net svc" "filterOutServiceRange nu r svc = (r1, Ret ())"
    "prioritizedCIDRs nu lib r1 node = (r2, Ret (cs, a))" "c \<in> set cs" "family_of c = family_of svc"
  shows "addresses c \<inter> addresses svc = {}"
proof (rule ccontr)
  assume meet: "addresses c \<inter> addresses svc \<noteq> {}"
  have sub: "set (mapped r) \<subseteq> {..<length (objs r)}" using mapped_bound [OF assms(2)] by blast
  have flt: "filter_service_loop nu r svc (mapped r) = (r1, Ret ())" using assms(4) by (simp add: filterOutServiceRange_def)
  note fk = filter_service_loop_kept [OF assms(1,2) sub assms(3) flt]
  have k: "kept r r1" "wf_alloc r1" "mapped r1 = mapped r" using fk keptD [of r r1] by blast+
  note ps = prioritized_spec [OF assms(1) k(2) assms(5)]
  then have am: "a \<in> set (mapped r1)" and fresh: "\<not> conflicts r1 c" "c \<in> busy r2 a (family_of c)"
    using assms(6) by (auto simp: fresh_grant_def)
  have a: "a < length (objs r1)" "a < length (objs r)" using mapped_bound [OF k(2) am] keptD [OF k(1)] by simp_all
  obtain t where t: "get_set (family_of c) (objs r2 ! a) = Some t" using fresh(2) by (auto simp: busy_def split: option.splits)
  have shape: "same_shape r1 r2" "same_shape r r1" using ps k(1) by (auto simp: kept_def)
  obtain s1 where s1: "get_set (family_of c) (objs r1 ! a) = Some s1" "same_pool s1 t" using same_shape_back [OF shape(1) a(1) t] .
  obtain s where s: "get_set (family_of c) (objs r ! a) = Some s" "same_pool s s1" using same_shape_back [OF shape(2) a(2) s1(1)] .
  obtain i where i: "i \<in> used t" "c = blk s1 i" using fresh(2) same_pool_geometry(2) [OF s1(2)] by (auto simp: busy_some [OF t])
  have ir: "in_range s1 i" using used_subset [of t] i(1) same_pool_geometry(3) [OF s1(2)] by auto
  have "\<not> nets_intersect (set_ClusterCIDR s1) svc \<or> covered r1 a svc"
    using fk s(1) am k(3) assms(7) same_pool_geometry(9) [OF s(2)] by simp
  from reserved_conflict [OF k(2) am _ assms(3) this ir] show False
    using s1(1) assms(7) meet fresh(1) i(2) by simp
qed

lemma service_outcome:
  assumes "netutils_ok nu" "wf_alloc r" "wf_net svc"
  shows "snd (filterOutServiceRange nu r svc) =
    (if \<exists>a \<in> set (mapped r). get_set (family_of svc) (objs r ! a) = None then Panic else Ret ())"
proof -
  have sub: "set (mapped r) \<subseteq> {..<length (objs r)}" using mapped_bound [OF assms(2)] by blast
  obtain r1 res where flt: "filter_service_loop nu r svc (mapped r) = (r1, res)" by force
  from filter_service_loop_kept [OF assms(1,2) sub assms(3) flt] show ?thesis
    using flt by (auto simp: filterOutServiceRange_def)
qed

text \<open>C40. When a node's first pod CIDR is of a family for which the first matching object has no
  range, \<open>occupyCIDRs\<close> panics: \<open>Occupy\<close> is called on a nil set. This is reached at start-up and by every sync
  of a node that already has pod CIDRs.\<close>

theorem occupy_panics:
  assumes "netutils_ok nu" "orderedMatchingClusterCIDRs lib r node True = Ret (a # l)" "node_PodCIDRs node = p # ps"
    "ParseCIDRSloppy nu p = Inr (ip, n)" "wf_net n" "get_set (family_of n) (objs r ! a) = None"
  shows "occupyCIDRs nu lib r node = (r, Panic) \<and> AllocateOrOccupyCIDR nu lib api r (Some node) = (r, Panic)"
proof -
  have "occupyCIDRs nu lib r node = (r, Panic)"
    using assms(2-4) Occupy_nil [OF assms(1,5,6)] by (simp add: occupyCIDRs_def)
  then show ?thesis using assms(3) by (simp add: AllocateOrOccupyCIDR_def)
qed

theorem occupy_panics_witness:
  "occupyCIDRs ref_netutils ref_labels demo_alloc (demo_node [net_String demo_v6]) = (demo_alloc, Panic) \<and>
   AllocateOrOccupyCIDR ref_netutils ref_labels (demo_api False) demo_alloc (Some (demo_node [net_String demo_v6])) = (demo_alloc, Panic)"
proof (rule occupy_panics [OF ref_netutils_ok demo_ordered])
  show "ParseCIDRSloppy ref_netutils (net_String demo_v6) = Inr (net_IP demo_v6, demo_v6)"
    by (simp add: ref_ParseCIDR_String demo_nets)
  show "get_set (family_of demo_v6) (objs demo_alloc ! 0) = None" by (simp add: family_of_def demo_dims demo_store_def)
qed (simp_all add: demo_nets demo_node_def)



lemma update_patched:
  assumes "nodeLister_Get api name = Inr node" "node_PodCIDRs node = []" "cs \<noteq> []"
    "patch_loop api r (node_Name node) (ipnetToStringList cs) cidrUpdateRetries 0 None = (r1, err)"
  shows "updateCIDRsAllocation nu api r cs name a =
    (case err of
       None \<Rightarrow> (upd_obj a (associate (node_Name node)) r1, Ret ())
     | Some e \<Rightarrow>
         if IsServerTimeout api e then (RecordNodeStatusChange node ''CIDRAssignmentFailed'' r1, Fail e)
         else (case release_cidrs nu (RecordNodeStatusChange node ''CIDRAssignmentFailed'' r1) a cs of
                 (r3, Ret _) \<Rightarrow> (r3, Fail e) | (r3, res) \<Rightarrow> (r3, res)))"
  using assms by (auto simp: updateCIDRsAllocation_def Let_def ipnetToStringList_def split: option.split)


lemma demo_api_sel [simp]:
  "nodeLister_Get (demo_api b) n = Inr (demo_node [])"
  "api_PatchNodeCIDRs (demo_api b) i n cs = (if b \<or> i < 2 then Some (Errorf ''patch failed'') else None)"
  "IsServerTimeout (demo_api b) e = b"
  by (simp_all add: demo_api_def)

lemma demo_reserved:
  obtains r where "wf_alloc r" "length (objs r) = 2" "blk (demo_set demo_v4) 0 \<in> busy r 0 V4" "effects r = []"
proof -
  let ?s = "demo_set demo_v4"
  have g: "wf_geometry ?s" "in_range ?s 0" using wf_setD(1) [OF demo_wf(1)] by (simp_all add: demo_in_range)
  have w: "wf_net (blk ?s 0)" "family_of (blk ?s 0) = V4" using wf_net_blk [OF g] by (simp_all add: family_of_def demo_dims)
  have gs: "get_set (family_of (blk ?s 0)) (objs demo_alloc ! 0) = Some ?s" by (simp add: w demo_store_def)
  have "nets_intersect (set_ClusterCIDR ?s) (blk ?s 0)" using blk_accepted [OF g] by (simp add: accepts_cidr_def)
  from Occupy_spec(1) [OF ref_netutils_ok demo_wf_alloc _ w(1) gs this] obtain t where
    t: "wf_set t" "same_pool ?s t" "used t = used ?s \<union> touching ?s (blk ?s 0)" by auto
  have "0 \<in> used t" using t(3) touching_blk [OF g] by simp
  then have "blk ?s 0 \<in> busy (upd_obj 0 (put_set V4 t) demo_alloc) 0 V4"
    using same_pool_geometry(2) [OF t(2)] by (simp add: busy_put image_eqI)
  then show ?thesis
    using that [of "upd_obj 0 (put_set V4 t) demo_alloc"] wf_alloc_put [OF demo_wf_alloc _ t(1,2), of V4 0] gs w(2) by simp
qed


end
