(* ===== verification/Validation.thy ===== *)
theory Validation
  imports ClusterCIDRLife
begin

text \<open>\<open>pkg/apis/clustercidr/v1/validation/validation.go\<close>. The validators of apimachinery are a parameter; a
  \<open>field.Error\<close> is its kind, its path, the bad value and the detail.\<close>

datatype path_element = Child string | Index nat

type_synonym path = "path_element list"

datatype field_value = NoValue | StringValue string | IntValue int | SelectorValue "NodeSelector option"

datatype error_type = ErrorTypeRequired | ErrorTypeInvalid | ErrorTypeForbidden | ErrorTypeOther

record field_error =
  err_Type :: error_type
  err_Field :: path
  err_BadValue :: field_value
  err_Detail :: string

definition Required :: "path \<Rightarrow> string \<Rightarrow> field_error" where
  "Required p d = \<lparr> err_Type = ErrorTypeRequired, err_Field = p, err_BadValue = NoValue, err_Detail = d \<rparr>"

definition Invalid :: "path \<Rightarrow> field_value \<Rightarrow> string \<Rightarrow> field_error" where
  "Invalid p v d = \<lparr> err_Type = ErrorTypeInvalid, err_Field = p, err_BadValue = v, err_Detail = d \<rparr>"

definition Forbidden :: "path \<Rightarrow> string \<Rightarrow> field_error" where
  "Forbidden p d = \<lparr> err_Type = ErrorTypeForbidden, err_Field = p, err_BadValue = NoValue, err_Detail = d \<rparr>"

record ApiValidation =
  NameIsDNSLabel :: "string \<Rightarrow> bool \<Rightarrow> string list"
  NameIsDNSSubdomain :: "string \<Rightarrow> bool \<Rightarrow> string list"
  ValidateObjectMeta ::
    "ClusterCIDRObject \<Rightarrow> bool \<Rightarrow> (string \<Rightarrow> bool \<Rightarrow> string list) \<Rightarrow> path \<Rightarrow> field_error list"
  ValidateObjectMetaUpdate :: "ClusterCIDRObject \<Rightarrow> ClusterCIDRObject \<Rightarrow> path \<Rightarrow> field_error list"
  ValidateImmutableField :: "field_value \<Rightarrow> field_value \<Rightarrow> path \<Rightarrow> field_error list"
  ValidateLabelName :: "string \<Rightarrow> path \<Rightarrow> field_error list"

definition validateClusterCIDRName :: "ApiValidation \<Rightarrow> string \<Rightarrow> bool \<Rightarrow> string list" where
  "validateClusterCIDRName av = NameIsDNSLabel av"

definition validateNodeName :: "ApiValidation \<Rightarrow> string \<Rightarrow> bool \<Rightarrow> string list" where
  "validateNodeName av = NameIsDNSSubdomain av"

definition nodeFieldSelectorValidators :: "ApiValidation \<Rightarrow> string \<Rightarrow> (string \<Rightarrow> bool \<Rightarrow> string list) option" where
  "nodeFieldSelectorValidators av key = (if key = ''metadata.name'' then Some (validateNodeName av) else None)"

definition enumerate_errors :: "(nat \<Rightarrow> 'a \<Rightarrow> 'e list) \<Rightarrow> 'a list \<Rightarrow> 'e list" where
  "enumerate_errors check xs = concat (map (\<lambda>(i, x). check i x) (enumerate 0 xs))"

definition validateNodeFieldSelectorRequirement ::
    "ApiValidation \<Rightarrow> NodeSelectorRequirement \<Rightarrow> path \<Rightarrow> field_error list" where
  "validateNodeFieldSelectorRequirement av req fldPath =
     (if nsr_Operator req = ''In'' \<or> nsr_Operator req = ''NotIn'' then
        (if length (nsr_Values req) \<noteq> 1
         then [Required (fldPath @ [Child ''values''])
                 ''must be only one value when `operator` is 'In' or 'NotIn' for node field selector'']
         else [])
      else [Invalid (fldPath @ [Child ''operator'']) (StringValue (nsr_Operator req)) ''not a valid selector operator'']) @
     (case nodeFieldSelectorValidators av (nsr_Key req) of
        None \<Rightarrow> [Invalid (fldPath @ [Child ''key'']) (StringValue (nsr_Key req)) ''not a valid field selector key'']
      | Some vf \<Rightarrow>
          enumerate_errors (\<lambda>i v. map (\<lambda>msg. Invalid (fldPath @ [Child ''values'', Index i]) (StringValue v) msg) (vf v False))
            (nsr_Values req))"

definition ValidateNodeSelectorRequirement ::
    "ApiValidation \<Rightarrow> NodeSelectorRequirement \<Rightarrow> path \<Rightarrow> field_error list" where
  "ValidateNodeSelectorRequirement av rq fldPath =
     (if nsr_Operator rq = ''In'' \<or> nsr_Operator rq = ''NotIn'' then
        (if length (nsr_Values rq) = 0
         then [Required (fldPath @ [Child ''values'']) (''must be specified when `operator` is 'In' or 'NotIn'' @ [CHR 0x27])]
         else [])
      else if nsr_Operator rq = ''Exists'' \<or> nsr_Operator rq = ''DoesNotExist'' then
        (if length (nsr_Values rq) > 0
         then [Forbidden (fldPath @ [Child ''values'']) (''may not be specified when `operator` is 'Exists' or 'DoesNotExist'' @ [CHR 0x27])]
         else [])
      else if nsr_Operator rq = ''Gt'' \<or> nsr_Operator rq = ''Lt'' then
        (if length (nsr_Values rq) \<noteq> 1
         then [Required (fldPath @ [Child ''values'']) (''must be specified single value when `operator` is 'Lt' or 'Gt'' @ [CHR 0x27])]
         else [])
      else [Invalid (fldPath @ [Child ''operator'']) (StringValue (nsr_Operator rq)) ''not a valid selector operator'']) @
     ValidateLabelName av (nsr_Key rq) (fldPath @ [Child ''key''])"

definition validateNodeSelectorTerm :: "ApiValidation \<Rightarrow> NodeSelectorTerm \<Rightarrow> path \<Rightarrow> field_error list" where
  "validateNodeSelectorTerm av term fldPath =
     enumerate_errors (\<lambda>j req. ValidateNodeSelectorRequirement av req (fldPath @ [Child ''matchExpressions'', Index j]))
       (MatchExpressions term) @
     enumerate_errors (\<lambda>j req. validateNodeFieldSelectorRequirement av req (fldPath @ [Child ''matchFields'', Index j]))
       (MatchFields term)"

definition validateNodeSelector :: "ApiValidation \<Rightarrow> NodeSelector \<Rightarrow> path \<Rightarrow> field_error list" where
  "validateNodeSelector av nodeSelector fldPath =
     (let termFldPath = fldPath @ [Child ''nodeSelectorTerms'']
      in if length nodeSelector = 0 then [Required termFldPath ''must have at least one node selector term'']
         else enumerate_errors (\<lambda>i term. validateNodeSelectorTerm av term (termFldPath @ [Index i])) nodeSelector)"

datatype IPFamily = IPv4Protocol | IPv6Protocol

fun family_name :: "IPFamily \<Rightarrow> string" where
  "family_name IPv4Protocol = ''IPv4''"
| "family_name IPv6Protocol = ''IPv6''"

definition validateCIDRConfig ::
    "NetUtils \<Rightarrow> string \<Rightarrow> int \<Rightarrow> int \<Rightarrow> IPFamily \<Rightarrow> path \<Rightarrow> field_error list" where
  "validateCIDRConfig nu configCIDR perNodeHostBits maxMaskSize ipFamily fldPath =
     (case ParseCIDRSloppy nu configCIDR of
        Inl _ \<Rightarrow> [Invalid (fldPath @ [Child (family_name ipFamily)]) (StringValue configCIDR) (''must be a valid CIDR: '' @ configCIDR)]
      | Inr (ip, ipNet) \<Rightarrow>
          (let maxPerNodeHostBits = maxMaskSize - fst (mask_Size (net_Mask ipNet))
           in (if ipFamily = IPv4Protocol \<and> \<not> IsIPv4 nu ip
               then [Invalid (fldPath @ [Child (family_name ipFamily)]) (StringValue configCIDR) ''must be a valid IPv4 CIDR''] else []) @
              (if ipFamily = IPv6Protocol \<and> \<not> IsIPv6 nu ip
               then [Invalid (fldPath @ [Child (family_name ipFamily)]) (StringValue configCIDR) ''must be a valid IPv6 CIDR''] else []) @
              (if perNodeHostBits < 4
               then [Invalid (fldPath @ [Child ''perNodeHostBits'']) (IntValue perNodeHostBits) ''must be greater than or equal to 4''] else []) @
              (if perNodeHostBits > maxPerNodeHostBits
               then [Invalid (fldPath @ [Child ''perNodeHostBits'']) (IntValue perNodeHostBits) ''must be less than or equal to''] else [])))"

definition ValidateClusterCIDRSpec ::
    "NetUtils \<Rightarrow> ApiValidation \<Rightarrow> ClusterCIDRSpec \<Rightarrow> path \<Rightarrow> field_error list" where
  "ValidateClusterCIDRSpec nu av spec fldPath =
     (case spec_NodeSelector spec of
        Some ns \<Rightarrow> validateNodeSelector av ns (fldPath @ [Child ''nodeSelector''])
      | None \<Rightarrow> []) @
     (if spec_IPv4 spec = '''' \<and> spec_IPv6 spec = ''''
      then [Required fldPath ''one or both of `ipv4` and `ipv6` must be specified'']
      else (if spec_IPv4 spec \<noteq> ''''
            then validateCIDRConfig nu (spec_IPv4 spec) (PerNodeHostBits spec) 32 IPv4Protocol fldPath else []) @
           (if spec_IPv6 spec \<noteq> ''''
            then validateCIDRConfig nu (spec_IPv6 spec) (PerNodeHostBits spec) 128 IPv6Protocol fldPath else []))"

definition ValidateClusterCIDR :: "NetUtils \<Rightarrow> ApiValidation \<Rightarrow> ClusterCIDRObject \<Rightarrow> field_error list" where
  "ValidateClusterCIDR nu av cc =
     ValidateObjectMeta av cc False (validateClusterCIDRName av) [Child ''metadata''] @
     ValidateClusterCIDRSpec nu av (obj_Spec cc) [Child ''spec'']"

definition validateClusterCIDRUpdateSpec ::
    "ApiValidation \<Rightarrow> ClusterCIDRSpec \<Rightarrow> ClusterCIDRSpec \<Rightarrow> path \<Rightarrow> field_error list" where
  "validateClusterCIDRUpdateSpec av new old fldPath =
     ValidateImmutableField av (SelectorValue (spec_NodeSelector new)) (SelectorValue (spec_NodeSelector old))
       (fldPath @ [Child ''nodeSelector'']) @
     ValidateImmutableField av (IntValue (PerNodeHostBits new)) (IntValue (PerNodeHostBits old))
       (fldPath @ [Child ''perNodeHostBits'']) @
     ValidateImmutableField av (StringValue (spec_IPv4 new)) (StringValue (spec_IPv4 old)) (fldPath @ [Child ''ipv4'']) @
     ValidateImmutableField av (StringValue (spec_IPv6 new)) (StringValue (spec_IPv6 old)) (fldPath @ [Child ''ipv6''])"

definition ValidateClusterCIDRUpdate ::
    "ApiValidation \<Rightarrow> ClusterCIDRObject \<Rightarrow> ClusterCIDRObject \<Rightarrow> field_error list" where
  "ValidateClusterCIDRUpdate av new old =
     ValidateObjectMetaUpdate av new old [Child ''metadata''] @
     validateClusterCIDRUpdateSpec av (obj_Spec new) (obj_Spec old) [Child ''spec'']"

text \<open>No error, component by component.\<close>

lemma enumerate_errors_nil: "enumerate_errors check xs = [] \<longleftrightarrow> (\<forall>i < length xs. check i (xs ! i) = [])"
proof -
  have "set (enumerate 0 xs) = {(i, xs ! i) |i. i < length xs}" by (force simp: enumerate_eq_zip set_zip)
  then show ?thesis by (auto simp: enumerate_errors_def)
qed

definition requirement_ok :: "NodeSelectorRequirement \<Rightarrow> bool" where
  "requirement_ok rq \<longleftrightarrow>
     nsr_Operator rq \<in> {''In'', ''NotIn''} \<and> nsr_Values rq \<noteq> [] \<or>
     nsr_Operator rq \<in> {''Exists'', ''DoesNotExist''} \<and> nsr_Values rq = [] \<or>
     nsr_Operator rq \<in> {''Gt'', ''Lt''} \<and> length (nsr_Values rq) = 1"

definition field_requirement_ok :: "ApiValidation \<Rightarrow> NodeSelectorRequirement \<Rightarrow> bool" where
  "field_requirement_ok av rq \<longleftrightarrow> nsr_Operator rq \<in> {''In'', ''NotIn''} \<and> nsr_Key rq = ''metadata.name'' \<and>
     (\<exists>v. nsr_Values rq = [v] \<and> NameIsDNSSubdomain av v False = [])"

lemma ValidateNodeSelectorRequirement_nil:
  "ValidateNodeSelectorRequirement av rq p = [] \<longleftrightarrow> requirement_ok rq \<and> ValidateLabelName av (nsr_Key rq) (p @ [Child ''key'']) = []"
  by (auto simp: ValidateNodeSelectorRequirement_def requirement_ok_def)

lemma validateNodeFieldSelectorRequirement_nil:
  "validateNodeFieldSelectorRequirement av rq p = [] \<longleftrightarrow> field_requirement_ok av rq"
  by (auto simp: validateNodeFieldSelectorRequirement_def field_requirement_ok_def nodeFieldSelectorValidators_def
      validateNodeName_def enumerate_errors_nil length_Suc_conv)

lemma field_requirement_ok_requirement: "field_requirement_ok av rq \<Longrightarrow> requirement_ok rq"
  by (auto simp: field_requirement_ok_def requirement_ok_def)

lemma validateNodeSelector_nil:
  assumes "validateNodeSelector av ns p = []"
  shows "ns \<noteq> [] \<and> (\<forall>rq \<in> set (flat_requirements ns). requirement_ok rq)"
proof -
  have ne: "ns \<noteq> []" and t: "\<forall>i < length ns. validateNodeSelectorTerm av (ns ! i) (p @ [Child ''nodeSelectorTerms'', Index i]) = []"
    using assms by (auto simp: validateNodeSelector_def Let_def enumerate_errors_nil split: if_splits)
  have "requirement_ok rq" if "t \<in> set ns" "rq \<in> set (MatchExpressions t @ MatchFields t)" for t rq
  proof -
    obtain i where "i < length ns" "ns ! i = t" using \<open>t \<in> set ns\<close> by (auto simp: in_set_conv_nth)
    then have "validateNodeSelectorTerm av t (p @ [Child ''nodeSelectorTerms'', Index i]) = []" using t by auto
    then show ?thesis using that(2) field_requirement_ok_requirement
      by (fastforce simp: validateNodeSelectorTerm_def enumerate_errors_nil ValidateNodeSelectorRequirement_nil
          validateNodeFieldSelectorRequirement_nil in_set_conv_nth)
  qed
  then show ?thesis using ne by (auto simp: flat_requirements_def)
qed

lemma validateCIDRConfig_nil:
  "validateCIDRConfig nu text p m fam path = [] \<longleftrightarrow>
     (\<exists>ip n. ParseCIDRSloppy nu text = Inr (ip, n) \<and> (fam = IPv4Protocol \<longrightarrow> IsIPv4 nu ip) \<and> (fam = IPv6Protocol \<longrightarrow> IsIPv6 nu ip) \<and>
        4 \<le> p \<and> p \<le> m - fst (mask_Size (net_Mask n)))"
  by (auto simp: validateCIDRConfig_def Let_def split: sum.splits prod.splits)

text \<open>A text in canonical form: the address has the family of its network, which is in canonical form and, in
  IPv6, outside of \<open>::/80\<close>, where the IPv4-mapped addresses are.\<close>

definition canonical_text :: "NetUtils \<Rightarrow> string \<Rightarrow> bool" where
  "canonical_text nu text \<longleftrightarrow> (\<forall>ip n. ParseCIDRSloppy nu text = Inr (ip, n) \<longrightarrow> wf_net n \<and>
     (IsIPv4 nu ip \<longrightarrow> length (net_IP n) = 4) \<and>
     (IsIPv6 nu ip \<longrightarrow> length (net_IP n) = 16 \<and> take 10 (net_IP n) \<noteq> replicate 10 0))"

lemma validated_text:
  assumes "canonical_text nu text" "validateCIDRConfig nu text p (case fam of IPv4Protocol \<Rightarrow> 32 | IPv6Protocol \<Rightarrow> 128) fam path = []"
  shows "text_ok nu (case fam of IPv4Protocol \<Rightarrow> V4 | IPv6Protocol \<Rightarrow> V6) p text"
proof -
  let ?m = "case fam of IPv4Protocol \<Rightarrow> 32 | IPv6Protocol \<Rightarrow> 128"
  obtain ip n where n: "ParseCIDRSloppy nu text = Inr (ip, n)" "fam = IPv4Protocol \<longrightarrow> IsIPv4 nu ip"
    "fam = IPv6Protocol \<longrightarrow> IsIPv6 nu ip" "4 \<le> p" "p \<le> ?m - fst (mask_Size (net_Mask n))"
    using assms(2) unfolding validateCIDRConfig_nil by blast
  have w: "wf_net n" and len: "length (net_IP n) = (case fam of IPv4Protocol \<Rightarrow> 4 | IPv6Protocol \<Rightarrow> 16)"
    and ten: "fam = IPv6Protocol \<longrightarrow> take 10 (net_IP n) \<noteq> replicate 10 0"
    using assms(1) n(1-3) unfolding canonical_text_def by (cases fam; simp)+
  have p: "int (plen n) + p \<le> ?m" using n(5) mask_Size_wf [OF w] by simp
  then show ?thesis using w len ten n(1,4)
    by (cases fam) (auto simp: text_ok_def family_of_def fits_def addr_bits_def clusterSubnetMaxDiff_def)
qed

lemma valid_spec_ok:
  assumes "ValidateClusterCIDRSpec nu av spec path = []" "canonical_text nu (spec_IPv4 spec)" "canonical_text nu (spec_IPv6 spec)"
  shows "spec_ok nu spec \<and> (spec_IPv4 spec \<noteq> [] \<or> spec_IPv6 spec \<noteq> [])"
proof -
  have ne: "spec_IPv4 spec \<noteq> [] \<or> spec_IPv6 spec \<noteq> []"
    and v4: "spec_IPv4 spec \<noteq> [] \<Longrightarrow> validateCIDRConfig nu (spec_IPv4 spec) (PerNodeHostBits spec) 32 IPv4Protocol path = []"
    and v6: "spec_IPv6 spec \<noteq> [] \<Longrightarrow> validateCIDRConfig nu (spec_IPv6 spec) (PerNodeHostBits spec) 128 IPv6Protocol path = []"
    using assms(1) by (auto simp: ValidateClusterCIDRSpec_def split: if_splits)
  have "text_ok nu V4 (PerNodeHostBits spec) (spec_IPv4 spec)"
    using validated_text [OF assms(2), of "PerNodeHostBits spec" IPv4Protocol path] v4
    by (cases "spec_IPv4 spec = []") (simp_all add: text_ok_def)
  moreover have "text_ok nu V6 (PerNodeHostBits spec) (spec_IPv6 spec)"
    using validated_text [OF assms(3), of "PerNodeHostBits spec" IPv6Protocol path] v6
    by (cases "spec_IPv6 spec = []") (simp_all add: text_ok_def)
  ultimately show ?thesis using ne by (simp add: spec_ok_def)
qed

definition immutable_law :: "ApiValidation \<Rightarrow> bool" where
  "immutable_law av \<longleftrightarrow> (\<forall>new old path. ValidateImmutableField av new old path = [] \<longleftrightarrow> new = old)"

lemma update_spec_nil:
  "immutable_law av \<Longrightarrow> validateClusterCIDRUpdateSpec av new old path = [] \<longleftrightarrow> new = old"
  by (auto simp: validateClusterCIDRUpdateSpec_def immutable_law_def)

end
