(* ===== verification/LifeProps.thy ===== *)
theory LifeProps
  imports NodeProps Validation
begin

text \<open>Properties of the ClusterCIDR objects: validation, creation, deletion, the default object and the listing
  at start-up.\<close>

lemma effects_emit: "effects (emit e r) = effects r @ [e]"
  by (simp add: emit_def)

text \<open>C11. Deleting a known ClusterCIDR marks it as terminating and frees no block. While a
  node is associated with it, the deletion fails, the object stays mapped and the API object, with its
  finalizer, is not written; otherwise exactly this object is unmapped and the API object is updated without
  the finalizer.\<close>

theorem delete_waits_for_nodes:
  assumes "wf_alloc r" "clusterCIDRFinalizer \<in> set (obj_Finalizers obj)" "nodeSelectorKey lib obj = Inr key"
    "map_of (cidrMap r) key = Some l" "find (\<lambda>a. cc_Name (objs r ! a) = obj_Name obj) l = Some a"
  shows "case reconcileDelete lib api r obj of (r', res) \<Rightarrow>
    let bare = obj\<lparr>obj_Finalizers := filter (\<lambda>s. s \<noteq> clusterCIDRFinalizer) (obj_Finalizers obj)\<rparr>
    in wf_alloc r' \<and> busy r' = busy r \<and> Terminating (objs r' ! a) \<and>
      (if AssociatedNodes (objs r ! a) \<noteq> []
       then (\<exists>e. res = Fail e) \<and> cidrMap r' = cidrMap r \<and> effects r' = effects r
       else set (mapped r') = set (mapped r) - {a} \<and> effects r' = effects r @ [UpdateClusterCIDR bare] \<and>
         (res = Ret () \<longleftrightarrow> api_Update api bare = None))"
proof -
  obtain r1 o1 where d: "deleteClusterCIDR lib r obj = (r1, o1)" by force
  have a: "a \<in> set l" using assms(5) by (auto simp: find_Some_iff)
  have "a \<in> set (mapped r)" using map_of_SomeD [OF assms(4)] a by (force simp: mapped_def)
  then have al: "a < length (objs r)" using mapped_bound [OF assms(1)] by blast
  note sp = deleteClusterCIDR_spec [OF assms(1) d]
  have dm: "distinct (map fst (cidrMap r))" "distinct (concat (map snd (cidrMap r)))"
    using assms(1) by (simp_all add: wf_alloc_def mapped_def)
  note da = drop_address(1) [OF dm assms(4) a]
  show ?thesis
  proof (cases "AssociatedNodes (objs r ! a) = []")
    case False
    then have "o1 \<noteq> Ret () \<and> (\<exists>e. o1 = Fail e)" "r1 = upd_obj a (\<lambda>c. c\<lparr>Terminating := True\<rparr>) r"
      using d assms(3-5) by (auto simp: deleteClusterCIDR_def Let_def)
    then show ?thesis
      using assms(2) d sp False al by (auto simp: reconcileDelete_def upd_obj_nth)
  next
    case True
    then have r1: "o1 = Ret ()" "objs r1 = objs (upd_obj a (\<lambda>c. c\<lparr>Terminating := True\<rparr>) r)"
      "mapped r1 = concat (map snd (if length l = 1 then AList.delete key (cidrMap r) else AList.update key (remove1 a l) (cidrMap r)))"
      using d assms(3-5) by (auto simp: deleteClusterCIDR_def Let_def mapped_def split: if_splits)
    have "set (mapped r1) = set (mapped r) - {a}" using da r1(3) by (simp add: mapped_def)
    then show ?thesis
      using assms(2) d sp True al r1(1,2) by (simp add: reconcileDelete_def Let_def upd_obj_nth effects_emit split: option.split)
  qed
qed

theorem delete_waits_for_nodes_witness:
  "case reconcileDelete ref_labels (demo_api False) demo_alloc (demo_object [clusterCIDRFinalizer]) of (r', res) \<Rightarrow>
     set (mapped r') = {1} \<and> effects r' = [UpdateClusterCIDR (demo_object [])] \<and> res = Ret ()"
proof -
  have k: "nodeSelectorKey ref_labels (demo_object [clusterCIDRFinalizer]) = Inr ''env=prod''"
    unfolding demo_object_def by code_simp
  have f: "find (\<lambda>a. cc_Name (objs demo_alloc ! a) = obj_Name (demo_object [clusterCIDRFinalizer])) [0] = Some 0"
    by (simp add: demo_store_def demo_object_def)
  have m: "clusterCIDRFinalizer \<in> set (obj_Finalizers (demo_object [clusterCIDRFinalizer]))"
    "map_of (cidrMap demo_alloc) ''env=prod'' = Some [0]" by (simp_all add: demo_object_def)
  have n: "AssociatedNodes (objs demo_alloc ! 0) = []" "api_Update (demo_api False) ob = None"
    "demo_object [clusterCIDRFinalizer]\<lparr>obj_Finalizers := filter (\<lambda>s. s \<noteq> clusterCIDRFinalizer) (obj_Finalizers (demo_object [clusterCIDRFinalizer]))\<rparr> = demo_object []"
    for ob by (simp_all add: demo_store_def demo_api_def demo_object_def)
  show ?thesis
    using delete_waits_for_nodes [OF demo_wf_alloc m(1) k m(2) f, of "demo_api False"] n
    by (auto simp: Let_def)
qed


text \<open>Creation.\<close>

lemma mapClusterCIDRSet_maps:
  assumes "wf_alloc r"
  shows "\<exists>l a. map_of (cidrMap (mapClusterCIDRSet r k c)) k = Some l \<and> a \<in> set l \<and> cc_Name (objs (mapClusterCIDRSet r k c) ! a) = cc_Name c"
proof (cases "map_of (cidrMap r) k")
  case None
  then show ?thesis by (simp add: mapClusterCIDRSet_def Let_def update_conv')
next
  case (Some l)
  have sub: "set l \<subseteq> {..<length (objs r)}"
    using map_of_SomeD [OF Some] mapped_bound [OF assms] by (force simp: mapped_def)
  show ?thesis
  proof (cases "list_ex (\<lambda>b. cc_Name c = cc_Name (objs r ! b)) l")
    case True
    then obtain b where "b \<in> set l" "cc_Name c = cc_Name (objs r ! b)" by (auto simp: list_ex_iff)
    then show ?thesis using sub Some True by (intro exI [of _ l] exI [of _ b]) (auto simp: mapClusterCIDRSet_def Let_def nth_append)
  next
    case False
    then show ?thesis using Some
      by (intro exI [of _ "l @ [length (objs r)]"] exI [of _ "length (objs r)"]) (simp add: mapClusterCIDRSet_def Let_def update_conv')
  qed
qed

lemma createClusterCIDR_success:
  assumes "nodeSelectorKey lib obj = Inr key" "createClusterCIDRSet nu obj t = Ret c" "has_set c"
  shows "\<exists>w. createClusterCIDR nu lib api r obj t = (emit w (mapClusterCIDRSet r key c),
      case (if obj_ResourceVersion obj = [] then api_Create api else api_Update api)
        (if needToAddFinalizer obj clusterCIDRFinalizer then obj\<lparr>obj_Finalizers := obj_Finalizers obj @ [clusterCIDRFinalizer]\<rparr> else obj)
      of Some e \<Rightarrow> Fail e | None \<Rightarrow> Ret ())"
  using assms by (auto simp: createClusterCIDR_def has_set_def Let_def)


definition ref_validation :: ApiValidation where
  "ref_validation =
     \<lparr> NameIsDNSLabel = (\<lambda>s p. if s = [] then [''empty''] else []), NameIsDNSSubdomain = (\<lambda>s p. if s = [] then [''empty''] else []),
       ValidateObjectMeta = (\<lambda>ob ns f p. map (Invalid p (StringValue (obj_Name ob))) (f (obj_Name ob) False)),
       ValidateObjectMetaUpdate = (\<lambda>new old p. if obj_Name new = obj_Name old then [] else [Invalid p (StringValue (obj_Name new)) ''immutable'']),
       ValidateImmutableField = (\<lambda>new old p. if new = old then [] else [Invalid p new ''field is immutable'']),
       ValidateLabelName = (\<lambda>key p. if key = [] then [Invalid p (StringValue key) ''empty''] else []) \<rparr>"

lemma demo_texts: "canonical_text ref_netutils (net_String demo_v4)" "canonical_text ref_netutils []"
proof -
  show "canonical_text ref_netutils (net_String demo_v4)"
    using ref_ParseCIDR_String [OF demo_nets(1)] demo_nets(1) demo_dims(5) by (auto simp: canonical_text_def)
  show "canonical_text ref_netutils []"
  proof -
    have "\<exists>e. ref_ParseCIDR [] = Inl e" by (auto simp: ref_ParseCIDR_def)
    then show ?thesis by (auto simp: canonical_text_def)
  qed
qed

lemma demo_valid: "ValidateClusterCIDRSpec ref_netutils ref_validation (obj_Spec (demo_object [])) [Child ''spec''] = []"
proof -
  have "validateNodeSelector ref_validation (the (spec_NodeSelector (obj_Spec (demo_object [])))) p = []" for p
    by (simp add: demo_object_def validateNodeSelector_def Let_def enumerate_errors_def validateNodeSelectorTerm_def
        ValidateNodeSelectorRequirement_def ref_validation_def)
  moreover have "validateCIDRConfig ref_netutils (net_String demo_v4) 4 32 IPv4Protocol p = []" for p
    using ref_ParseCIDR_String [OF demo_nets(1)] mask_Size_wf [OF demo_nets(1)] demo_dims
    by (auto simp: validateCIDRConfig_nil ip_To4_def)
  moreover have "net_String demo_v4 \<noteq> []" by code_simp
  ultimately show ?thesis by (simp add: ValidateClusterCIDRSpec_def demo_object_def)
qed


text \<open>Reconciling a ClusterCIDR that is already mapped under its selector changes neither the
  map nor any object: the blocks in use and the associated nodes stay as they are. The API object is written
  once, with the finalizer added when it was missing and the object is not being deleted.\<close>

theorem create_again:
  assumes "nodeSelectorKey lib obj = Inr key" "createClusterCIDRSet nu obj t = Ret c" "IPv4CIDRSet c \<noteq> None \<or> IPv6CIDRSet c \<noteq> None"
    "map_of (cidrMap r) key = Some l" "a \<in> set l" "cc_Name (objs r ! a) = obj_Name obj"
  shows "case createClusterCIDR nu lib api r obj t of (r', res) \<Rightarrow> cidrMap r' = cidrMap r \<and> take (length (objs r)) (objs r') = objs r \<and>
    (\<exists>ob. (effects r' = effects r @ [CreateClusterCIDR ob] \<or> effects r' = effects r @ [UpdateClusterCIDR ob]) \<and>
       ob\<lparr>obj_Finalizers := obj_Finalizers obj\<rparr> = obj \<and> set (obj_Finalizers obj) \<subseteq> set (obj_Finalizers ob) \<and>
       (obj_DeletionTimestamp obj = None \<longrightarrow> clusterCIDRFinalizer \<in> set (obj_Finalizers ob)))"
proof -
  have "cc_Name c = obj_Name obj" using assms(2) by (auto simp: createClusterCIDRSet_def split: outcome.splits)
  then have "list_ex (\<lambda>b. cc_Name c = cc_Name (objs r ! b)) l" using assms(5,6) unfolding list_ex_iff by (intro bexI [of _ a]) simp_all
  then have m: "mapClusterCIDRSet r key c = r\<lparr>objs := objs r @ [c]\<rparr>" using assms(4) by (simp add: mapClusterCIDRSet_def Let_def)
  show ?thesis
    using assms(1-3) by (auto simp: createClusterCIDR_def Let_def m effects_emit needToAddFinalizer_def)
qed

lemma demo_key: "nodeSelectorKey ref_labels (demo_object []) = Inr ''env=prod''"
  unfolding demo_object_def by code_simp

lemma demo_created:
  obtains c where "createClusterCIDRSet ref_netutils (demo_object []) False = Ret c" "IPv4CIDRSet c \<noteq> None \<or> IPv6CIDRSet c \<noteq> None"
proof -
  have ne: "net_String demo_v4 \<noteq> []" by code_simp
  have "NewMultiCIDRSet ref_netutils ''prod'' demo_v4 4 \<noteq> Panic" "\<nexists>e. NewMultiCIDRSet ref_netutils ''prod'' demo_v4 4 = Fail e"
    using NewMultiCIDRSet_ok [OF ref_netutils_families demo_fits(1), of "''prod''"] by auto
  then show ?thesis
    using that ref_ParseCIDR_String [OF demo_nets(1)] ne
    by (cases "NewMultiCIDRSet ref_netutils ''prod'' demo_v4 4")
      (auto simp: createClusterCIDRSet_def make_cidr_set_def demo_object_def)
qed

theorem create_again_witness:
  "case createClusterCIDR ref_netutils ref_labels (demo_api False) demo_alloc (demo_object []) False of (r', res) \<Rightarrow>
     cidrMap r' = cidrMap demo_alloc \<and> take 2 (objs r') = demo_store"
proof -
  obtain c where c: "createClusterCIDRSet ref_netutils (demo_object []) False = Ret c" "IPv4CIDRSet c \<noteq> None \<or> IPv6CIDRSet c \<noteq> None"
    using demo_created .
  have m: "map_of (cidrMap demo_alloc) ''env=prod'' = Some [0]" "0 \<in> set [0 :: nat]" "cc_Name (objs demo_alloc ! 0) = obj_Name (demo_object [])"
    by (simp_all add: demo_store_def demo_object_def)
  show ?thesis
    using create_again [OF demo_key c m, of "demo_api False"]
    by (cases "createClusterCIDR ref_netutils ref_labels (demo_api False) demo_alloc (demo_object []) False") simp
qed

text \<open>An update of a ClusterCIDR is accepted exactly when its metadata update is and its
  specification is unchanged.\<close>

theorem update_immutable:
  assumes "\<forall>new old path. ValidateImmutableField av new old path = [] \<longleftrightarrow> new = old"
  shows "ValidateClusterCIDRUpdate av new old = [] \<longleftrightarrow>
    ValidateObjectMetaUpdate av new old [Child ''metadata''] = [] \<and> obj_Spec new = obj_Spec old"
proof -
  have "immutable_law av" using assms unfolding immutable_law_def .
  then show ?thesis by (simp add: ValidateClusterCIDRUpdate_def update_spec_nil)
qed

theorem update_immutable_witness:
  "ValidateClusterCIDRUpdate ref_validation (demo_object []) (demo_object [clusterCIDRFinalizer]) = []"
  using update_immutable [of ref_validation "demo_object []" "demo_object [clusterCIDRFinalizer]"]
  by (simp add: ref_validation_def demo_object_def)

text \<open>Every requirement of the node selector of a valid specification has an operator
  the controller translates, with a number of values that fits it: the translation of such a requirement can
  only fail where the labels package refuses the key or a value.\<close>

theorem valid_selector_converts:
  assumes "ValidateClusterCIDRSpec nu av spec path = []" "spec_NodeSelector spec = Some ns" "rq \<in> set (flat_requirements ns)"
  shows "\<exists>op. nodeSelectorRequirementsAsLabelRequirements lib rq = labels_NewRequirement lib (nsr_Key rq) op (nsr_Values rq) \<and>
    (op \<in> {Op_In, Op_NotIn} \<and> nsr_Values rq \<noteq> [] \<or> op \<in> {Op_Exists, Op_DoesNotExist} \<and> nsr_Values rq = [] \<or>
     op \<in> {Op_GreaterThan, Op_LessThan} \<and> length (nsr_Values rq) = 1)"
proof -
  have "validateNodeSelector av ns (path @ [Child ''nodeSelector'']) = []"
    using assms(1,2) by (simp add: ValidateClusterCIDRSpec_def)
  then have "requirement_ok rq" using validateNodeSelector_nil assms(3) by blast
  then show ?thesis
    unfolding requirement_ok_def nodeSelectorRequirementsAsLabelRequirements_def Let_def by auto
qed

theorem valid_selector_converts_witness:
  "\<exists>op. nodeSelectorRequirementsAsLabelRequirements ref_labels \<lparr> nsr_Key = ''env'', nsr_Operator = ''In'', nsr_Values = [''prod''] \<rparr> =
      labels_NewRequirement ref_labels ''env'' op [''prod''] \<and> op \<in> {Op_In, Op_NotIn, Op_GreaterThan, Op_LessThan}"
  using valid_selector_converts [OF demo_valid, of _ "\<lparr> nsr_Key = ''env'', nsr_Operator = ''In'', nsr_Values = [''prod''] \<rparr>" ref_labels]
  by (auto simp: demo_object_def flat_requirements_def)

text \<open>The default object.\<close>

lemma int32_id: "- (2 ^ 31) \<le> x \<Longrightarrow> x < 2 ^ 31 \<Longrightarrow> int32 x = x"
  by (simp add: int32_def signed_of_int signed_take_bit_int_eq_self)

lemma default_spec_loop_bounds:
  assumes "default_spec_loop nu dual sizes i cidrs (spec, b4, b6) = Some (spec', b4', b6')"
    "\<forall>m \<in> set sizes. 0 \<le> m \<and> m \<le> 128" "4 \<le> PerNodeHostBits spec" "b4 \<le> 32" "dual \<longrightarrow> PerNodeHostBits spec = 4"
  shows "4 \<le> PerNodeHostBits spec' \<and> b4' \<le> 32 \<and> (dual \<longrightarrow> PerNodeHostBits spec' = 4)"
  using assms
proof (induction cidrs arbitrary: i spec b4 b6)
  case (Cons c cidrs)
  have "int32 (32 - int32 (sizes ! i)) \<le> 32" if "i < length sizes"
  proof -
    have "0 \<le> sizes ! i" "sizes ! i \<le> 128" using Cons.prems(2) that by simp_all
    then show ?thesis by (simp add: int32_id)
  qed
  then show ?case using Cons
    by (auto simp: Let_def ipv4MaxCIDRMask_def minPerNodeHostBits_def split: if_splits)
qed simp

lemma default_spec_loop_selector:
  "default_spec_loop nu dual sizes i cidrs (spec, b4, b6) = Some (spec', b4', b6') \<Longrightarrow> spec_NodeSelector spec' = spec_NodeSelector spec"
  by (induction cidrs arbitrary: i spec b4 b6) (auto simp: Let_def split: if_splits)

text \<open>C38. When a cluster CIDR is configured and no default object exists,
  \<open>createDefaultClusterCIDR\<close> appends exactly one object, with the default name, no selector and at least four
  host bits per node; with two cluster CIDRs the host bits also fit an IPv4 address.\<close>

theorem default_host_bits:
  assumes "createDefaultClusterCIDR nu params items = Some items'" "param_ClusterCIDRs params \<noteq> []"
    "\<forall>ob \<in> set items. obj_Name ob \<noteq> defaultClusterCIDRName" "\<forall>m \<in> set (param_NodeCIDRMaskSizes params). 0 \<le> m \<and> m \<le> 128"
  shows "\<exists>ob. items' = items @ [ob] \<and> obj_Name ob = defaultClusterCIDRName \<and> spec_NodeSelector (obj_Spec ob) = None \<and>
    4 \<le> PerNodeHostBits (obj_Spec ob) \<and> (length (param_ClusterCIDRs params) = 2 \<longrightarrow> PerNodeHostBits (obj_Spec ob) \<le> 32)"
proof -
  let ?dual = "length (param_ClusterCIDRs params) = 2"
  let ?spec0 = "\<lparr> spec_NodeSelector = None, PerNodeHostBits = minPerNodeHostBits, spec_IPv4 = [], spec_IPv6 = [] \<rparr>"
  have ne: "\<not> list_ex (\<lambda>ob. obj_Name ob = defaultClusterCIDRName) items" using assms(3) by (auto simp: list_ex_iff)
  obtain spec b4 b6 where l: "default_spec_loop nu ?dual (param_NodeCIDRMaskSizes params) 0 (param_ClusterCIDRs params)
      (?spec0, MinInt32, MinInt32) = Some (spec, b4, b6)"
    and items': "items' = items @ [\<lparr> obj_Name = defaultClusterCIDRName, obj_Generation = 0, obj_ResourceVersion = [],
        obj_Finalizers = [], obj_DeletionTimestamp = None,
        obj_Spec = (if ?dual then spec\<lparr>PerNodeHostBits := dual_stack_bits b4 b6 (PerNodeHostBits spec)\<rparr> else spec) \<rparr>]"
    using assms(1,2) ne by (auto simp: createDefaultClusterCIDR_def Let_def split: option.splits prod.splits)
  have b: "4 \<le> PerNodeHostBits spec \<and> b4 \<le> 32 \<and> (?dual \<longrightarrow> PerNodeHostBits spec = 4)"
    by (rule default_spec_loop_bounds [OF l assms(4)]) (simp_all add: minPerNodeHostBits_def MinInt32_def)
  have ns: "spec_NodeSelector spec = None" using default_spec_loop_selector [OF l] by simp
  have "4 \<le> dual_stack_bits b4 b6 4 \<and> dual_stack_bits b4 b6 4 \<le> 32"
    using b by (simp add: dual_stack_bits_def minPerNodeHostBits_def ipv4MaxCIDRMask_def)
  then show ?thesis using b ns unfolding items' by auto
qed

theorem default_host_bits_witness:
  "\<exists>ob. createDefaultClusterCIDR ref_netutils \<lparr> param_ClusterCIDRs = [demo_v4], param_ServiceCIDR = None,
       param_SecondaryServiceCIDR = None, param_NodeCIDRMaskSizes = [24] \<rparr> [] = Some [ob] \<and>
     obj_Name ob = defaultClusterCIDRName \<and> 4 \<le> PerNodeHostBits (obj_Spec ob)"
proof -
  let ?p = "\<lparr> param_ClusterCIDRs = [demo_v4], param_ServiceCIDR = None, param_SecondaryServiceCIDR = None, param_NodeCIDRMaskSizes = [24] \<rparr>"
  have "ip_To4 (net_IP demo_v4) \<noteq> None" by code_simp
  then obtain items where "createDefaultClusterCIDR ref_netutils ?p [] = Some items"
    by (simp add: createDefaultClusterCIDR_def Let_def)
  from this default_host_bits [OF this] show ?thesis by auto
qed

end
