(* ===== verification/CRDRules.thy ===== *)
theory CRDRules
  imports LifeProps
begin

text \<open>The validation rules that \<open>pkg/apis/clustercidr/v1/types.go\<close> attaches to the fields of a ClusterCIDR
  (\<open>+kubebuilder:validation\<close>), which the API server evaluates when an object is created or updated. A field with
  \<open>omitempty\<close> may be absent; a rule on an absent field is not evaluated, and a rule that mentions \<open>oldSelf\<close> is
  evaluated only where the field is present before and after the update. Evaluation of a rule is \<open>None\<close> when it
  fails, e.g. for access to an absent field; \<open>||\<close> and \<open>&&\<close> do not depend on the order of their arguments. The
  functions \<open>isCIDR\<close> and \<open>cidr\<close> of the rule language are parameters.\<close>

record CelLib =
  cel_isCIDR :: "string \<Rightarrow> bool"
  cel_family :: "string \<Rightarrow> int option"

record raw_spec =
  raw_NodeSelector :: "NodeSelector option"
  raw_PerNodeHostBits :: int
  raw_IPv4 :: "string option"
  raw_IPv6 :: "string option"

fun cel_or :: "bool option \<Rightarrow> bool option \<Rightarrow> bool option" where
  "cel_or (Some True) _ = Some True"
| "cel_or _ (Some True) = Some True"
| "cel_or (Some False) (Some False) = Some False"
| "cel_or _ _ = None"

fun cel_and :: "bool option \<Rightarrow> bool option \<Rightarrow> bool option" where
  "cel_and (Some False) _ = Some False"
| "cel_and _ (Some False) = Some False"
| "cel_and (Some True) (Some True) = Some True"
| "cel_and _ _ = None"

definition holds :: "bool option \<Rightarrow> bool" where
  "holds v \<longleftrightarrow> v = Some True"

definition rule_CIDR_specified :: "raw_spec \<Rightarrow> bool option" where
  "rule_CIDR_specified self =
     cel_or (map_option (\<lambda>t. t \<noteq> '''') (raw_IPv4 self)) (map_option (\<lambda>t. t \<noteq> '''') (raw_IPv6 self))"

definition rule_family :: "CelLib \<Rightarrow> int \<Rightarrow> string \<Rightarrow> bool option" where
  "rule_family cel family self =
     cel_or (Some (self = '''')) (cel_and (Some (cel_isCIDR cel self)) (map_option (\<lambda>f. f = family) (cel_family cel self)))"

definition rule_IPv4_valid :: "CelLib \<Rightarrow> string \<Rightarrow> bool option" where
  "rule_IPv4_valid cel = rule_family cel 4"

definition rule_IPv6_valid :: "CelLib \<Rightarrow> string \<Rightarrow> bool option" where
  "rule_IPv6_valid cel = rule_family cel 6"

definition rule_unchanged :: "'a \<Rightarrow> 'a \<Rightarrow> bool option" where
  "rule_unchanged oldSelf self = Some (oldSelf = self)"

definition field_rule :: "('a \<Rightarrow> bool option) \<Rightarrow> 'a option \<Rightarrow> bool" where
  "field_rule rule field = (case field of None \<Rightarrow> True | Some self \<Rightarrow> holds (rule self))"

definition transition_rule :: "('a \<Rightarrow> 'a \<Rightarrow> bool option) \<Rightarrow> 'a option \<Rightarrow> 'a option \<Rightarrow> bool" where
  "transition_rule rule old new =
     (case (old, new) of (Some oldSelf, Some self) \<Rightarrow> holds (rule oldSelf self) | _ \<Rightarrow> True)"

text \<open>The schema has no bounds on \<open>perNodeHostBits\<close> besides its type \<open>int32\<close>.\<close>

definition spec_admitted :: "CelLib \<Rightarrow> raw_spec \<Rightarrow> bool" where
  "spec_admitted cel s \<longleftrightarrow>
     - (2 ^ 31) \<le> raw_PerNodeHostBits s \<and> raw_PerNodeHostBits s < 2 ^ 31 \<and>
     field_rule (rule_IPv4_valid cel) (raw_IPv4 s) \<and> field_rule (rule_IPv6_valid cel) (raw_IPv6 s) \<and>
     holds (rule_CIDR_specified s)"

definition spec_transition :: "raw_spec \<Rightarrow> raw_spec \<Rightarrow> bool" where
  "spec_transition old new \<longleftrightarrow>
     transition_rule rule_unchanged (raw_NodeSelector old) (raw_NodeSelector new) \<and>
     holds (rule_unchanged (raw_PerNodeHostBits old) (raw_PerNodeHostBits new)) \<and>
     transition_rule rule_unchanged (raw_IPv4 old) (raw_IPv4 new) \<and>
     transition_rule rule_unchanged (raw_IPv6 old) (raw_IPv6 new)"

text \<open>The specification itself is an optional field of the resource.\<close>

definition crd_create :: "CelLib \<Rightarrow> raw_spec option \<Rightarrow> bool" where
  "crd_create cel new \<longleftrightarrow> (case new of None \<Rightarrow> True | Some s \<Rightarrow> spec_admitted cel s)"

definition crd_update :: "CelLib \<Rightarrow> raw_spec option \<Rightarrow> raw_spec option \<Rightarrow> bool" where
  "crd_update cel old new \<longleftrightarrow> crd_create cel new \<and>
     (case (old, new) of (Some s, Some t) \<Rightarrow> spec_transition s t | _ \<Rightarrow> True)"

text \<open>What the controller decodes: absent fields become zero values.\<close>

definition decode_spec :: "raw_spec option \<Rightarrow> ClusterCIDRSpec" where
  "decode_spec raw =
     (case raw of
        None \<Rightarrow> \<lparr> spec_NodeSelector = None, PerNodeHostBits = 0, spec_IPv4 = [], spec_IPv6 = [] \<rparr>
      | Some s \<Rightarrow> \<lparr> spec_NodeSelector = raw_NodeSelector s, PerNodeHostBits = raw_PerNodeHostBits s,
                    spec_IPv4 = (case raw_IPv4 s of None \<Rightarrow> [] | Some t \<Rightarrow> t),
                    spec_IPv6 = (case raw_IPv6 s of None \<Rightarrow> [] | Some t \<Rightarrow> t) \<rparr>)"

section \<open>What the rules guarantee\<close>

lemma cel_or_true: "cel_or a b = Some True \<longleftrightarrow> a = Some True \<or> b = Some True"
  by (cases "(a, b)" rule: cel_or.cases) auto

lemma cel_and_true: "cel_and a b = Some True \<longleftrightarrow> a = Some True \<and> b = Some True"
  by (cases "(a, b)" rule: cel_and.cases) auto

lemmas cel_simps = cel_or_true cel_and_true holds_def rule_family_def rule_IPv4_valid_def rule_IPv6_valid_def
  rule_unchanged_def rule_CIDR_specified_def field_rule_def transition_rule_def

lemma transition_unchanged:
  "transition_rule rule_unchanged old new \<longleftrightarrow> old = None \<or> new = None \<or> old = new"
  by (auto simp: transition_rule_def rule_unchanged_def holds_def split: option.splits)


definition demo_cel :: CelLib where
  "demo_cel = \<lparr> cel_isCIDR = (\<lambda>t. t \<in> {net_String demo_v4, net_String demo_v6}),
     cel_family = (\<lambda>t. if t = net_String demo_v4 then Some 4 else if t = net_String demo_v6 then Some 6 else None) \<rparr>"

definition demo_raw :: "int \<Rightarrow> raw_spec" where
  "demo_raw p = \<lparr> raw_NodeSelector = None, raw_PerNodeHostBits = p, raw_IPv4 = Some (net_String demo_v4), raw_IPv6 = None \<rparr>"


section \<open>An update that adds a node selector\<close>

lemma mapped_of: "map_of (cidrMap r) k = Some l \<Longrightarrow> a \<in> set l \<Longrightarrow> a \<in> set (mapped r)"
  by (force simp: mapped_def dest: map_of_SomeD)

lemma keys_disjoint:
  assumes "wf_alloc r" "map_of (cidrMap r) k = Some l" "map_of (cidrMap r) k' = Some l'" "k \<noteq> k'"
  shows "set l \<inter> set l' = {}"
proof -
  have in2: "set xs \<inter> set ys = {}" if "distinct (concat (map snd m))" "(k, xs) \<in> set m" "(k', ys) \<in> set m" for m xs ys
    using that assms(4) by (induction m) fastforce+
  show ?thesis
    using in2 [of "cidrMap r" l l'] assms map_of_SomeD by (fastforce simp: wf_alloc_def mapped_def)
qed

lemma create_other_key:
  assumes "nodeSelectorKey lib obj = Inr k'" "k \<noteq> k'" "createClusterCIDR nu lib api r obj t = (r', res)"
  shows "map_of (cidrMap r') k = map_of (cidrMap r) k" "take (length (objs r)) (objs r') = objs r"
  using assms
  by (auto simp: createClusterCIDR_def mapClusterCIDRSet_def Let_def update_conv' split: outcome.splits if_splits option.splits)

lemma delete_other_key:
  assumes "wf_alloc r" "nodeSelectorKey lib obj = Inr k'" "k \<noteq> k'" "map_of (cidrMap r) k = Some l" "a \<in> set l"
    "deleteClusterCIDR lib r obj = (r', res)"
  shows "map_of (cidrMap r') k = Some l \<and> objs r' ! a = objs r ! a"
proof -
  have ne: "b \<noteq> a" if "map_of (cidrMap r) k' = Some l'" "b \<in> set l'" for b l'
    using keys_disjoint [OF assms(1,4) that(1) assms(3)] assms(5) that(2) by blast
  show ?thesis using assms ne
    by (auto simp: deleteClusterCIDR_def Let_def update_conv' delete_conv' upd_obj_def find_Some_iff
        split: option.splits if_splits)
qed

lemma reconcile_other_key:
  assumes "wf_alloc r" "nodeSelectorKey lib obj = Inr k'" "k \<noteq> k'" "map_of (cidrMap r) k = Some l" "a \<in> set l"
    "reconcileDelete lib api r obj = (r', res)"
  shows "map_of (cidrMap r') k = Some l \<and> objs r' ! a = objs r ! a"
proof -
  obtain r1 o1 where d: "deleteClusterCIDR lib r obj = (r1, o1)" by force
  note delete_other_key [OF assms(1-5) d]
  then show ?thesis using assms(4,6) d by (cases o1) (auto simp: reconcileDelete_def Let_def emit_def split: if_splits)
qed

lemma key_of_spec: "obj_Spec obj = obj_Spec obj' \<Longrightarrow> nodeSelectorKey lib obj = nodeSelectorKey lib obj'"
  by (simp add: nodeSelectorKey_def)

text \<open>C20. Adding a node selector to a ClusterCIDR that has none is an update the API server admits,
  although the field is documented as immutable. When the new selector has another key, the controller syncs the
  updated object, and then its deletion, without touching an internal object it has under the old key, such as the
  one it made before the update: this object stays mapped, unchanged and not terminating, so nodes go on getting
  CIDRs of a ClusterCIDR that is gone.\<close>

theorem update_orphans_range:
  assumes "netutils_ok nu" "wf_alloc r" "spec_admitted cel old" "raw_NodeSelector old = None"
    "map_of (cidrMap r) k = Some l" "a \<in> set l"
    "obj_Spec obj = decode_spec (Some (old\<lparr>raw_NodeSelector := Some ns\<rparr>))" "nodeSelectorKey lib obj = Inr k'" "k \<noteq> k'"
    "spec_ok nu (obj_Spec obj)" "obj_DeletionTimestamp obj = None" "IsZero (obj_DeletionTimestamp gone) = False"
    "obj_Spec gone = obj_Spec obj" "clusterCIDRLister_Get api key = Inr obj" "clusterCIDRLister_Get api' key = Inr gone"
    "syncClusterCIDR nu lib api r key = (r1, res1)" "syncClusterCIDR nu lib api' r1 key = (r2, res2)"
  shows "crd_update cel (Some old) (Some (old\<lparr>raw_NodeSelector := Some ns\<rparr>)) \<and>
    a \<in> set (mapped r2) \<and> objs r2 ! a = objs r ! a"
proof -
  have c: "createClusterCIDR nu lib api r obj False = (r1, res1)"
    using assms(11,14,16) by (simp add: syncClusterCIDR_def IsZero_def reconcileCreate_def)
  have d: "reconcileDelete lib api' r1 gone = (r2, res2)" using assms(12,15,17) by (simp add: syncClusterCIDR_def)
  have w: "wf_alloc r1" using createClusterCIDR_spec [OF assms(1,2,10) c] by blast
  note cr = create_other_key [OF assms(8,9) c]
  have kg: "nodeSelectorKey lib gone = Inr k'" using key_of_spec [OF assms(13), of lib] assms(8) by simp
  have k1: "map_of (cidrMap r1) k = Some l" using cr(1) assms(5) by simp
  have "a < length (objs r)" using mapped_bound [OF assms(2) mapped_of [OF assms(5,6)]] .
  then have "objs r1 ! a = objs r ! a" using cr(2) by (metis nth_take)
  moreover have "map_of (cidrMap r2) k = Some l \<and> objs r2 ! a = objs r1 ! a"
    by (rule reconcile_other_key [OF w kg assms(9) k1 assms(6) d])
  moreover have "crd_update cel (Some old) (Some (old\<lparr>raw_NodeSelector := Some ns\<rparr>))"
    using assms(3,4) by (simp add: crd_update_def crd_create_def spec_transition_def transition_unchanged
        rule_unchanged_def holds_def spec_admitted_def rule_CIDR_specified_def)
  ultimately show ?thesis using mapped_of [of r2 k l a] assms(6) by auto
qed

definition demo_updated :: ClusterCIDRObject where
  "demo_updated = (demo_object [])\<lparr>obj_Name := ''spare''\<rparr>"

definition demo_gone :: ClusterCIDRObject where
  "demo_gone = demo_updated\<lparr>obj_Finalizers := [clusterCIDRFinalizer], obj_DeletionTimestamp := Some 5\<rparr>"

definition demo_lister :: "ClusterCIDRObject \<Rightarrow> Api" where
  "demo_lister obj = (demo_api False)\<lparr>clusterCIDRLister_Get := \<lambda>_. Inr obj\<rparr>"

lemma demo_admitted: "spec_admitted demo_cel (demo_raw p) \<longleftrightarrow> - (2 ^ 31) \<le> p \<and> p < 2 ^ 31"
  by (auto simp: spec_admitted_def cel_simps demo_cel_def demo_raw_def net_String_wf demo_nets)

theorem update_orphans_range_witness:
  "1 \<in> set (mapped (fst (syncClusterCIDR ref_netutils ref_labels (demo_lister demo_gone)
      (fst (syncClusterCIDR ref_netutils ref_labels (demo_lister demo_updated) demo_alloc ''spare'')) ''spare'')))"
proof -
  obtain ns where n: "spec_NodeSelector (obj_Spec (demo_object [])) = Some ns" by (simp add: demo_object_def)
  have s: "obj_Spec demo_updated = decode_spec (Some ((demo_raw 4)\<lparr>raw_NodeSelector :=
      spec_NodeSelector (obj_Spec (demo_object []))\<rparr>))"
    by (simp add: demo_updated_def demo_object_def decode_spec_def demo_raw_def)
  have k: "nodeSelectorKey ref_labels demo_updated = Inr ''env=prod''"
    using demo_key key_of_spec [of demo_updated "demo_object []" ref_labels] by (simp add: demo_updated_def)
  have ok: "spec_ok ref_netutils (obj_Spec demo_updated)"
    using valid_spec_ok [OF demo_valid] by (simp add: demo_updated_def demo_object_def demo_texts)
  have ad: "spec_admitted demo_cel (demo_raw 4)" by (simp add: demo_admitted)
  show ?thesis
    by (rule update_orphans_range [of ref_netutils _ demo_cel "demo_raw 4" default_key "[1]" 1 demo_updated _ ref_labels "''env=prod''"
          demo_gone "demo_lister demo_updated" _ "demo_lister demo_gone",
          OF ref_netutils_ok demo_wf_alloc ad _ _ _ s [unfolded n] k _ ok _ _ _ _ _ surjective_pairing surjective_pairing,
          THEN conjunct2, THEN conjunct1])
      (simp_all add: demo_raw_def default_key_def demo_lister_def demo_gone_def IsZero_def demo_updated_def demo_object_def)
qed

section \<open>Negative host bits\<close>

lemma no_mask_block:
  assumes "IsIPv4 nu (net_IP (set_ClusterCIDR s))" "length (net_IP (set_ClusterCIDR s)) = 4" "nodeMask s = []"
  shows "\<exists>ip. indexToCIDRBlock nu s i = Ret \<lparr> net_IP = ip, net_Mask = [] \<rparr>"
  using assms by (simp add: indexToCIDRBlock_def index_ip_v4_def BE_Uint32_def Let_def)

lemma nil_text: "net_String \<lparr> net_IP = ip, net_Mask = [] \<rparr> = ''<nil>''"
  by (simp add: net_String_def networkNumberAndMask_def Let_def)

lemma occupy_no_mask:
  assumes "IsIPv4 nu (net_IP (set_ClusterCIDR s))" "length (net_IP (set_ClusterCIDR s)) = 4" "nodeMask s = []"
  shows "snd (occupy_loop nu s n i) = Ret ()"
  using assms
proof (induction n arbitrary: s i)
  case (Suc n)
  from no_mask_block [OF Suc.prems, of i] show ?case using Suc by (auto simp: observe_def nil_text)
qed simp

text \<open>C22. The API server admits negative host bits. For a small enough IPv4 range the constructor accepts
  them; its first candidate is a network without mask, whose text is \<open><nil>\<close>, and occupying it succeeds: this text
  is what a node gets as pod CIDR.\<close>

theorem negative_host_bits:
  assumes "netutils_families nu" "wf_net c" "length (net_IP c) = 4" "p < 0" "32 - p - int (plen c) < 63"
    "raw_IPv4 raw = Some (net_String c)" "raw_IPv6 raw = None" "raw_PerNodeHostBits raw = p"
    "cel_isCIDR cel (net_String c)" "cel_family cel (net_String c) = Some 4"
  shows "spec_admitted cel raw \<and>
    (\<exists>s t n. NewMultiCIDRSet nu name c p = Ret s \<and> NextCandidate nu s = (t, Ret (n, 0)) \<and> net_String n = ''<nil>'' \<and>
       snd (set_Occupy nu t (Some n)) = Ret ())"
proof
  have p32: "plen c \<le> 32" using assms(2,3) by (simp add: wf_net_def addr_bits_def)
  have ne: "net_String c \<noteq> []" by (simp add: net_String_wf [OF assms(2)])
  show "spec_admitted cel raw"
    using assms(4-) p32 ne by (auto simp: spec_admitted_def cel_simps)
  let ?sub = "32 - p"
  obtain s where s: "NewMultiCIDRSet nu name c p = Ret s" "set_ClusterCIDR s = c" "nodeMask s = []" "allocatedCIDRs s = 0"
    "allocatedCIDRMap s = []" "nextCandidate s = 0" "MaxCIDRs s = getMaxCIDRs ?sub (int (plen c))" "clusterMaskSize s = int (plen c)"
    using assms(3,4) by (simp add: NewMultiCIDRSet_eq [OF assms(1,2)] addr_bits_def CIDRMask_def)
  have M: "MaxCIDRs s = 2 ^ nat (?sub - int (plen c))" using p32 s(7) getMaxCIDRs_pow [of ?sub "int (plen c)"] assms(4,5) by simp
  have v4: "IsIPv4 nu (net_IP c)" using assms(1,3) by (simp add: netutils_families_def ip_To4_def)
  obtain ip where b: "indexToCIDRBlock nu s 0 = Ret \<lparr> net_IP = ip, net_Mask = [] \<rparr>"
    using no_mask_block [of nu s 0] s(2,3) v4 assms(3) by auto
  obtain m where m: "nat (MaxCIDRs s) = Suc m" using M by (metis gr0_implies_Suc zero_less_nat_eq zero_less_numeral zero_less_power)
  have c: "NextCandidate nu s = (s\<lparr>nextCandidate := 1 mod MaxCIDRs s\<rparr>, Ret (\<lparr> net_IP = ip, net_Mask = [] \<rparr>, 0))"
    using s m b by (simp add: NextCandidate_def)
  have "ip_Mask (net_IP c) [] = []" using assms(3) by (simp add: ip_Mask_def)
  then have "net_Contains \<lparr> net_IP = ip, net_Mask = [] \<rparr> (ip_Mask (net_IP c) [])"
    by (simp add: net_Contains_def networkNumberAndMask_def ip_To4_def Let_def)
  moreover have "fst (mask_Size []) = 0" by (simp add: mask_Size_def)
  ultimately have "snd (set_Occupy nu (s\<lparr>nextCandidate := 1 mod MaxCIDRs s\<rparr>) (Some \<lparr> net_IP = ip, net_Mask = [] \<rparr>)) = Ret ()"
    using occupy_no_mask [of nu "s\<lparr>nextCandidate := 1 mod MaxCIDRs s\<rparr>"] s(2,3,8) v4 assms(3)
    by (simp add: set_Occupy_def getBeginningAndEndIndices_def Let_def)
  then show "\<exists>s t n. NewMultiCIDRSet nu name c p = Ret s \<and> NextCandidate nu s = (t, Ret (n, 0)) \<and> net_String n = ''<nil>'' \<and>
       snd (set_Occupy nu t (Some n)) = Ret ()"
    using s(1) c nil_text by blast
qed

theorem negative_host_bits_witness:
  "spec_admitted demo_cel (demo_raw (-1)) \<and>
   (\<exists>s t n. NewMultiCIDRSet ref_netutils ''demo'' demo_v4 (-1) = Ret s \<and> NextCandidate ref_netutils s = (t, Ret (n, 0)) \<and>
      net_String n = ''<nil>'' \<and> snd (set_Occupy ref_netutils t (Some n)) = Ret ())"
  by (rule negative_host_bits [OF ref_netutils_families demo_nets(1)])
    (simp_all add: demo_dims demo_raw_def demo_cel_def)

end
