(* ===== verification/WorkQueue.thy ===== *)
theory WorkQueue
  imports Controller
begin

text \<open>The worker loops \<open>runCIDRWorker\<close> and \<open>runNodeWorker\<close>: they take keys from a work queue until it is shut down.
  A key comes with the answers of the API server and the informer caches while it is processed. The locale
  states what a loop needs of its handler; it is interpreted on the two handlers of the controller.\<close>

fun run_worker ::
    "(Api \<Rightarrow> allocator \<Rightarrow> string \<times> bool \<Rightarrow> allocator \<times> bool outcome) \<Rightarrow> allocator \<Rightarrow> (Api \<times> string \<times> bool) list \<Rightarrow>
     allocator \<times> unit outcome" where
  "run_worker step r [] = (r, Ret ())"
| "run_worker step r ((api, got) # gots) =
     (case step api r got of
        (r', Ret True) \<Rightarrow> run_worker step r' gots
      | (r', Ret False) \<Rightarrow> (r', Ret ())
      | (r', Fail e) \<Rightarrow> (r', Fail e)
      | (r', Panic) \<Rightarrow> (r', Panic))"

definition runCIDRWorker ::
    "NetUtils \<Rightarrow> ('sel, 'req) LabelsLib \<Rightarrow> allocator \<Rightarrow> (Api \<times> string \<times> bool) list \<Rightarrow> allocator \<times> unit outcome" where
  "runCIDRWorker nu lib = run_worker (\<lambda>api. processNextCIDRWorkItem nu lib api)"

definition runNodeWorker ::
    "NetUtils \<Rightarrow> ('sel, 'req) LabelsLib \<Rightarrow> allocator \<Rightarrow> (Api \<times> string \<times> bool) list \<Rightarrow> allocator \<times> unit outcome" where
  "runNodeWorker nu lib = run_worker (\<lambda>api. processNextNodeWorkItem nu lib api)"

fun queue_effect :: "effect \<Rightarrow> bool" where
  "queue_effect (QueueAdd q k) = True"
| "queue_effect (QueueDone q k) = True"
| "queue_effect (QueueAddRateLimited q k) = True"
| "queue_effect (QueueForget q k) = True"
| "queue_effect _ = False"

definition quiet :: "allocator \<Rightarrow> allocator \<Rightarrow> bool" where
  "quiet r r' \<longleftrightarrow> filter queue_effect (effects r') = filter queue_effect (effects r)"

lemma quiet_refl [simp]: "quiet r r"
  by (simp add: quiet_def)

lemma quiet_upd [simp]: "quiet r (upd_obj a g r') = quiet r r'"
  by (simp add: quiet_def upd_obj_def)

lemma quiet_emit [simp]: "\<not> queue_effect e \<Longrightarrow> quiet r (emit e r') = quiet r r'"
  by (simp add: quiet_def emit_def)

lemma quiet_left [simp]: "quiet (upd_obj a g r) r' = quiet r r'" "\<not> queue_effect e \<Longrightarrow> quiet (emit e r) r' = quiet r r'"
  by (simp_all add: quiet_def upd_obj_def emit_def)

lemma quiet_trans: "quiet r s \<Longrightarrow> quiet s t \<Longrightarrow> quiet r t"
  by (simp add: quiet_def)

lemma quiet_Occupy [quiet_rules]: "Occupy nu r a c = (r', res) \<Longrightarrow> quiet r r'"
  by (auto simp: Occupy_def split: sum.splits option.splits prod.splits outcome.splits)

lemma quiet_Release [quiet_rules]: "Release nu r a c = (r', res) \<Longrightarrow> quiet r r'"
  by (auto simp: Release_def split: sum.splits option.splits prod.splits)

lemma quiet_occupy_pods [quiet_rules]: "occupy_pod_cidrs nu r a pods = (r', res) \<Longrightarrow> quiet r r'"
proof (induction pods arbitrary: r)
  case (Cons p pods)
  show ?case using Cons.prems
    by (auto split: sum.splits prod.splits outcome.splits dest: quiet_Occupy Cons.IH intro: quiet_trans)
qed simp

lemma quiet_occupy_in_order [quiet_rules]: "occupy_in_order nu r node as = (r', res) \<Longrightarrow> quiet r r'"
proof (induction as arbitrary: r)
  case (Cons a as)
  show ?case using Cons.prems
    by (auto split: prod.splits outcome.splits bool.splits dest: quiet_occupy_pods Cons.IH intro: quiet_trans)
qed simp

lemma quiet_occupyCIDRs [quiet_rules]: "occupyCIDRs nu lib r node = (r', res) \<Longrightarrow> quiet r r'"
  by (auto simp: occupyCIDRs_def split: if_splits outcome.splits dest: quiet_occupy_in_order)

lemma quiet_allocate_loop [quiet_rules]: "allocate_loop nu r a f fuel ev = (r', res) \<Longrightarrow> quiet r r'"
proof (induction fuel arbitrary: r ev)
  case 0
  then show ?case by (subst (asm) allocate_loop.simps) (auto split: option.splits)
next
  case (Suc fuel)
  have q: "allocate_loop nu (upd_obj a g r) a f fuel e = (r', res) \<Longrightarrow> quiet r r'" for g e
    using Suc.IH [of "upd_obj a g r" e] by (simp add: quiet_def upd_obj_def)
  have o: "Occupy nu (upd_obj a g r) a c = (r2, o2) \<Longrightarrow> quiet r r2" for g c r2 o2
    using quiet_Occupy [of nu "upd_obj a g r" a c r2 o2] by (simp add: quiet_def upd_obj_def)
  show ?case using Suc.prems
    by (subst (asm) allocate_loop.simps)
      (auto simp: Let_def split: option.splits prod.splits outcome.splits if_splits dest: q o)
qed

lemma quiet_allocate_family [quiet_rules]: "allocate_family nu r a f = (r', res) \<Longrightarrow> quiet r r'"
  by (auto simp: allocate_family_def allocateCIDR_def split: option.splits prod.splits outcome.splits dest: quiet_allocate_loop)

lemma quiet_allocate_in_order [quiet_rules]: "allocate_in_order nu r as = (r', res) \<Longrightarrow> quiet r r'"
proof (induction as arbitrary: r)
  case (Cons a as)
  show ?case using Cons.prems
    by (auto split: prod.splits outcome.splits dest!: quiet_allocate_family Cons.IH intro: quiet_trans)
qed simp

lemma quiet_prioritizedCIDRs [quiet_rules]: "prioritizedCIDRs nu lib r node = (r', res) \<Longrightarrow> quiet r r'"
  by (auto simp: prioritizedCIDRs_def split: outcome.splits dest: quiet_allocate_in_order)

lemma quiet_release_cidrs [quiet_rules]: "release_cidrs nu r a cs = (r', res) \<Longrightarrow> quiet r r'"
proof (induction cs arbitrary: r)
  case (Cons c cs)
  show ?case using Cons.prems
    by (auto split: prod.splits outcome.splits dest: quiet_Release Cons.IH intro: quiet_trans)
qed simp

lemma quiet_release_pods [quiet_rules]: "release_pod_cidrs nu r a pods = (r', res) \<Longrightarrow> quiet r r'"
proof (induction pods arbitrary: r)
  case (Cons p pods)
  show ?case using Cons.prems
    by (auto split: sum.splits prod.splits outcome.splits dest: quiet_Release Cons.IH intro: quiet_trans)
qed simp

lemma quiet_patch_loop [quiet_rules]: "patch_loop api r name cs n i err = (r', e) \<Longrightarrow> quiet r r'"
proof (induction n arbitrary: r i err)
  case (Suc n)
  show ?case using Suc.prems by (auto simp: Let_def split: option.splits dest!: Suc.IH)
qed simp

lemma quiet_update [quiet_rules]: "updateCIDRsAllocation nu api r cs name a = (r', res) \<Longrightarrow> quiet r r'"
  by (auto simp: updateCIDRsAllocation_def RecordNodeStatusChange_def Let_def split: sum.splits if_splits prod.splits option.splits outcome.splits
      dest!: quiet_release_cidrs quiet_patch_loop intro: quiet_trans)

lemma quiet_AllocateOrOccupyCIDR [quiet_rules]: "AllocateOrOccupyCIDR nu lib api r node = (r', res) \<Longrightarrow> quiet r r'"
  by (auto simp: AllocateOrOccupyCIDR_def RecordNodeStatusChange_def split: option.splits if_splits prod.splits outcome.splits
      dest!: quiet_occupyCIDRs quiet_prioritizedCIDRs quiet_update intro: quiet_trans)

lemma quiet_ReleaseCIDR [quiet_rules]: "ReleaseCIDR nu lib r node = (r', res) \<Longrightarrow> quiet r r'"
  by (auto simp: ReleaseCIDR_def split: option.splits if_splits prod.splits outcome.splits dest!: quiet_release_pods)

lemma quiet_map [simp]: "quiet r (mapClusterCIDRSet r k c)"
  by (simp add: mapClusterCIDRSet_def Let_def quiet_def split: option.split)

lemma quiet_createClusterCIDR [quiet_rules]: "createClusterCIDR nu lib api r obj t = (r', res) \<Longrightarrow> quiet r r'"
  by (auto simp: createClusterCIDR_def Let_def split: sum.splits if_splits outcome.splits)

lemma quiet_deleteClusterCIDR [quiet_rules]: "deleteClusterCIDR lib r obj = (r', res) \<Longrightarrow> quiet r r'"
  by (auto simp: deleteClusterCIDR_def Let_def quiet_def upd_obj_def split: sum.splits if_splits option.splits)

lemma quiet_reconcileDelete [quiet_rules]: "reconcileDelete lib api r obj = (r', res) \<Longrightarrow> quiet r r'"
  by (auto simp: reconcileDelete_def Let_def split: if_splits prod.splits outcome.splits dest!: quiet_deleteClusterCIDR)

lemma quiet_syncNode: "syncNode nu lib api r key = (r', res) \<Longrightarrow> quiet r r'"
  by (auto simp: syncNode_def split: sum.splits if_splits dest: quiet_rules)

lemma quiet_syncClusterCIDR: "syncClusterCIDR nu lib api r key = (r', res) \<Longrightarrow> quiet r r'"
  by (auto simp: syncClusterCIDR_def reconcileCreate_def split: sum.splits if_splits dest: quiet_rules)

locale work_handler =
  fixes q :: queue
    and sync :: "Api \<Rightarrow> allocator \<Rightarrow> string \<Rightarrow> allocator \<times> unit outcome"
    and step :: "Api \<Rightarrow> allocator \<Rightarrow> string \<times> bool \<Rightarrow> allocator \<times> bool outcome"
  assumes sync_quiet: "sync api r key = (r', res) \<Longrightarrow> quiet r r'"
    and step_sync: "step api r (key, shutdown) = (if shutdown then (r, Ret False) else finish_item q key (sync api r key))"
begin

definition handled :: "allocator \<Rightarrow> string \<Rightarrow> nat" where
  "handled r key = count_list (effects r) (QueueForget q key) + count_list (effects r) (QueueAddRateLimited q key)"

lemma count_quiet: "quiet r r' \<Longrightarrow> queue_effect e \<Longrightarrow> count_list (effects r') e = count_list (effects r) e"
proof -
  have "count_list es e = count_list (filter queue_effect es) e" if "queue_effect e" for es
    using that by (induction es) auto
  moreover assume "quiet r r'" "queue_effect e"
  ultimately show ?thesis unfolding quiet_def by metis
qed

lemma step_accounts:
  assumes "step api r (key, False) = (r', Ret b)"
  shows "b \<and> (\<forall>k. count_list (effects r') (QueueDone q k) = count_list (effects r) (QueueDone q k) + (if k = key then 1 else 0) \<and>
    handled r' k = handled r k + (if k = key then 1 else 0))"
proof -
  obtain r1 o1 where s: "sync api r key = (r1, o1)" by force
  note qs = count_quiet [OF sync_quiet [OF s]]
  show ?thesis using assms s
    by (cases o1) (auto simp: step_sync finish_item_def handled_def emit_def qs)
qed

lemma run_accounts:
  assumes "run_worker step r (map (\<lambda>(api, key). (api, key, False)) items @ rest) = (r', Ret u)"
    "rest = [] \<or> snd (snd (hd rest))"
  shows "count_list (effects r') (QueueDone q k) = count_list (effects r) (QueueDone q k) + count_list (map snd items) k \<and>
    handled r' k = handled r k + count_list (map snd items) k"
  using assms(1)
proof (induction items arbitrary: r)
  case Nil
  show ?case
  proof (cases rest)
    case (Cons g gs)
    then show ?thesis using Nil assms(2) by (cases g) (auto simp: step_sync)
  qed (use Nil in simp)
next
  case (Cons x items)
  obtain api key where x: "x = (api, key)" by force
  obtain r1 o1 where s: "step api r (key, False) = (r1, o1)" by force
  obtain b where o1: "o1 = Ret b" using Cons.prems x s by (cases o1) auto
  note sa = step_accounts [of api r key r1 b, OF s [unfolded o1]]
  then have "run_worker step r1 (map (\<lambda>(api, key). (api, key, False)) items @ rest) = (r', Ret u)"
    using Cons.prems x s o1 by simp
  from Cons.IH [OF this] sa show ?case using x by simp
qed

end

interpretation node_work: work_handler nodeQueue "\<lambda>api. syncNode nu lib api" "\<lambda>api. processNextNodeWorkItem nu lib api"
  for nu lib
  by unfold_locales (auto simp: processNextNodeWorkItem_def dest: quiet_syncNode)

interpretation cidr_work: work_handler cidrQueue "\<lambda>api. syncClusterCIDR nu lib api" "\<lambda>api. processNextCIDRWorkItem nu lib api"
  for nu lib
  by unfold_locales (auto simp: processNextCIDRWorkItem_def dest: quiet_syncClusterCIDR)

end
