(* ===== verification/RunLoop.thy ===== *)
theory RunLoop
  imports Ledger WorkQueue
begin

text \<open>\<open>Run\<close>: it waits for the informer caches, starts \<open>cidrUpdateWorkers\<close> workers on each queue, and returns when its
  context is done, which shuts the queues down. Workers, informer callbacks and the end of the context interleave;
  a work item and a node deletion hold the lock while they change the allocator. After the shutdown a worker goes on
  until its queue is drained; then \<open>Get\<close> reports the shutdown and the worker ends, since \<open>UntilWithContext\<close> does not
  call it again. A panic ends the process.\<close>

definition cidrUpdateWorkers :: nat where
  "cidrUpdateWorkers = 30"

datatype run_phase = WaitingForCaches | Working | Draining | Crashed

record run_state =
  rn_phase :: run_phase
  rn_alloc :: allocator
  cidr_workers :: "bool list"
  node_workers :: "bool list"

datatype run_event =
    CachesSynced bool
  | CIDRWorker nat Api string bool
  | NodeWorker nat Api string bool
  | CtxDone
  | ClusterCIDRAdded "string option"
  | ClusterCIDRUpdated bool "string option"
  | ClusterCIDRDeleted "string option"
  | NodeAdded "string option"
  | NodeUpdated "string option"
  | NodeDeleted deleted_object

definition Run_begin :: "allocator \<Rightarrow> run_state" where
  "Run_begin r = \<lparr> rn_phase = WaitingForCaches, rn_alloc = r, cidr_workers = [], node_workers = [] \<rparr>"

text \<open>A worker that is alive takes an item while the queue is open, and an item or the shutdown after that.\<close>

definition may_get :: "run_phase \<Rightarrow> bool list \<Rightarrow> nat \<Rightarrow> bool \<Rightarrow> bool" where
  "may_get ph workers i shutdown \<longleftrightarrow>
     i < length workers \<and> workers ! i \<and> (ph = Working \<and> \<not> shutdown \<or> ph = Draining)"

fun run_step :: "NetUtils \<Rightarrow> ('sel, 'req) LabelsLib \<Rightarrow> run_event \<Rightarrow> run_state \<Rightarrow> run_state option" where
  "run_step nu lib (CachesSynced ok) s =
     (if rn_phase s \<noteq> WaitingForCaches then None
      else if ok then Some (s\<lparr> rn_phase := Working, cidr_workers := replicate cidrUpdateWorkers True,
                               node_workers := replicate cidrUpdateWorkers True \<rparr>)
      else Some (s\<lparr>rn_phase := Draining\<rparr>))"
| "run_step nu lib (CIDRWorker i api key shutdown) s =
     (if \<not> may_get (rn_phase s) (cidr_workers s) i shutdown then None
      else case processNextCIDRWorkItem nu lib api (rn_alloc s) (key, shutdown) of
             (r, Ret True) \<Rightarrow> Some (s\<lparr>rn_alloc := r\<rparr>)
           | (r, Ret False) \<Rightarrow> Some (s\<lparr>rn_alloc := r, cidr_workers := (cidr_workers s)[i := False]\<rparr>)
           | (r, _) \<Rightarrow> Some (s\<lparr>rn_alloc := r, rn_phase := Crashed\<rparr>))"
| "run_step nu lib (NodeWorker i api key shutdown) s =
     (if \<not> may_get (rn_phase s) (node_workers s) i shutdown then None
      else case processNextNodeWorkItem nu lib api (rn_alloc s) (key, shutdown) of
             (r, Ret True) \<Rightarrow> Some (s\<lparr>rn_alloc := r\<rparr>)
           | (r, Ret False) \<Rightarrow> Some (s\<lparr>rn_alloc := r, node_workers := (node_workers s)[i := False]\<rparr>)
           | (r, _) \<Rightarrow> Some (s\<lparr>rn_alloc := r, rn_phase := Crashed\<rparr>))"
| "run_step nu lib CtxDone s = (if rn_phase s = Working then Some (s\<lparr>rn_phase := Draining\<rparr>) else None)"
| "run_step nu lib (ClusterCIDRAdded key) s =
     (if rn_phase s = Crashed then None else Some (s\<lparr>rn_alloc := onClusterCIDRAdd (rn_alloc s) key\<rparr>))"
| "run_step nu lib (ClusterCIDRUpdated deepEqual key) s =
     (if rn_phase s = Crashed then None else Some (s\<lparr>rn_alloc := onClusterCIDRUpdate (rn_alloc s) deepEqual key\<rparr>))"
| "run_step nu lib (ClusterCIDRDeleted key) s =
     (if rn_phase s = Crashed then None else Some (s\<lparr>rn_alloc := onClusterCIDRDelete (rn_alloc s) key\<rparr>))"
| "run_step nu lib (NodeAdded key) s =
     (if rn_phase s = Crashed then None else Some (s\<lparr>rn_alloc := onNodeAdd (rn_alloc s) key\<rparr>))"
| "run_step nu lib (NodeUpdated key) s =
     (if rn_phase s = Crashed then None else Some (s\<lparr>rn_alloc := onNodeUpdate (rn_alloc s) key\<rparr>))"
| "run_step nu lib (NodeDeleted obj) s =
     (if rn_phase s = Crashed then None
      else case handleNodeDelete nu lib (rn_alloc s) obj of
             (r, Panic) \<Rightarrow> Some (s\<lparr>rn_alloc := r, rn_phase := Crashed\<rparr>)
           | (r, _) \<Rightarrow> Some (s\<lparr>rn_alloc := r\<rparr>))"

text \<open>The grants after an event, and what an event may carry: sound ClusterCIDRs, and nodes whose pod CIDRs are
  their own or overlap no grant of another node.\<close>

definition without_node :: "Node \<Rightarrow> grant list \<Rightarrow> grant list" where
  "without_node node = filter (\<lambda>g. fst g \<noteq> node_Name node)"

primrec deleted_node :: "deleted_object \<Rightarrow> Node option" where
  "deleted_node (DeletedNode node) = node"
| "deleted_node (Tombstone node) = node"
| "deleted_node TombstoneOther = None"
| "deleted_node DeletedOther = None"

definition node_ok :: "NetUtils \<Rightarrow> grant list \<Rightarrow> Node \<Rightarrow> bool" where
  "node_ok nu G node \<longleftrightarrow> pods_ok nu (node_PodCIDRs node) \<and> releasable nu G node"

fun event_grants :: "NetUtils \<Rightarrow> ('sel, 'req) LabelsLib \<Rightarrow> allocator \<Rightarrow> run_event \<Rightarrow> grant list \<Rightarrow> grant list" where
  "event_grants nu lib r (NodeWorker i api key shutdown) G =
     (if shutdown then G
      else case nodeLister_Get api key of
             Inl _ \<Rightarrow> G
           | Inr node \<Rightarrow> if IsZero (node_DeletionTimestamp node) then granted nu lib api r node @ G else without_node node G)"
| "event_grants nu lib r (NodeDeleted obj) G = (case deleted_node obj of None \<Rightarrow> G | Some node \<Rightarrow> without_node node G)"
| "event_grants nu lib r _ G = G"

fun event_ok :: "NetUtils \<Rightarrow> grant list \<Rightarrow> run_event \<Rightarrow> bool" where
  "event_ok nu G (CIDRWorker i api key shutdown) =
     (case clusterCIDRLister_Get api key of Inl _ \<Rightarrow> True | Inr ob \<Rightarrow> spec_ok nu (obj_Spec ob))"
| "event_ok nu G (NodeWorker i api key shutdown) =
     (case nodeLister_Get api key of Inl _ \<Rightarrow> True | Inr node \<Rightarrow> node_ok nu G node)"
| "event_ok nu G (NodeDeleted obj) = (case deleted_node obj of None \<Rightarrow> True | Some node \<Rightarrow> node_ok nu G node)"
| "event_ok nu G _ = True"

inductive running_controller ::
    "NetUtils \<Rightarrow> ('sel, 'req) LabelsLib \<Rightarrow> allocator \<Rightarrow> run_state \<Rightarrow> grant list \<Rightarrow> bool"
  for nu :: NetUtils and lib :: "('sel, 'req) LabelsLib" and r :: allocator where
  run_begin: "running_controller nu lib r (Run_begin r) []"
| run_event: "running_controller nu lib r s G \<Longrightarrow> event_ok nu G e \<Longrightarrow> run_step nu lib e s = Some s' \<Longrightarrow>
    running_controller nu lib r s' (event_grants nu lib (rn_alloc s) e G)"

section \<open>Events are steps of the controller\<close>

lemma system_ReleaseCIDR:
  assumes "system nu lib r G" "node_ok nu G node" "ReleaseCIDR nu lib r (Some node) = (r', res)"
  shows "system nu lib r' (without_node node G)"
  using system.node_release [OF assms(1) _ _ assms(3)] assms(2) by (simp add: node_ok_def without_node_def)

lemma system_node_item:
  assumes "system nu lib r G" "event_ok nu G (NodeWorker i api key shutdown)"
    "processNextNodeWorkItem nu lib api r (key, shutdown) = (r', res)"
  shows "system nu lib r' (event_grants nu lib r (NodeWorker i api key shutdown) G)"
proof (cases shutdown)
  case False
  obtain r1 o1 where s: "syncNode nu lib api r key = (r1, o1)" by force
  have "system nu lib r1 (event_grants nu lib r (NodeWorker i api key shutdown) G)"
  proof (cases "nodeLister_Get api key")
    case (Inr node)
    then have ok: "node_ok nu G node" using assms(2) by simp
    show ?thesis using s Inr False ok system_ReleaseCIDR [OF assms(1) ok, of r1 o1] system.node_sync [OF assms(1), of node api r1 o1]
      by (auto simp: syncNode_def node_ok_def split: if_splits)
  qed (use assms(1) s False in \<open>auto simp: syncNode_def split: if_splits\<close>)
  then show ?thesis using assms(3) s False system_finish by (simp add: processNextNodeWorkItem_def)
qed (use assms in \<open>simp add: processNextNodeWorkItem_def\<close>)

lemma system_cidr_item:
  assumes "system nu lib r G" "event_ok nu G (CIDRWorker i api key shutdown)"
    "processNextCIDRWorkItem nu lib api r (key, shutdown) = (r', res)"
  shows "system nu lib r' G"
proof (cases shutdown)
  case False
  obtain r1 o1 where s: "syncClusterCIDR nu lib api r key = (r1, o1)" by force
  have "system nu lib r1 G" using system_syncClusterCIDR [OF assms(1) _ s] assms(2) by (simp split: sum.splits)
  then show ?thesis using assms(3) s False system_finish by (simp add: processNextCIDRWorkItem_def)
qed (use assms in \<open>simp add: processNextCIDRWorkItem_def\<close>)

lemma handleNodeDelete_releases: "fst (handleNodeDelete nu lib r obj) = fst (ReleaseCIDR nu lib r (deleted_node obj))"
  by (cases obj) (auto simp: handleNodeDelete_def ReleaseCIDR_def split: outcome.split prod.split)

lemma system_node_deleted:
  assumes "system nu lib r G" "event_ok nu G (NodeDeleted obj)" "handleNodeDelete nu lib r obj = (r', res)"
  shows "system nu lib r' (event_grants nu lib r (NodeDeleted obj) G)"
proof (cases "deleted_node obj")
  case None
  then show ?thesis using assms handleNodeDelete_releases [of nu lib r obj] by (simp add: ReleaseCIDR_def)
next
  case (Some node)
  then have "fst (ReleaseCIDR nu lib r (Some node)) = r'" using assms(3) handleNodeDelete_releases [of nu lib r obj] by simp
  then show ?thesis using system_ReleaseCIDR [OF assms(1), of node r'] assms(2) Some by (metis (no_types, lifting) event_grants.simps(2)
      event_ok.simps(3) option.simps(5) prod.collapse)
qed

lemma system_callback:
  "system nu lib r G \<Longrightarrow> system nu lib (onClusterCIDRAdd r key) G"
  "system nu lib r G \<Longrightarrow> system nu lib (onClusterCIDRUpdate r eq key) G"
  "system nu lib r G \<Longrightarrow> system nu lib (onClusterCIDRDelete r key) G"
  "system nu lib r G \<Longrightarrow> system nu lib (onNodeAdd r key) G"
  "system nu lib r G \<Longrightarrow> system nu lib (onNodeUpdate r key) G"
  by (auto simp: onClusterCIDRAdd_def onClusterCIDRUpdate_def onClusterCIDRDelete_def onNodeAdd_def onNodeUpdate_def
      split: option.split intro: system.effect)

lemma system_event:
  assumes "system nu lib (rn_alloc s) G" "event_ok nu G e" "run_step nu lib e s = Some s'"
  shows "system nu lib (rn_alloc s') (event_grants nu lib (rn_alloc s) e G)"
proof (cases e)
  case (CIDRWorker i api key shutdown)
  then show ?thesis using assms system_cidr_item [OF assms(1), of i api key shutdown]
    by (auto split: if_splits prod.splits outcome.splits bool.splits simp del: event_ok.simps)
next
  case (NodeWorker i api key shutdown)
  then show ?thesis using assms system_node_item [OF assms(1), of i api key shutdown]
    by (auto split: if_splits prod.splits outcome.splits bool.splits simp del: event_ok.simps event_grants.simps)
next
  case (NodeDeleted obj)
  then show ?thesis using assms system_node_deleted [OF assms(1), of obj]
    by (auto split: if_splits prod.splits outcome.splits simp del: event_ok.simps event_grants.simps)
qed (use assms in \<open>auto split: if_splits intro: system_callback\<close>)

lemma running_system:
  assumes "running_controller nu lib r s G" "system nu lib r []"
  shows "system nu lib (rn_alloc s) G"
  using assms(1)
proof induction
  case run_begin
  then show ?case using assms(2) by (simp add: Run_begin_def)
next
  case (run_event s G e s')
  then show ?case by (blast intro: system_event)
qed

text \<open>Which workers there are, and that nothing is granted before the caches have synced.\<close>

definition run_shape :: "run_state \<Rightarrow> grant list \<Rightarrow> bool" where
  "run_shape s G \<longleftrightarrow>
     length (cidr_workers s) = length (node_workers s) \<and>
     (rn_phase s = WaitingForCaches \<longrightarrow> node_workers s = []) \<and> (node_workers s = [] \<longrightarrow> G = []) \<and>
     (rn_phase s = Working \<longrightarrow> cidr_workers s = replicate cidrUpdateWorkers True \<and> node_workers s = replicate cidrUpdateWorkers True)"

lemma item_result:
  "processNextNodeWorkItem nu lib api r (key, shutdown) = (r', Ret False) \<Longrightarrow> shutdown"
  "processNextCIDRWorkItem nu lib api r (key, shutdown) = (r', Ret False) \<Longrightarrow> shutdown"
  by (auto simp: processNextNodeWorkItem_def processNextCIDRWorkItem_def finish_item_def split: if_splits prod.splits outcome.splits)

lemma run_shape_event:
  assumes "run_shape s G" "run_step nu lib e s = Some s'"
  shows "run_shape s' (event_grants nu lib (rn_alloc s) e G)"
proof (cases e)
  case (CIDRWorker i api key shutdown)
  then show ?thesis using assms item_result(2) [of nu lib api "rn_alloc s" key shutdown]
    by (auto simp: run_shape_def may_get_def split: if_splits prod.splits outcome.splits bool.splits)
next
  case (NodeWorker i api key shutdown)
  then have "node_workers s \<noteq> []" "node_workers s' = [] \<longleftrightarrow> node_workers s = []"
    using assms(2) by (auto simp: may_get_def split: if_splits prod.splits outcome.splits bool.splits)
  then show ?thesis using NodeWorker assms item_result(1) [of nu lib api "rn_alloc s" key shutdown]
    by (auto simp: run_shape_def may_get_def split: if_splits prod.splits outcome.splits bool.splits)
next
  case (NodeDeleted obj)
  then show ?thesis using assms
    by (auto simp: run_shape_def without_node_def split: if_splits prod.splits outcome.splits option.splits)
qed (use assms in \<open>auto simp: run_shape_def cidrUpdateWorkers_def split: if_splits\<close>)

lemma running_shape:
  assumes "running_controller nu lib r s G"
  shows "run_shape s G"
  using assms
proof induction
  case run_begin
  then show ?case by (simp add: run_shape_def Run_begin_def)
next
  case (run_event s G e s')
  then show ?case by (blast intro: run_shape_event)
qed

end
