(* ===== verification/InformerFactory.thy ===== *)
theory InformerFactory
  imports MultiCIDRSet
begin

text \<open>The shared informer factory (\<open>pkg/client/informers/externalversions\<close>), the informer and the lister of
  ClusterCIDRs, and the group and version names they use. An informer is an object of client-go: the model
  keeps what the code passes to its constructor, in the list \<open>created\<close> of all informers made so far, and a
  pointer to an informer is its index there. A key of the Go maps of the factory is a \<open>reflect.Type\<close>, here its
  name. A \<open>range\<close> over a map visits the keys in any order, which is an argument of the operation.\<close>

section \<open>Group, version and resources\<close>

record GroupVersion =
  gv_Group :: string
  gv_Version :: string

record GroupVersionResource =
  gvr_Group :: string
  gvr_Version :: string
  gvr_Resource :: string

record GroupResource =
  gr_Group :: string
  gr_Resource :: string

definition GroupName :: string where
  "GroupName = ''networking.x-k8s.io''"

definition SchemeGroupVersion :: GroupVersion where
  "SchemeGroupVersion = \<lparr> gv_Group = GroupName, gv_Version = ''v1'' \<rparr>"

definition WithResource :: "GroupVersion \<Rightarrow> string \<Rightarrow> GroupVersionResource" where
  "WithResource gv r = \<lparr> gvr_Group = gv_Group gv, gvr_Version = gv_Version gv, gvr_Resource = r \<rparr>"

definition gvr_GroupResource :: "GroupVersionResource \<Rightarrow> GroupResource" where
  "gvr_GroupResource gvr = \<lparr> gr_Group = gvr_Group gvr, gr_Resource = gvr_Resource gvr \<rparr>"

definition Resource :: "string \<Rightarrow> GroupResource" where
  "Resource r = gvr_GroupResource (WithResource SchemeGroupVersion r)"

section \<open>Informers\<close>

text \<open>A call of the ClusterCIDR client: \<open>None\<close> as context is \<open>context.Background()\<close>.\<close>

datatype ('c, 'o) client_call = ListCall 'c "nat option" 'o | WatchCall 'c "nat option" 'o

record ('c, 'o) ListWatch =
  ListFunc :: "'o \<Rightarrow> ('c, 'o) client_call"
  WatchFunc :: "'o \<Rightarrow> ('c, 'o) client_call"
  ListWithContextFunc :: "nat \<Rightarrow> 'o \<Rightarrow> ('c, 'o) client_call"
  WatchFuncWithContext :: "nat \<Rightarrow> 'o \<Rightarrow> ('c, 'o) client_call"

record ('c, 'o, 't) SharedIndexInformer =
  inf_ListWatch :: "('c, 'o) ListWatch"
  inf_Object :: string
  inf_Resync :: int
  inf_Indexers :: "string list"
  inf_Transform :: "'t option"

definition tweaked :: "('o \<Rightarrow> 'o) option \<Rightarrow> 'o \<Rightarrow> 'o" where
  "tweaked tweakListOptions options = (case tweakListOptions of None \<Rightarrow> options | Some tweak \<Rightarrow> tweak options)"

definition ClusterCIDR_type :: string where
  "ClusterCIDR_type = ''*v1.ClusterCIDR''"

definition NewFilteredClusterCIDRInformer ::
    "'c \<Rightarrow> int \<Rightarrow> string list \<Rightarrow> ('o \<Rightarrow> 'o) option \<Rightarrow> ('c, 'o, 't) SharedIndexInformer" where
  "NewFilteredClusterCIDRInformer client resyncPeriod indexers tweakListOptions =
     \<lparr> inf_ListWatch =
         \<lparr> ListFunc = (\<lambda>options. ListCall client None (tweaked tweakListOptions options)),
           WatchFunc = (\<lambda>options. WatchCall client None (tweaked tweakListOptions options)),
           ListWithContextFunc = (\<lambda>ctx options. ListCall client (Some ctx) (tweaked tweakListOptions options)),
           WatchFuncWithContext = (\<lambda>ctx options. WatchCall client (Some ctx) (tweaked tweakListOptions options)) \<rparr>,
       inf_Object = ClusterCIDR_type, inf_Resync = resyncPeriod, inf_Indexers = indexers, inf_Transform = None \<rparr>"

definition NewClusterCIDRInformer :: "'c \<Rightarrow> int \<Rightarrow> string list \<Rightarrow> ('c, 'o, 't) SharedIndexInformer" where
  "NewClusterCIDRInformer client resyncPeriod indexers = NewFilteredClusterCIDRInformer client resyncPeriod indexers None"

section \<open>The factory\<close>

text \<open>A goroutine of \<open>Start\<close> runs an informer until its stop channel is closed; then it calls \<open>wg.Done\<close>.\<close>

record goroutine =
  go_Type :: string
  go_Informer :: nat
  go_Stop :: nat

record ('c, 'o, 't) sharedInformerFactory =
  fac_client :: 'c
  fac_namespace :: string
  fac_tweakListOptions :: "('o \<Rightarrow> 'o) option"
  defaultResync :: int
  customResync :: "string \<rightharpoonup> int"
  fac_transform :: "'t option"
  informers :: "string \<rightharpoonup> nat"
  startedInformers :: "string \<rightharpoonup> bool"
  wg :: int
  shuttingDown :: bool
  created :: "('c, 'o, 't) SharedIndexInformer list"
  running :: "goroutine list"

type_synonym ('c, 'o, 't) SharedInformerOption = "('c, 'o, 't) sharedInformerFactory \<Rightarrow> ('c, 'o, 't) sharedInformerFactory"

fun custom_resync_loop :: "(string \<times> int) list \<Rightarrow> ('c, 'o, 't) SharedInformerOption" where
  "custom_resync_loop [] factory = factory"
| "custom_resync_loop ((k, v) # resyncConfig) factory =
     custom_resync_loop resyncConfig (factory\<lparr>customResync := (customResync factory)(k \<mapsto> v)\<rparr>)"

definition WithCustomResyncConfig :: "(string \<times> int) list \<Rightarrow> ('c, 'o, 't) SharedInformerOption" where
  "WithCustomResyncConfig resyncConfig = custom_resync_loop resyncConfig"

definition WithTweakListOptions :: "('o \<Rightarrow> 'o) option \<Rightarrow> ('c, 'o, 't) SharedInformerOption" where
  "WithTweakListOptions tweak factory = factory\<lparr>fac_tweakListOptions := tweak\<rparr>"

definition WithNamespace :: "string \<Rightarrow> ('c, 'o, 't) SharedInformerOption" where
  "WithNamespace namespace factory = factory\<lparr>fac_namespace := namespace\<rparr>"

definition WithTransform :: "'t option \<Rightarrow> ('c, 'o, 't) SharedInformerOption" where
  "WithTransform transform factory = factory\<lparr>fac_transform := transform\<rparr>"

text \<open>\<open>v1.NamespaceAll\<close> is the empty string.\<close>

definition NewSharedInformerFactoryWithOptions ::
    "'c \<Rightarrow> int \<Rightarrow> ('c, 'o, 't) SharedInformerOption list \<Rightarrow> ('c, 'o, 't) sharedInformerFactory" where
  "NewSharedInformerFactoryWithOptions client resync options =
     foldl (\<lambda>factory opt. opt factory)
       \<lparr> fac_client = client, fac_namespace = [], fac_tweakListOptions = None, defaultResync = resync, customResync = Map.empty,
         fac_transform = None, informers = Map.empty, startedInformers = Map.empty, wg = 0, shuttingDown = False,
         created = [], running = [] \<rparr> options"

definition NewSharedInformerFactory :: "'c \<Rightarrow> int \<Rightarrow> ('c, 'o, 't) sharedInformerFactory" where
  "NewSharedInformerFactory client resync = NewSharedInformerFactoryWithOptions client resync []"

definition NewFilteredSharedInformerFactory ::
    "'c \<Rightarrow> int \<Rightarrow> string \<Rightarrow> ('o \<Rightarrow> 'o) option \<Rightarrow> ('c, 'o, 't) sharedInformerFactory" where
  "NewFilteredSharedInformerFactory client resync namespace tweak =
     NewSharedInformerFactoryWithOptions client resync [WithNamespace namespace, WithTweakListOptions tweak]"

text \<open>A missing key of a Go map reads as the zero value.\<close>

definition is_started :: "('c, 'o, 't) sharedInformerFactory \<Rightarrow> string \<Rightarrow> bool" where
  "is_started f informerType = (startedInformers f informerType = Some True)"

definition start_one :: "nat \<Rightarrow> string \<Rightarrow> ('c, 'o, 't) sharedInformerFactory \<Rightarrow> ('c, 'o, 't) sharedInformerFactory" where
  "start_one stopCh informerType f =
     (case informers f informerType of
        None \<Rightarrow> f
      | Some informer \<Rightarrow>
          if is_started f informerType then f
          else f\<lparr> wg := wg f + 1,
                  running := \<lparr> go_Type = informerType, go_Informer = informer, go_Stop = stopCh \<rparr> # running f,
                  startedInformers := (startedInformers f)(informerType \<mapsto> True) \<rparr>)"

definition Start :: "string list \<Rightarrow> nat \<Rightarrow> ('c, 'o, 't) sharedInformerFactory \<Rightarrow> ('c, 'o, 't) sharedInformerFactory" where
  "Start order stopCh f = (if shuttingDown f then f else fold (start_one stopCh) order f)"

text \<open>The end of a goroutine: the deferred \<open>wg.Done()\<close>, which panics when the counter becomes negative.\<close>

definition Done :: "goroutine \<Rightarrow> ('c, 'o, 't) sharedInformerFactory \<Rightarrow> ('c, 'o, 't) sharedInformerFactory outcome" where
  "Done g f =
     (let f' = f\<lparr>wg := wg f - 1, running := remove1 g (running f)\<rparr> in if wg f' < 0 then Panic else Ret f')"

text \<open>\<open>Shutdown\<close> sets the flag, then waits for the counter to be zero.\<close>

definition Shutdown_begin :: "('c, 'o, 't) sharedInformerFactory \<Rightarrow> ('c, 'o, 't) sharedInformerFactory" where
  "Shutdown_begin f = f\<lparr>shuttingDown := True\<rparr>"

definition Shutdown_returns :: "('c, 'o, 't) sharedInformerFactory \<Rightarrow> bool" where
  "Shutdown_returns f = (shuttingDown f \<and> wg f = 0)"

text \<open>\<open>cache.WaitForCacheSync\<close> of client-go, on one informer, is the parameter \<open>wait\<close>.\<close>

definition WaitForCacheSync :: "(nat \<Rightarrow> nat \<Rightarrow> bool) \<Rightarrow> nat \<Rightarrow> ('c, 'o, 't) sharedInformerFactory \<Rightarrow> (string \<rightharpoonup> bool)" where
  "WaitForCacheSync wait stopCh f =
     (\<lambda>informType. if is_started f informType then map_option (wait stopCh) (informers f informType) else None)"

definition InformerFor ::
    "string \<Rightarrow> ('c \<Rightarrow> int \<Rightarrow> ('c, 'o, 't) SharedIndexInformer) \<Rightarrow> ('c, 'o, 't) sharedInformerFactory \<Rightarrow>
     nat \<times> ('c, 'o, 't) sharedInformerFactory" where
  "InformerFor informerType newFunc f =
     (case informers f informerType of
        Some informer \<Rightarrow> (informer, f)
      | None \<Rightarrow>
          let resyncPeriod = (case customResync f informerType of Some p \<Rightarrow> p | None \<Rightarrow> defaultResync f);
              informer = (newFunc (fac_client f) resyncPeriod)\<lparr>inf_Transform := fac_transform f\<rparr>
          in (length (created f),
              f\<lparr>informers := (informers f)(informerType \<mapsto> length (created f)), created := created f @ [informer]\<rparr>))"

text \<open>\<open>f.Networking().V1().ClusterCIDRs()\<close>: the group and the version hand the factory, which is the state, and its
  options on.\<close>

record 'o group =
  grp_namespace :: string
  grp_tweakListOptions :: "('o \<Rightarrow> 'o) option"

record 'o version =
  ver_namespace :: string
  ver_tweakListOptions :: "('o \<Rightarrow> 'o) option"

record 'o clusterCIDRInformer =
  cci_tweakListOptions :: "('o \<Rightarrow> 'o) option"

definition Networking :: "('c, 'o, 't) sharedInformerFactory \<Rightarrow> 'o group" where
  "Networking f = \<lparr> grp_namespace = fac_namespace f, grp_tweakListOptions = fac_tweakListOptions f \<rparr>"

definition group_V1 :: "'o group \<Rightarrow> 'o version" where
  "group_V1 g = \<lparr> ver_namespace = grp_namespace g, ver_tweakListOptions = grp_tweakListOptions g \<rparr>"

definition version_ClusterCIDRs :: "'o version \<Rightarrow> 'o clusterCIDRInformer" where
  "version_ClusterCIDRs v = \<lparr> cci_tweakListOptions = ver_tweakListOptions v \<rparr>"

definition NamespaceIndex :: string where
  "NamespaceIndex = ''namespace''"

definition defaultInformer :: "'o clusterCIDRInformer \<Rightarrow> 'c \<Rightarrow> int \<Rightarrow> ('c, 'o, 't) SharedIndexInformer" where
  "defaultInformer cci client resyncPeriod =
     NewFilteredClusterCIDRInformer client resyncPeriod [NamespaceIndex] (cci_tweakListOptions cci)"

definition cci_Informer ::
    "'o clusterCIDRInformer \<Rightarrow> ('c, 'o, 't) sharedInformerFactory \<Rightarrow> nat \<times> ('c, 'o, 't) sharedInformerFactory" where
  "cci_Informer cci f = InformerFor ClusterCIDR_type (defaultInformer cci) f"

text \<open>A lister reads the indexer of an informer and names its resource in the errors of \<open>Get\<close>.\<close>

record ClusterCIDRLister =
  lister_indexer :: nat
  lister_resource :: GroupResource

definition NewClusterCIDRLister :: "nat \<Rightarrow> ClusterCIDRLister" where
  "NewClusterCIDRLister indexer = \<lparr> lister_indexer = indexer, lister_resource = Resource ''clustercidr'' \<rparr>"

definition cci_Lister ::
    "'o clusterCIDRInformer \<Rightarrow> ('c, 'o, 't) sharedInformerFactory \<Rightarrow> ClusterCIDRLister \<times> ('c, 'o, 't) sharedInformerFactory" where
  "cci_Lister cci f = (case cci_Informer cci f of (informer, f') \<Rightarrow> (NewClusterCIDRLister informer, f'))"

record genericInformer =
  gen_informer :: nat
  gen_resource :: GroupResource

definition gen_Lister :: "genericInformer \<Rightarrow> nat \<times> GroupResource" where
  "gen_Lister g = (gen_informer g, gen_resource g)"

definition ForResource ::
    "GroupVersionResource \<Rightarrow> ('c, 'o, 't) sharedInformerFactory \<Rightarrow> (go_error + genericInformer) \<times> ('c, 'o, 't) sharedInformerFactory" where
  "ForResource resource f =
     (if resource = WithResource SchemeGroupVersion ''clustercidrs''
      then (case cci_Informer (version_ClusterCIDRs (group_V1 (Networking f))) f of
              (informer, f') \<Rightarrow> (Inr \<lparr> gen_informer = informer, gen_resource = gvr_GroupResource resource \<rparr>, f'))
      else (Inl (Errorf ''no informer found for''), f))"

section \<open>The factory over time\<close>

text \<open>Callers of the factory and the goroutines it started take steps in any order; each holds the lock.\<close>

inductive factory_step :: "('c, 'o, 't) sharedInformerFactory \<Rightarrow> ('c, 'o, 't) sharedInformerFactory \<Rightarrow> bool" where
  informer_for: "factory_step f (snd (InformerFor t newFunc f))"
| start: "set order = dom (informers f) \<Longrightarrow> factory_step f (Start order stopCh f)"
| finished: "g \<in> set (running f) \<Longrightarrow> Done g f = Ret f' \<Longrightarrow> factory_step f f'"
| shutdown: "factory_step f (Shutdown_begin f)"

inductive_cases factory_stepE: "factory_step f f'"

definition standard_option :: "('c, 'o, 't) SharedInformerOption \<Rightarrow> bool" where
  "standard_option opt \<longleftrightarrow> (\<exists>r tw n tr. opt \<in> {WithCustomResyncConfig r, WithTweakListOptions tw, WithNamespace n, WithTransform tr})"

definition factory_ok :: "('c, 'o, 't) sharedInformerFactory \<Rightarrow> bool" where
  "factory_ok f \<longleftrightarrow>
     wg f = int (length (running f)) \<and>
     distinct (map go_Type (running f)) \<and>
     (\<forall>g \<in> set (running f). is_started f (go_Type g) \<and> informers f (go_Type g) = Some (go_Informer g)) \<and>
     dom (startedInformers f) \<subseteq> dom (informers f) \<and>
     ran (informers f) \<subseteq> {..<length (created f)} \<and>
     inj_on (informers f) (dom (informers f))"

subsection \<open>What a client of the factory relies on\<close>

text \<open>The interface \<open>internalinterfaces.SharedInformerFactory\<close>: informers are shared by type and never replaced.\<close>

locale informer_sharing =
  fixes lookup :: "'f \<Rightarrow> string \<rightharpoonup> nat"
    and start :: "string list \<Rightarrow> nat \<Rightarrow> 'f \<Rightarrow> 'f"
    and informer_for :: "string \<Rightarrow> 'n \<Rightarrow> 'f \<Rightarrow> nat \<times> 'f"
  assumes for_found: "lookup (snd (informer_for t n f)) t = Some (fst (informer_for t n f))"
    and for_known: "lookup f t = Some i \<Longrightarrow> informer_for t n f = (i, f)"
    and for_keeps: "lookup f \<subseteq>\<^sub>m lookup (snd (informer_for t n f))"
    and start_keeps: "lookup (start order ch f) = lookup f"
begin

lemma for_again:
  assumes "informer_for t n f = (i, f1)" "lookup f1 \<subseteq>\<^sub>m lookup f2"
  shows "informer_for t m f2 = (i, f2)"
proof -
  have "lookup f1 t = Some i" using for_found [of t n f] assms(1) by simp
  then have "lookup f2 t = Some i" using assms(2) by (metis domI map_le_def)
  then show ?thesis by (rule for_known)
qed

lemma for_then_start:
  assumes "informer_for t n f = (i, f1)"
  shows "informer_for t m (start order ch f1) = (i, start order ch f1)"
  by (rule for_again [OF assms]) (simp add: start_keeps)

end

lemma start_one_simps [simp]:
  "informers (start_one ch t f) = informers f" "created (start_one ch t f) = created f"
  "shuttingDown (start_one ch t f) = shuttingDown f"
  by (simp_all add: start_one_def split: option.split)

lemma fold_start_simps [simp]:
  "informers (fold (start_one ch) order f) = informers f" "created (fold (start_one ch) order f) = created f"
  "shuttingDown (fold (start_one ch) order f) = shuttingDown f"
  by (induction order arbitrary: f) simp_all

interpretation shared: informer_sharing informers Start InformerFor
  by unfold_locales (auto simp: InformerFor_def Start_def map_le_def Let_def split: option.splits)

subsection \<open>Invariant and steps\<close>

lemma start_one_ok: "factory_ok f \<Longrightarrow> factory_ok (start_one ch t f)"
proof (cases "informers f t")
  case (Some i)
  assume ok: "factory_ok f"
  show ?thesis
  proof (cases "is_started f t")
    case False
    then have "t \<notin> go_Type ` set (running f)" using ok by (auto simp: factory_ok_def)
    then show ?thesis using ok Some False
      by (auto simp: factory_ok_def start_one_def is_started_def)
  qed (use ok Some in \<open>simp add: start_one_def\<close>)
qed (simp add: start_one_def)

lemma Start_ok: "factory_ok f \<Longrightarrow> factory_ok (Start order ch f)"
proof -
  have "factory_ok f \<Longrightarrow> factory_ok (fold (start_one ch) order f)"
    by (induction order arbitrary: f) (simp_all add: start_one_ok)
  then show "factory_ok f \<Longrightarrow> factory_ok (Start order ch f)" by (simp add: Start_def)
qed

lemma InformerFor_ok:
  assumes "factory_ok f"
  shows "factory_ok (snd (InformerFor t newFunc f))"
proof (cases "informers f t")
  case None
  have "length (created f) \<notin> ran (informers f)" using assms by (auto simp: factory_ok_def)
  then have "inj_on ((informers f)(t \<mapsto> length (created f))) (insert t (dom (informers f)))"
    using assms None by (auto simp: factory_ok_def inj_on_def ran_def dom_def)
  moreover have "t \<notin> go_Type ` set (running f)" using assms None by (auto simp: factory_ok_def)
  ultimately show ?thesis using assms None
    by (auto simp: factory_ok_def InformerFor_def Let_def is_started_def ran_def less_Suc_eq)
qed (use assms in \<open>simp add: InformerFor_def\<close>)

lemma Done_running:
  assumes "factory_ok f" "g \<in> set (running f)"
  obtains f' where "Done g f = Ret f'" "factory_ok f'" "wg f' = wg f - 1" "running f' = remove1 g (running f)"
    "informers f' = informers f" "startedInformers f' = startedInformers f" "shuttingDown f' = shuttingDown f"
proof -
  have l: "length (running f) > 0" using assms(2) by (rule length_pos_if_in_set)
  have d: "distinct (map go_Type (remove1 g (running f)))"
    using assms(1) unfolding factory_ok_def by (metis distinct_map distinct_remove1 inj_on_subset set_remove1_subset)
  let ?f = "f\<lparr>wg := wg f - 1, running := remove1 g (running f)\<rparr>"
  have "Done g f = Ret ?f" using assms(1) l by (simp add: Done_def factory_ok_def Let_def)
  moreover have "factory_ok ?f"
    using assms d l set_remove1_subset [of g "running f"] by (auto simp: factory_ok_def is_started_def length_remove1 of_nat_diff Suc_le_eq)
  ultimately show ?thesis using that by simp
qed

lemma step_ok: "factory_step f f' \<Longrightarrow> factory_ok f \<Longrightarrow> factory_ok f'"
proof (induction rule: factory_step.induct)
  case (finished g f f')
  then show ?case by (metis Done_running outcome.inject(1))
qed (auto intro: InformerFor_ok Start_ok simp: Shutdown_begin_def, simp add: factory_ok_def is_started_def)

lemma start_one_started:
  "is_started f t \<Longrightarrow> is_started (start_one ch u f) t"
  "is_started f t \<Longrightarrow> go_Type g = t \<Longrightarrow> g \<in> set (running (start_one ch u f)) \<longleftrightarrow> g \<in> set (running f)"
  by (auto simp: start_one_def is_started_def split: option.split)

lemma fold_start_started:
  assumes "is_started f t"
  shows "is_started (fold (start_one ch) order f) t \<and>
    (\<forall>g. go_Type g = t \<longrightarrow> (g \<in> set (running (fold (start_one ch) order f)) \<longleftrightarrow> g \<in> set (running f)))"
  using assms
proof (induction order arbitrary: f)
  case (Cons u order)
  from Cons.IH [OF start_one_started(1) [OF Cons.prems]] start_one_started(2) [OF Cons.prems] show ?case by simp
qed simp

lemma InformerFor_simps [simp]:
  "startedInformers (snd (InformerFor t n f)) = startedInformers f" "running (snd (InformerFor t n f)) = running f"
  "wg (snd (InformerFor t n f)) = wg f" "shuttingDown (snd (InformerFor t n f)) = shuttingDown f"
  by (simp_all add: InformerFor_def Let_def split: option.split)

lemma step_started:
  assumes "factory_step f f'" "factory_ok f" "is_started f t" "\<forall>g \<in> set (running f). go_Type g \<noteq> t"
  shows "is_started f' t \<and> (\<forall>g \<in> set (running f'). go_Type g \<noteq> t)"
  using assms
proof (cases rule: factory_step.cases)
  case (start order ch)
  then show ?thesis using assms(3,4) fold_start_started [OF assms(3), of ch order] by (auto simp: Start_def)
next
  case (finished g)
  from assms(2) this(1) obtain f1 where "Done g f = Ret f1" "running f1 = remove1 g (running f)"
    "startedInformers f1 = startedInformers f" by (rule Done_running)
  then show ?thesis using finished assms(3,4) set_remove1_subset [of g "running f"] by (auto simp: is_started_def)
qed (auto simp: is_started_def Shutdown_begin_def)

lemma step_shutting_down:
  assumes "factory_step f f'" "factory_ok f" "shuttingDown f"
  shows "shuttingDown f' \<and> wg f' \<le> wg f"
  using assms
proof (cases rule: factory_step.cases)
  case (finished g)
  from assms(2) this(1) obtain f1 where "Done g f = Ret f1" "wg f1 = wg f - 1" "shuttingDown f1 = shuttingDown f" by (rule Done_running)
  then show ?thesis using finished assms(3) by simp
qed (auto simp: Start_def Shutdown_begin_def)

lemma option_fields:
  assumes "standard_option opt"
  shows "informers (opt f) = informers f \<and> startedInformers (opt f) = startedInformers f \<and> wg (opt f) = wg f \<and>
    shuttingDown (opt f) = shuttingDown f \<and> created (opt f) = created f \<and> running (opt f) = running f \<and> defaultResync (opt f) = defaultResync f"
proof -
  have "informers (custom_resync_loop r f) = informers f \<and> startedInformers (custom_resync_loop r f) = startedInformers f \<and>
    wg (custom_resync_loop r f) = wg f \<and> shuttingDown (custom_resync_loop r f) = shuttingDown f \<and>
    created (custom_resync_loop r f) = created f \<and> running (custom_resync_loop r f) = running f \<and>
    defaultResync (custom_resync_loop r f) = defaultResync f" for r
    by (induction r f rule: custom_resync_loop.induct) simp_all
  then show ?thesis using assms
    by (auto simp: standard_option_def WithCustomResyncConfig_def WithTweakListOptions_def WithNamespace_def WithTransform_def)
qed

lemma options_fields:
  assumes "\<forall>opt \<in> set options. standard_option opt"
  shows "informers (foldl (\<lambda>f opt. opt f) f options) = informers f \<and>
    startedInformers (foldl (\<lambda>f opt. opt f) f options) = startedInformers f \<and> wg (foldl (\<lambda>f opt. opt f) f options) = wg f \<and>
    shuttingDown (foldl (\<lambda>f opt. opt f) f options) = shuttingDown f \<and> created (foldl (\<lambda>f opt. opt f) f options) = created f \<and>
    running (foldl (\<lambda>f opt. opt f) f options) = running f"
  using assms
proof (induction options arbitrary: f)
  case (Cons opt options)
  then show ?case using option_fields [of opt f] by simp
qed simp

lemma new_factory_ok:
  assumes "\<forall>opt \<in> set options. standard_option opt"
  shows "factory_ok (NewSharedInformerFactoryWithOptions c r options)"
  using options_fields [OF assms] by (simp add: NewSharedInformerFactoryWithOptions_def factory_ok_def)

lemma reach_ok: "factory_step\<^sup>*\<^sup>* f f' \<Longrightarrow> factory_ok f \<Longrightarrow> factory_ok f'"
  by (induction rule: rtranclp_induct) (auto intro: step_ok)

subsection \<open>What \<open>Start\<close> starts\<close>

lemma fold_start_all:
  assumes "set order \<subseteq> dom (informers f)"
  shows "is_started (fold (start_one ch) order f) t \<longleftrightarrow> t \<in> set order \<or> is_started f t"
  using assms
proof (induction order arbitrary: f)
  case (Cons u order)
  have "is_started (start_one ch u f) t \<longleftrightarrow> t = u \<or> is_started f t"
    using Cons.prems by (auto simp: start_one_def is_started_def split: option.split)
  moreover have "set order \<subseteq> dom (informers (start_one ch u f))" using Cons.prems by simp
  ultimately show ?case using Cons.IH [of "start_one ch u f"] by auto
qed simp

lemma fold_start_running:
  assumes "set order \<subseteq> dom (informers f)" "factory_ok f"
  shows "set (running (fold (start_one ch) order f)) = set (running f) \<union>
    {\<lparr>go_Type = t, go_Informer = the (informers f t), go_Stop = ch\<rparr> |t. t \<in> set order \<and> \<not> is_started f t}"
  using assms
proof (induction order arbitrary: f)
  case (Cons u order)
  let ?g = "start_one ch u f"
  have d: "set order \<subseteq> dom (informers ?g)" using Cons.prems(1) by simp
  have s: "is_started ?g t \<longleftrightarrow> t = u \<or> is_started f t" for t
    using Cons.prems(1) by (auto simp: start_one_def is_started_def split: option.split)
  have r: "set (running ?g) = set (running f) \<union>
    (if is_started f u then {} else {\<lparr>go_Type = u, go_Informer = the (informers f u), go_Stop = ch\<rparr>})"
    using Cons.prems(1) by (auto simp: start_one_def split: option.split)
  show ?case using Cons.IH [OF d start_one_ok [OF Cons.prems(2)]] r s by auto
qed auto

subsection \<open>Properties\<close>

lemma reach_started:
  assumes "factory_step\<^sup>*\<^sup>* f f'" "factory_ok f" "is_started f t" "\<forall>g \<in> set (running f). go_Type g \<noteq> t"
  shows "is_started f' t \<and> (\<forall>g \<in> set (running f'). go_Type g \<noteq> t)"
  using assms(1)
proof (induction rule: rtranclp_induct)
  case (step f1 f2)
  then show ?case using step_started [OF step.hyps(2) reach_ok [OF step.hyps(1) assms(2)]] by blast
qed (use assms in simp)

lemma reach_shut_down:
  assumes "factory_step\<^sup>*\<^sup>* f f'" "factory_ok f" "Shutdown_returns f"
  shows "Shutdown_returns f'"
  using assms(1)
proof (induction rule: rtranclp_induct)
  case (step f1 f2)
  note ok = reach_ok [OF step.hyps(1) assms(2)]
  have "shuttingDown f2 \<and> wg f2 \<le> wg f1"
    using step_shutting_down [OF step.hyps(2) ok] step.IH by (simp add: Shutdown_returns_def)
  moreover have "wg f2 \<ge> 0" using step_ok [OF step.hyps(2) ok] by (simp add: factory_ok_def)
  ultimately show ?case using step.IH by (simp add: Shutdown_returns_def)
qed (use assms in simp)


text \<open>A run: the informer is asked for, started, and ends; then the factory is shut down.\<close>

definition demo_factory :: "(nat, nat, nat) sharedInformerFactory" where
  "demo_factory = NewSharedInformerFactoryWithOptions 0 30 [WithNamespace ''kube-system'', WithCustomResyncConfig [(ClusterCIDR_type, 60)]]"

definition demo_options :: "(nat, nat, nat) SharedInformerOption list" where
  "demo_options = [WithNamespace ''kube-system'', WithCustomResyncConfig [(ClusterCIDR_type, 60)]]"

definition demo_cci :: "nat clusterCIDRInformer" where
  "demo_cci = version_ClusterCIDRs (group_V1 (Networking demo_factory))"

definition demo_factory1 :: "(nat, nat, nat) sharedInformerFactory" where
  "demo_factory1 = snd (cci_Informer demo_cci demo_factory)"

definition demo_factory2 :: "(nat, nat, nat) sharedInformerFactory" where
  "demo_factory2 = Start [ClusterCIDR_type] 7 demo_factory1"

definition demo_factory3 :: "(nat, nat, nat) sharedInformerFactory" where
  "demo_factory3 = Shutdown_begin (demo_factory2\<lparr>wg := 0, running := []\<rparr>)"

lemma step_lookup:
  assumes "factory_step f f'" "factory_ok f"
  shows "informers f \<subseteq>\<^sub>m informers f'"
  using assms
proof (cases rule: factory_step.cases)
  case (finished g)
  from assms(2) this(1) obtain f1 where "Done g f = Ret f1" "informers f1 = informers f" by (rule Done_running)
  then show ?thesis using finished by simp
qed (simp_all add: shared.for_keeps shared.start_keeps Shutdown_begin_def)

lemma reach_lookup:
  assumes "factory_step\<^sup>*\<^sup>* f f'" "factory_ok f"
  shows "informers f \<subseteq>\<^sub>m informers f'"
  using assms(1)
proof (induction rule: rtranclp_induct)
  case (step f1 f2)
  then show ?case using step_lookup [OF step.hyps(2) reach_ok [OF step.hyps(1) assms(2)]] map_le_trans by blast
qed simp

text \<open>All parts of the program share one ClusterCIDR informer: once it was asked for, then after
  any further steps of the factory, asking again, the typed lister and the generic access by resource give the
  same informer and create none; a \<open>Start\<close> that is not refused has it running or already run, in whatever order
  the map is visited, and \<open>WaitForCacheSync\<close> then waits for exactly the registered informers.\<close>

theorem one_shared_informer:
  assumes "\<forall>opt \<in> set options. standard_option opt"
    "factory_step\<^sup>*\<^sup>* (NewSharedInformerFactoryWithOptions c resync options) f"
    "cci_Informer cci f = (i, f1)" "factory_step\<^sup>*\<^sup>* f1 f2" "set order = dom (informers f2)"
  shows "cci_Informer cci' f2 = (i, f2) \<and> fst (cci_Lister cci' f2) = NewClusterCIDRLister i \<and>
    ForResource (WithResource SchemeGroupVersion ''clustercidrs'') f2 =
      (Inr \<lparr>gen_informer = i, gen_resource = Resource ''clustercidrs''\<rparr>, f2) \<and>
    (\<not> shuttingDown f2 \<longrightarrow>
       dom (WaitForCacheSync wait stop (Start order ch f2)) = dom (informers f2) \<and>
       WaitForCacheSync wait stop (Start order ch f2) ClusterCIDR_type = Some (wait stop i) \<and>
       (\<not> is_started f2 ClusterCIDR_type \<longrightarrow>
          \<lparr>go_Type = ClusterCIDR_type, go_Informer = i, go_Stop = ch\<rparr> \<in> set (running (Start order ch f2))))"
proof -
  have ok: "factory_ok f" by (rule reach_ok [OF assms(2) new_factory_ok [OF assms(1)]])
  have ok1: "factory_ok f1" using InformerFor_ok [OF ok, of ClusterCIDR_type "defaultInformer cci"] assms(3)
    by (simp add: cci_Informer_def)
  note ok2 = reach_ok [OF assms(4) ok1]
  have again: "InformerFor ClusterCIDR_type n f2 = (i, f2)" for n
    by (rule shared.for_again [OF assms(3) [unfolded cci_Informer_def] reach_lookup [OF assms(4) ok1]])
  have inf: "informers f2 ClusterCIDR_type = Some i" using shared.for_found [where t = ClusterCIDR_type and f = f2] again by (metis fst_conv snd_conv)
  have st: "is_started (fold (start_one ch) order f2) t \<longleftrightarrow> t \<in> dom (informers f2)" for t
    using fold_start_all [of order f2 ch t] assms(5) ok2 by (auto simp: factory_ok_def is_started_def)
  have "dom (WaitForCacheSync wait stop (Start order ch f2)) = dom (informers f2)" if "\<not> shuttingDown f2"
    using st that unfolding WaitForCacheSync_def Start_def dom_def by auto
  moreover have "\<lparr>go_Type = ClusterCIDR_type, go_Informer = i, go_Stop = ch\<rparr> \<in> set (running (Start order ch f2))"
    if "\<not> shuttingDown f2" "\<not> is_started f2 ClusterCIDR_type"
    using that fold_start_running [of order f2 ch, OF _ ok2] assms(5) inf by (auto simp: Start_def)
  ultimately show ?thesis
    using again inf st
    by (auto simp: cci_Informer_def cci_Lister_def ForResource_def Resource_def WaitForCacheSync_def Start_def)
qed


lemma demo_options_standard: "\<forall>opt \<in> set demo_options. standard_option opt"
  by (auto simp: demo_options_def standard_option_def)

lemma demo_factory_new: "demo_factory = NewSharedInformerFactoryWithOptions 0 30 demo_options"
  by (simp add: demo_factory_def demo_options_def)

lemma demo_factory1_fields:
  "informers demo_factory1 = [ClusterCIDR_type \<mapsto> 0]" "startedInformers demo_factory1 = Map.empty" "running demo_factory1 = []"
  "wg demo_factory1 = 0" "shuttingDown demo_factory1 = False" "cci_Informer demo_cci demo_factory = (0, demo_factory1)"
  "inf_Resync (created demo_factory1 ! 0) = 60"
  by (simp_all add: demo_factory1_def demo_factory_def cci_Informer_def InformerFor_def Let_def NewSharedInformerFactoryWithOptions_def
      WithNamespace_def WithCustomResyncConfig_def defaultInformer_def NewFilteredClusterCIDRInformer_def)

lemma demo_factory2_fields:
  "running demo_factory2 = [\<lparr>go_Type = ClusterCIDR_type, go_Informer = 0, go_Stop = 7\<rparr>]" "wg demo_factory2 = 1"
  "is_started demo_factory2 ClusterCIDR_type"
  by (simp_all add: demo_factory2_def Start_def start_one_def demo_factory1_fields is_started_def)

lemma demo_factory_steps:
  "factory_step\<^sup>*\<^sup>* demo_factory demo_factory1" "factory_step\<^sup>*\<^sup>* demo_factory1 demo_factory3"
proof -
  have "factory_step demo_factory demo_factory1"
    unfolding demo_factory1_def cci_Informer_def by (rule factory_step.informer_for)
  then show "factory_step\<^sup>*\<^sup>* demo_factory demo_factory1" by blast
  have "factory_step demo_factory1 demo_factory2"
    unfolding demo_factory2_def by (rule factory_step.start) (simp add: demo_factory1_fields)
  moreover have "factory_step demo_factory2 (demo_factory2\<lparr>wg := 0, running := []\<rparr>)"
    by (rule factory_step.finished [of "\<lparr>go_Type = ClusterCIDR_type, go_Informer = 0, go_Stop = 7\<rparr>"])
      (simp_all add: demo_factory2_fields Done_def)
  moreover have "factory_step (demo_factory2\<lparr>wg := 0, running := []\<rparr>) demo_factory3"
    unfolding demo_factory3_def by (rule factory_step.shutdown)
  ultimately show "factory_step\<^sup>*\<^sup>* demo_factory1 demo_factory3"
    by (meson converse_rtranclp_into_rtranclp rtranclp.rtrancl_refl)
qed

lemma demo_factory3_reached: "factory_step\<^sup>*\<^sup>* (NewSharedInformerFactoryWithOptions 0 30 demo_options) demo_factory3"
  using demo_factory_steps by (simp add: demo_factory_new)


theorem one_shared_informer_witness:
  "cci_Informer demo_cci demo_factory1 = (0, demo_factory1) \<and>
   WaitForCacheSync (\<lambda>_ _. True) 7 demo_factory2 ClusterCIDR_type = Some True \<and>
   ForResource (WithResource SchemeGroupVersion ''clustercidrs'') demo_factory1 =
     (Inr \<lparr>gen_informer = 0, gen_resource = Resource ''clustercidrs''\<rparr>, demo_factory1)"
  using one_shared_informer [OF demo_options_standard _ demo_factory1_fields(6) rtranclp.rtrancl_refl,
      of 0 30 "[ClusterCIDR_type]" demo_cci "\<lambda>_ _. True" 7 7]
  by (simp add: demo_factory_new [symmetric] demo_factory1_fields demo_factory2_def)

end
