(* ===== verification/ClientSet.thy ===== *)
theory ClientSet
  imports InformerFactory
begin

text \<open>\<open>pkg/client/clientset/versioned\<close>: how a clientset is made from a REST configuration. Configurations are passed
  by pointer and copied before they are changed, so they live in a store, a list whose indices are the
  addresses. The REST and discovery clients of client-go are the parameter \<open>RestLib\<close>. \<open>QPS\<close> is a \<open>float32\<close> of
  which only the sign matters here.\<close>

record ('lim, 'ser, 'rest) rest_Config =
  UserAgent :: string
  RateLimiter :: "'lim option"
  QPS :: int
  Burst :: int
  cfg_GroupVersion :: "GroupVersion option"
  APIPath :: string
  NegotiatedSerializer :: "'ser option"
  cfg_rest :: 'rest

type_synonym ('lim, 'ser, 'rest) config_store = "('lim, 'ser, 'rest) rest_Config list"

record ('lim, 'ser, 'rest, 'http, 'client, 'disc) RestLib =
  DefaultKubernetesUserAgent :: string
  HTTPClientFor :: "('lim, 'ser, 'rest) rest_Config \<Rightarrow> go_error + 'http"
  NewTokenBucketRateLimiter :: "int \<Rightarrow> int \<Rightarrow> 'lim"
  GeneratedSerializer :: 'ser
  RESTClientForConfigAndClient :: "('lim, 'ser, 'rest) rest_Config \<Rightarrow> 'http \<Rightarrow> go_error + 'client"
  NewDiscoveryClientForConfigAndClient :: "('lim, 'ser, 'rest) rest_Config \<Rightarrow> 'http \<Rightarrow> go_error + 'disc"
  NewDiscoveryClient :: "'client \<Rightarrow> 'disc"

record 'client NetworkingV1Client =
  restClient :: 'client

record ('client, 'disc) Clientset =
  DiscoveryClient :: 'disc
  networkingV1 :: "'client NetworkingV1Client"

text \<open>The address of a shallow copy.\<close>

definition shallow_copy :: "('lim, 'ser, 'rest) config_store \<Rightarrow> nat \<Rightarrow> nat \<times> ('lim, 'ser, 'rest) config_store" where
  "shallow_copy st c = (length st, st @ [st ! c])"

definition setConfigDefaults ::
    "('lim, 'ser, 'rest, 'http, 'client, 'disc) RestLib \<Rightarrow> ('lim, 'ser, 'rest) config_store \<Rightarrow> nat \<Rightarrow> ('lim, 'ser, 'rest) config_store" where
  "setConfigDefaults rl st a =
     (let cfg = (st ! a)\<lparr> cfg_GroupVersion := Some SchemeGroupVersion, APIPath := ''/apis'',
                          NegotiatedSerializer := Some (GeneratedSerializer rl) \<rparr>;
          cfg' = (if UserAgent cfg = [] then cfg\<lparr>UserAgent := DefaultKubernetesUserAgent rl\<rparr> else cfg)
      in st[a := cfg'])"

definition typed_NewForConfigAndClient ::
    "('lim, 'ser, 'rest, 'http, 'client, 'disc) RestLib \<Rightarrow> ('lim, 'ser, 'rest) config_store \<Rightarrow> nat \<Rightarrow> 'http \<Rightarrow>
     (go_error + 'client NetworkingV1Client) \<times> ('lim, 'ser, 'rest) config_store" where
  "typed_NewForConfigAndClient rl st c h =
     (case shallow_copy st c of (a, st1) \<Rightarrow>
        let st2 = setConfigDefaults rl st1 a
        in case RESTClientForConfigAndClient rl (st2 ! a) h of
             Inl err \<Rightarrow> (Inl err, st2)
           | Inr client \<Rightarrow> (Inr \<lparr> restClient = client \<rparr>, st2))"

definition typed_NewForConfig ::
    "('lim, 'ser, 'rest, 'http, 'client, 'disc) RestLib \<Rightarrow> ('lim, 'ser, 'rest) config_store \<Rightarrow> nat \<Rightarrow>
     (go_error + 'client NetworkingV1Client) \<times> ('lim, 'ser, 'rest) config_store" where
  "typed_NewForConfig rl st c =
     (case shallow_copy st c of (a, st1) \<Rightarrow>
        let st2 = setConfigDefaults rl st1 a
        in case HTTPClientFor rl (st2 ! a) of
             Inl err \<Rightarrow> (Inl err, st2)
           | Inr httpClient \<Rightarrow> typed_NewForConfigAndClient rl st2 a httpClient)"

definition or_die :: "(go_error + 'a) \<times> 's \<Rightarrow> 'a outcome \<times> 's" where
  "or_die res = (case res of (Inl _, st) \<Rightarrow> (Panic, st) | (Inr x, st) \<Rightarrow> (Ret x, st))"

definition typed_NewForConfigOrDie ::
    "('lim, 'ser, 'rest, 'http, 'client, 'disc) RestLib \<Rightarrow> ('lim, 'ser, 'rest) config_store \<Rightarrow> nat \<Rightarrow>
     'client NetworkingV1Client outcome \<times> ('lim, 'ser, 'rest) config_store" where
  "typed_NewForConfigOrDie rl st c = or_die (typed_NewForConfig rl st c)"

definition typed_New :: "'client \<Rightarrow> 'client NetworkingV1Client" where
  "typed_New c = \<lparr> restClient = c \<rparr>"

text \<open>Methods of nil receivers.\<close>

definition RESTClient :: "'client NetworkingV1Client option \<Rightarrow> 'client option" where
  "RESTClient c = (case c of None \<Rightarrow> None | Some c' \<Rightarrow> Some (restClient c'))"

definition Discovery :: "('client, 'disc) Clientset option \<Rightarrow> 'disc option" where
  "Discovery c = (case c of None \<Rightarrow> None | Some c' \<Rightarrow> Some (DiscoveryClient c'))"

text \<open>\<open>gentype.NewClientWithList\<close> keeps the resource name, the REST client and the namespace.\<close>

record 'client clusterCIDRs =
  ccs_resource :: string
  ccs_client :: 'client
  ccs_namespace :: string

definition newClusterCIDRs :: "'client NetworkingV1Client \<Rightarrow> 'client clusterCIDRs" where
  "newClusterCIDRs c = \<lparr> ccs_resource = ''clustercidrs'', ccs_client = restClient c, ccs_namespace = [] \<rparr>"

definition NewForConfigAndClient ::
    "('lim, 'ser, 'rest, 'http, 'client, 'disc) RestLib \<Rightarrow> ('lim, 'ser, 'rest) config_store \<Rightarrow> nat \<Rightarrow> 'http \<Rightarrow>
     (go_error + ('client, 'disc) Clientset) \<times> ('lim, 'ser, 'rest) config_store" where
  "NewForConfigAndClient rl st c httpClient =
     (case shallow_copy st c of (a, st1) \<Rightarrow>
        if RateLimiter (st1 ! a) = None \<and> QPS (st1 ! a) > 0 \<and> Burst (st1 ! a) \<le> 0
        then (Inl (Errorf ''burst is required to be greater than 0 when RateLimiter is not set and QPS is set to greater than 0''), st1)
        else
          let st2 = (if RateLimiter (st1 ! a) = None \<and> QPS (st1 ! a) > 0
                     then st1[a := (st1 ! a)\<lparr>RateLimiter := Some (NewTokenBucketRateLimiter rl (QPS (st1 ! a)) (Burst (st1 ! a)))\<rparr>]
                     else st1)
          in case typed_NewForConfigAndClient rl st2 a httpClient of
               (Inl err, st3) \<Rightarrow> (Inl err, st3)
             | (Inr net, st3) \<Rightarrow>
                 (case NewDiscoveryClientForConfigAndClient rl (st3 ! a) httpClient of
                    Inl err \<Rightarrow> (Inl err, st3)
                  | Inr disc \<Rightarrow> (Inr \<lparr> DiscoveryClient = disc, networkingV1 = net \<rparr>, st3)))"

definition NewForConfig ::
    "('lim, 'ser, 'rest, 'http, 'client, 'disc) RestLib \<Rightarrow> ('lim, 'ser, 'rest) config_store \<Rightarrow> nat \<Rightarrow>
     (go_error + ('client, 'disc) Clientset) \<times> ('lim, 'ser, 'rest) config_store" where
  "NewForConfig rl st c =
     (case shallow_copy st c of (a, st1) \<Rightarrow>
        let st2 = (if UserAgent (st1 ! a) = [] then st1[a := (st1 ! a)\<lparr>UserAgent := DefaultKubernetesUserAgent rl\<rparr>] else st1)
        in case HTTPClientFor rl (st2 ! a) of
             Inl err \<Rightarrow> (Inl err, st2)
           | Inr httpClient \<Rightarrow> NewForConfigAndClient rl st2 a httpClient)"

definition NewForConfigOrDie ::
    "('lim, 'ser, 'rest, 'http, 'client, 'disc) RestLib \<Rightarrow> ('lim, 'ser, 'rest) config_store \<Rightarrow> nat \<Rightarrow>
     ('client, 'disc) Clientset outcome \<times> ('lim, 'ser, 'rest) config_store" where
  "NewForConfigOrDie rl st c = or_die (NewForConfig rl st c)"

definition clientset_New :: "('lim, 'ser, 'rest, 'http, 'client, 'disc) RestLib \<Rightarrow> 'client \<Rightarrow> ('client, 'disc) Clientset" where
  "clientset_New rl c = \<lparr> DiscoveryClient = NewDiscoveryClient rl c, networkingV1 = typed_New c \<rparr>"

section \<open>What the constructors guarantee\<close>

text \<open>Every constructor only appends to the store: the configurations its caller can reach stay as they are.\<close>

definition extends :: "'a list \<Rightarrow> 'a list \<Rightarrow> bool" where
  "extends st st' \<longleftrightarrow> take (length st) st' = st"

lemma extends_refl [simp]: "extends st st"
  by (simp add: extends_def)

lemma extends_trans: "extends st st1 \<Longrightarrow> extends st1 st2 \<Longrightarrow> extends st st2"
  unfolding extends_def by (metis min.absorb1 take_take length_take min.cobounded1 min_def)

lemma extends_nth: "extends st st' \<Longrightarrow> a < length st \<Longrightarrow> st' ! a = st ! a"
  unfolding extends_def by (metis nth_take)

lemma extends_append [simp]: "extends st (st @ [x])" "extends st ((st @ [x])[length st := y])"
  by (simp_all add: extends_def)

text \<open>The constructors without a store, on values.\<close>

definition with_agent :: "('lim, 'ser, 'rest, 'http, 'client, 'disc) RestLib \<Rightarrow> ('lim, 'ser, 'rest) rest_Config \<Rightarrow> ('lim, 'ser, 'rest) rest_Config" where
  "with_agent rl cfg = (if UserAgent cfg = [] then cfg\<lparr>UserAgent := DefaultKubernetesUserAgent rl\<rparr> else cfg)"

definition with_limiter :: "('lim, 'ser, 'rest, 'http, 'client, 'disc) RestLib \<Rightarrow> ('lim, 'ser, 'rest) rest_Config \<Rightarrow> ('lim, 'ser, 'rest) rest_Config" where
  "with_limiter rl cfg =
     (if RateLimiter cfg = None \<and> QPS cfg > 0 then cfg\<lparr>RateLimiter := Some (NewTokenBucketRateLimiter rl (QPS cfg) (Burst cfg))\<rparr> else cfg)"

definition for_group :: "('lim, 'ser, 'rest, 'http, 'client, 'disc) RestLib \<Rightarrow> ('lim, 'ser, 'rest) rest_Config \<Rightarrow> ('lim, 'ser, 'rest) rest_Config" where
  "for_group rl cfg = with_agent rl (cfg\<lparr> cfg_GroupVersion := Some SchemeGroupVersion, APIPath := ''/apis'',
     NegotiatedSerializer := Some (GeneratedSerializer rl) \<rparr>)"

definition bad_burst :: "('lim, 'ser, 'rest) rest_Config \<Rightarrow> bool" where
  "bad_burst cfg \<longleftrightarrow> RateLimiter cfg = None \<and> QPS cfg > 0 \<and> Burst cfg \<le> 0"

lemma or_die_panics: "fst (or_die x) = Panic \<longleftrightarrow> isl (fst x)"
  by (cases x; cases "fst x") (auto simp: or_die_def)

lemma typed_client:
  assumes "c < length st"
  shows "typed_NewForConfigAndClient rl st c h =
    (map_sum id (\<lambda>cl. \<lparr>restClient = cl\<rparr>) (RESTClientForConfigAndClient rl (for_group rl (st ! c)) h), st @ [for_group rl (st ! c)])"
  using assms
  by (simp add: typed_NewForConfigAndClient_def shallow_copy_def setConfigDefaults_def for_group_def with_agent_def nth_append Let_def
      split: sum.split)

lemma clientset_client:
  assumes "c < length st"
  shows "NewForConfigAndClient rl st c h =
    (if bad_burst (st ! c)
     then (Inl (Errorf ''burst is required to be greater than 0 when RateLimiter is not set and QPS is set to greater than 0''), st @ [st ! c])
     else ((case RESTClientForConfigAndClient rl (for_group rl (with_limiter rl (st ! c))) h of
              Inl e \<Rightarrow> Inl e
            | Inr cl \<Rightarrow> (case NewDiscoveryClientForConfigAndClient rl (with_limiter rl (st ! c)) h of
                           Inl e \<Rightarrow> Inl e
                         | Inr d \<Rightarrow> Inr \<lparr>DiscoveryClient = d, networkingV1 = \<lparr>restClient = cl\<rparr>\<rparr>)),
           st @ [with_limiter rl (st ! c), for_group rl (with_limiter rl (st ! c))]))"
proof -
  have t: "typed_NewForConfigAndClient rl (st @ [cfg]) (length st) h =
    (map_sum id (\<lambda>cl. \<lparr>restClient = cl\<rparr>) (RESTClientForConfigAndClient rl (for_group rl cfg) h), st @ [cfg, for_group rl cfg])" for cfg
    using typed_client [of "length st" "st @ [cfg]" rl h] by simp
  show ?thesis using assms
    by (auto simp: NewForConfigAndClient_def shallow_copy_def with_limiter_def bad_burst_def t nth_append split: sum.split)
qed

text \<open>C28. \<open>NewForConfig\<close> changes no configuration its caller can reach, and is the constructor on values: the
  REST client of the group is made for the configuration with the user agent, the rate limiter, the group
  version, the path and the serializer filled in, the discovery client for the one without the group's
  settings; it fails where the HTTP, REST or discovery client fails, and when a positive \<open>QPS\<close> comes without
  rate limiter and without burst. The \<open>OrDie\<close> variant panics in exactly these cases.\<close>

theorem clientset_config:
  assumes "c < length st"
  shows "extends st (snd (NewForConfig rl st c)) \<and>
    fst (NewForConfig rl st c) =
      (let cfg = with_agent rl (st ! c) in
       case HTTPClientFor rl cfg of
         Inl e \<Rightarrow> Inl e
       | Inr h \<Rightarrow>
           if bad_burst cfg
           then Inl (Errorf ''burst is required to be greater than 0 when RateLimiter is not set and QPS is set to greater than 0'')
           else case RESTClientForConfigAndClient rl (for_group rl (with_limiter rl cfg)) h of
                  Inl e \<Rightarrow> Inl e
                | Inr cl \<Rightarrow> (case NewDiscoveryClientForConfigAndClient rl (with_limiter rl cfg) h of
                               Inl e \<Rightarrow> Inl e
                             | Inr d \<Rightarrow> Inr \<lparr>DiscoveryClient = d, networkingV1 = \<lparr>restClient = cl\<rparr>\<rparr>)) \<and>
    (fst (NewForConfigOrDie rl st c) = Panic \<longleftrightarrow> isl (fst (NewForConfig rl st c)))"
proof -
  let ?cfg = "with_agent rl (st ! c)"
  have n: "NewForConfig rl st c = (case HTTPClientFor rl ?cfg of Inl e \<Rightarrow> (Inl e, st @ [?cfg])
    | Inr h \<Rightarrow> NewForConfigAndClient rl (st @ [?cfg]) (length st) h)"
    using assms by (simp add: NewForConfig_def shallow_copy_def with_agent_def nth_append Let_def split: sum.split)
  note k = clientset_client [of "length st" "st @ [?cfg]" rl]
  show ?thesis
    by (auto simp: n k NewForConfigOrDie_def or_die_panics extends_def Let_def split: sum.split)
qed

definition demo_rest :: "(int \<times> int, string, unit, string, string, string) RestLib" where
  "demo_rest = \<lparr> DefaultKubernetesUserAgent = ''agent'', HTTPClientFor = (\<lambda>cfg. Inr ''http''), NewTokenBucketRateLimiter = Pair,
     GeneratedSerializer = ''codec'', RESTClientForConfigAndClient = (\<lambda>cfg h. Inr (h @ APIPath cfg @ UserAgent cfg)),
     NewDiscoveryClientForConfigAndClient = (\<lambda>cfg h. Inr (h @ APIPath cfg)), NewDiscoveryClient = (\<lambda>c. c) \<rparr>"

definition demo_config :: "int \<Rightarrow> (int \<times> int, string, unit) rest_Config" where
  "demo_config burst = \<lparr> UserAgent = [], RateLimiter = None, QPS = 5, Burst = burst, cfg_GroupVersion = None, APIPath = [],
     NegotiatedSerializer = None, cfg_rest = () \<rparr>"

theorem clientset_config_witness:
  "fst (NewForConfig demo_rest [demo_config 10] 0) =
     Inr \<lparr>DiscoveryClient = ''http'', networkingV1 = \<lparr>restClient = ''http/apisagent''\<rparr>\<rparr> \<and>
   snd (NewForConfig demo_rest [demo_config 10] 0) ! 0 = demo_config 10 \<and>
   fst (NewForConfigOrDie demo_rest [demo_config 0] 0) = Panic"
proof -
  note a = clientset_config [of 0 "[demo_config 10]" demo_rest] and b = clientset_config [of 0 "[demo_config 0]" demo_rest]
  note defs = demo_rest_def demo_config_def with_agent_def bad_burst_def with_limiter_def for_group_def Let_def
  have "snd (NewForConfig demo_rest [demo_config 10] 0) ! 0 = demo_config 10"
    using a extends_nth [of "[demo_config 10]" "snd (NewForConfig demo_rest [demo_config 10] 0)" 0] by simp
  moreover have "fst (NewForConfig demo_rest [demo_config 10] 0) =
      Inr \<lparr>DiscoveryClient = ''http'', networkingV1 = \<lparr>restClient = ''http/apisagent''\<rparr>\<rparr>"
    using a [THEN conjunct2, THEN conjunct1] by (simp add: defs)
  moreover have "isl (fst (NewForConfig demo_rest [demo_config 0] 0))"
    using b [THEN conjunct2, THEN conjunct1] by (simp add: defs)
  ultimately show ?thesis using b by simp
qed

end
