(* ===== verification/Program.thy ===== *)
theory Program
  imports RunLoop ClientSet
begin

text \<open>\<open>main.go\<close> and \<open>pkg/leaderelection/leaderelection.go\<close>: from the command line to the running controller. What
  the flag parser, the environment, the client constructors and the leader election of client-go answer is a
  parameter; the program is the sequence of what it does with these answers, up to the end of the process.
  A callback of the leader election is taken as one step, at the moment the election makes it.\<close>

record Config =
  EnableLeaderElection :: bool
  LeaderElectionID :: string
  LeaderElectionNamespace :: string
  LeaseDuration :: int
  RenewDeadline :: int
  RetryPeriod :: int
  ResourceLock :: string
  ResourceName :: string

record config =
  ApiServerURL :: string
  Kubeconfig :: string
  HealthProbeAddr :: string
  WebserverBindAddr :: string
  LeaderElectionCfg :: Config

text \<open>The result of the flag parser, and of \<open>config.load\<close>: a configuration, an error of the flag parser (which may be the request for
  help), or another error.\<close>

datatype load_result = Loaded config | FlagsError bool | LoadError go_error

text \<open>The callbacks \<open>RunOrDie\<close> makes, in order; there are none when it refuses the configuration.\<close>

datatype leader_event = OnStartedLeading | OnStoppedLeading | OnNewLeader string

record LeaderElectionConfig =
  lec_Identity :: string
  lec_Namespace :: string
  lec_LockType :: string
  lec_LockName :: string
  lec_LeaseDuration :: int
  lec_RenewDeadline :: int
  lec_RetryPeriod :: int
  lec_ReleaseOnCancel :: bool

record ('lim, 'ser, 'rest, 'http, 'client, 'disc) Environment =
  os_Getenv :: "string \<Rightarrow> string"
  GetHostname :: "string \<Rightarrow> go_error + string"
  flags_ParseArgs :: "config \<Rightarrow> load_result"
  logs_ValidateAndApply :: "go_error option"
  BuildConfigFromFlags :: "string \<Rightarrow> string \<Rightarrow> go_error + ('lim, 'ser, 'rest) rest_Config"
  kubernetes_NewForConfig :: "('lim, 'ser, 'rest) rest_Config \<Rightarrow> go_error option"
  rest_lib :: "('lim, 'ser, 'rest, 'http, 'client, 'disc) RestLib"
  nodes_List :: "go_error + Node list"
  resourcelock_New :: "LeaderElectionConfig \<Rightarrow> go_error option"
  leaderelection_events :: "LeaderElectionConfig \<Rightarrow> leader_event list"

type_synonym ('client, 'disc) factory = "(('client, 'disc) Clientset, unit, unit) sharedInformerFactory"

datatype ('client, 'disc) action =
    StartWebServer string
  | RunOrDie LeaderElectionConfig
  | InformersStart "('client, 'disc) factory"
  | ControllerRun allocator
  | Cancel
  | Exit int
  | Crash

text \<open>Nothing follows the exit or the crash of the process.\<close>

fun until_exit :: "('client, 'disc) action list \<Rightarrow> ('client, 'disc) action list" where
  "until_exit [] = []"
| "until_exit (Exit n # _) = [Exit n]"
| "until_exit (Crash # _) = [Crash]"
| "until_exit (a # as) = a # until_exit as"

definition lockID :: "('lim, 'ser, 'rest, 'http, 'client, 'disc) Environment \<Rightarrow> string \<Rightarrow> string option" where
  "lockID env leaderElectionID =
     (if length leaderElectionID > 0 then Some leaderElectionID
      else (case GetHostname env (os_Getenv env ''POD_NAME'') of Inl _ \<Rightarrow> None | Inr hostname \<Rightarrow> Some hostname))"

definition lockNamespace :: "('lim, 'ser, 'rest, 'http, 'client, 'disc) Environment \<Rightarrow> string \<Rightarrow> string option" where
  "lockNamespace env leaderElectionNamespace =
     (if length leaderElectionNamespace > 0 then Some leaderElectionNamespace
      else let ns = os_Getenv env ''POD_NAMESPACE'' in if ns = [] then None else Some ns)"

text \<open>\<open>klog.Fatalf\<close> ends the process with status 255.\<close>

definition election_config :: "Config \<Rightarrow> string \<Rightarrow> string \<Rightarrow> LeaderElectionConfig" where
  "election_config cfg ident namespace =
     \<lparr> lec_Identity = ident, lec_Namespace = namespace, lec_LockType = ResourceLock cfg, lec_LockName = ResourceName cfg,
       lec_LeaseDuration = LeaseDuration cfg, lec_RenewDeadline = RenewDeadline cfg, lec_RetryPeriod = RetryPeriod cfg,
       lec_ReleaseOnCancel = True \<rparr>"

primrec on_event :: "('client, 'disc) action list \<Rightarrow> leader_event \<Rightarrow> ('client, 'disc) action list" where
  "on_event runFunc OnStartedLeading = runFunc"
| "on_event runFunc OnStoppedLeading = [Cancel]"
| "on_event runFunc (OnNewLeader identity) = []"

definition StartLeaderElection :: "('lim, 'ser, 'rest, 'http, 'client, 'disc) Environment \<Rightarrow> Config \<Rightarrow> ('client, 'disc) action list \<Rightarrow> ('client, 'disc) action list" where
  "StartLeaderElection env cfg runFunc =
     (case lockID env (LeaderElectionID cfg) of
        None \<Rightarrow> [Exit 255]
      | Some ident \<Rightarrow>
          (case lockNamespace env (LeaderElectionNamespace cfg) of
             None \<Rightarrow> [Exit 255]
           | Some namespace \<Rightarrow>
               let lec = election_config cfg ident namespace
               in case resourcelock_New env lec of
                    Some _ \<Rightarrow> [Exit 255]
                  | None \<Rightarrow> RunOrDie lec # until_exit (concat (map (on_event runFunc) (leaderelection_events env lec)))))"

definition no_params :: CIDRAllocatorParams where
  "no_params = \<lparr> param_ClusterCIDRs = [], param_ServiceCIDR = None, param_SecondaryServiceCIDR = None, param_NodeCIDRMaskSizes = [] \<rparr>"

text \<open>\<open>NewMultiCIDRRangeAllocator\<close> asks the ClusterCIDR informer it is given for its lister, for its \<open>HasSynced\<close> and for
  its event handlers, which registers the informer with the factory. \<open>defaultResync\<close> is 30 seconds.\<close>

definition register_informers ::
    "'o clusterCIDRInformer \<Rightarrow> ('c, 'o, 't) sharedInformerFactory \<Rightarrow> ('c, 'o, 't) sharedInformerFactory" where
  "register_informers cci f = snd (cci_Informer cci (snd (cci_Informer cci (snd (cci_Lister cci f)))))"

definition main_defaultResync :: int where
  "main_defaultResync = 30 * 10 ^ 9"

definition started_factory :: "('client, 'disc) Clientset \<Rightarrow> ('client, 'disc) factory" where
  "started_factory cidrClient =
     (let factory = NewSharedInformerFactory cidrClient main_defaultResync
      in Start [ClusterCIDR_type] 0 (register_informers (version_ClusterCIDRs (group_V1 (Networking factory))) factory))"

definition runControllers ::
    "NetUtils \<Rightarrow> ('sel, 'req) LabelsLib \<Rightarrow> Api \<Rightarrow> ('lim, 'ser, 'rest, 'http, 'client, 'disc) Environment \<Rightarrow>
     ('lim, 'ser, 'rest) rest_Config \<Rightarrow> ('client, 'disc) action list" where
  "runControllers nu lib api env cfg =
     (case fst (NewForConfig (rest_lib env) [cfg] 0) of
        Inl _ \<Rightarrow> [Exit 1]
      | Inr cidrClient \<Rightarrow>
          (case nodes_List env of
             Inl _ \<Rightarrow> [Exit 1]
           | Inr nodes \<Rightarrow>
               (case NewMultiCIDRRangeAllocator nu lib api no_params (Some nodes) ([], []) of
                  Fail _ \<Rightarrow> [Exit 1]
                | Panic \<Rightarrow> [Crash]
                | Ret r \<Rightarrow> [InformersStart (started_factory cidrClient), ControllerRun r])))"

definition bindingAddress :: "config \<Rightarrow> string" where
  "bindingAddress cfg = (if HealthProbeAddr cfg \<noteq> [] then HealthProbeAddr cfg else WebserverBindAddr cfg)"

definition load :: "('lim, 'ser, 'rest, 'http, 'client, 'disc) Environment \<Rightarrow> config \<Rightarrow> load_result" where
  "load env c = flags_ParseArgs env c"

definition initial_config :: config where
  "initial_config =
     \<lparr> ApiServerURL = [], Kubeconfig = [], HealthProbeAddr = [], WebserverBindAddr = [],
       LeaderElectionCfg = \<lparr> EnableLeaderElection = True, LeaderElectionID = [], LeaderElectionNamespace = [], LeaseDuration = 0,
         RenewDeadline = 0, RetryPeriod = 0, ResourceLock = [], ResourceName = [] \<rparr> \<rparr>"

definition main_program :: "NetUtils \<Rightarrow> ('sel, 'req) LabelsLib \<Rightarrow> Api \<Rightarrow> ('lim, 'ser, 'rest, 'http, 'client, 'disc) Environment \<Rightarrow> ('client, 'disc) action list" where
  "main_program nu lib api env =
     (case load env initial_config of
        FlagsError help \<Rightarrow> [Exit (if help then 0 else 1)]
      | LoadError _ \<Rightarrow> [Exit 1]
      | Loaded nodeIpamCfg \<Rightarrow>
          (case logs_ValidateAndApply env of
             Some _ \<Rightarrow> [Exit 1]
           | None \<Rightarrow>
               StartWebServer (bindingAddress nodeIpamCfg) #
               (case BuildConfigFromFlags env (ApiServerURL nodeIpamCfg) (Kubeconfig nodeIpamCfg) of
                  Inl _ \<Rightarrow> [Exit 1]
                | Inr kubeClientCfg \<Rightarrow>
                    (case kubernetes_NewForConfig env kubeClientCfg of
                       Some _ \<Rightarrow> [Exit 1]
                     | None \<Rightarrow>
                         if EnableLeaderElection (LeaderElectionCfg nodeIpamCfg)
                         then StartLeaderElection env (LeaderElectionCfg nodeIpamCfg) (runControllers nu lib api env kubeClientCfg)
                         else runControllers nu lib api env kubeClientCfg))))"

text \<open>The answers under which the controller gets an allocator, and under which the election lets it start.\<close>

definition allocator_built ::
    "NetUtils \<Rightarrow> ('sel, 'req) LabelsLib \<Rightarrow> Api \<Rightarrow> ('lim, 'ser, 'rest, 'http, 'client, 'disc) Environment \<Rightarrow>
     ('lim, 'ser, 'rest) rest_Config \<Rightarrow> ('client, 'disc) Clientset \<Rightarrow> allocator \<Rightarrow> bool" where
  "allocator_built nu lib api env cfg cs r \<longleftrightarrow>
     fst (NewForConfig (rest_lib env) [cfg] 0) = Inr cs \<and>
     (\<exists>nodes. nodes_List env = Inr nodes \<and> NewMultiCIDRRangeAllocator nu lib api no_params (Some nodes) ([], []) = Ret r)"

definition elected :: "('lim, 'ser, 'rest, 'http, 'client, 'disc) Environment \<Rightarrow> Config \<Rightarrow> bool" where
  "elected env cfg \<longleftrightarrow>
     (\<exists>ident namespace. lockID env (LeaderElectionID cfg) = Some ident \<and>
        lockNamespace env (LeaderElectionNamespace cfg) = Some namespace \<and>
        resourcelock_New env (election_config cfg ident namespace) = None \<and>
        OnStartedLeading \<in> set (leaderelection_events env (election_config cfg ident namespace)))"

text \<open>The flag \<open>--leader-elect-id\<close> is the identity of the process in the election, not the name of the lock: replicas that
  are given the same value stand for election under one identity.\<close>

lemma configured_identity:
  assumes "LeaderElectionID cfg \<noteq> []"
  shows "lockID env (LeaderElectionID cfg) = lockID env' (LeaderElectionID cfg) \<and>
    lec_Identity (election_config cfg (LeaderElectionID cfg) namespace) = LeaderElectionID cfg \<and>
    lec_LockName (election_config cfg (LeaderElectionID cfg) namespace) = ResourceName cfg"
  using assms by (simp add: lockID_def election_config_def)

lemma until_exit_mem:
  "a \<in> set (until_exit as) \<Longrightarrow> a \<in> set as"
  by (induction as rule: until_exit.induct) auto

lemma until_exit_all:
  "(\<And>n. Exit n \<notin> set as) \<Longrightarrow> Crash \<notin> set as \<Longrightarrow> until_exit as = as"
  by (induction as rule: until_exit.induct) auto

lemma runControllers_run:
  assumes "ControllerRun r \<in> set (runControllers nu lib api env cfg)"
  shows "\<exists>cs. allocator_built nu lib api env cfg cs r"
  using assms by (auto simp: runControllers_def allocator_built_def split: sum.splits outcome.splits)

lemma runControllers_started:
  "allocator_built nu lib api env cfg cs r \<Longrightarrow>
     runControllers nu lib api env cfg = [InformersStart (started_factory cs), ControllerRun r]"
  by (auto simp: runControllers_def allocator_built_def)

lemma on_event_mem:
  assumes "a \<in> set (on_event runFunc ev)" "a \<noteq> Cancel"
  shows "ev = OnStartedLeading \<and> a \<in> set runFunc"
  using assms by (cases ev) auto

lemma election_run:
  assumes "ControllerRun r \<in> set (StartLeaderElection env cfg runFunc)"
  shows "elected env cfg \<and> ControllerRun r \<in> set runFunc"
proof -
  obtain ident namespace where l: "lockID env (LeaderElectionID cfg) = Some ident"
    "lockNamespace env (LeaderElectionNamespace cfg) = Some namespace"
    "resourcelock_New env (election_config cfg ident namespace) = None"
    using assms by (auto simp: StartLeaderElection_def Let_def split: option.splits)
  then have "ControllerRun r \<in> set (until_exit (concat (map (on_event runFunc) (leaderelection_events env (election_config cfg ident namespace)))))"
    using assms by (simp add: StartLeaderElection_def Let_def)
  from until_exit_mem [OF this] obtain ev where "ev \<in> set (leaderelection_events env (election_config cfg ident namespace))"
    "ControllerRun r \<in> set (on_event runFunc ev)" by auto
  with on_event_mem [OF this(2)] l show ?thesis by (auto simp: elected_def)
qed

lemma elected_run:
  assumes "elected env cfg" "runFunc = [InformersStart f, ControllerRun r]"
  shows "\<exists>xs ys. StartLeaderElection env cfg runFunc = xs @ InformersStart f # ControllerRun r # ys"
proof -
  from assms(1) obtain ident namespace where l: "lockID env (LeaderElectionID cfg) = Some ident"
    "lockNamespace env (LeaderElectionNamespace cfg) = Some namespace"
    "resourcelock_New env (election_config cfg ident namespace) = None"
    and e: "OnStartedLeading \<in> set (leaderelection_events env (election_config cfg ident namespace))"
    by (auto simp: elected_def)
  have d: "a \<in> {Cancel, InformersStart f, ControllerRun r}" if "a \<in> set (on_event runFunc ev)" for a ev
    using that assms(2) by (cases ev) auto
  define as where "as = concat (map (on_event runFunc) (leaderelection_events env (election_config cfg ident namespace)))"
  have "set as \<subseteq> {Cancel, InformersStart f, ControllerRun r}" using d by (auto simp: as_def)
  then have "until_exit as = as" by (intro until_exit_all) auto
  moreover obtain es1 es2 where "leaderelection_events env (election_config cfg ident namespace) = es1 @ OnStartedLeading # es2"
    using e by (meson split_list)
  ultimately have "StartLeaderElection env cfg runFunc =
      (RunOrDie (election_config cfg ident namespace) # concat (map (on_event runFunc) es1)) @
      InformersStart f # ControllerRun r # concat (map (on_event runFunc) es2)"
    using l assms(2) by (simp add: StartLeaderElection_def Let_def as_def)
  then show ?thesis by blast
qed

text \<open>The answers under which the program runs the controller.\<close>

definition program_runs ::
    "NetUtils \<Rightarrow> ('sel, 'req) LabelsLib \<Rightarrow> Api \<Rightarrow> ('lim, 'ser, 'rest, 'http, 'client, 'disc) Environment \<Rightarrow>
     ('client, 'disc) Clientset \<Rightarrow> allocator \<Rightarrow> bool" where
  "program_runs nu lib api env cs r \<longleftrightarrow>
     (\<exists>c cfg. load env initial_config = Loaded c \<and> logs_ValidateAndApply env = None \<and>
        BuildConfigFromFlags env (ApiServerURL c) (Kubeconfig c) = Inr cfg \<and> kubernetes_NewForConfig env cfg = None \<and>
        (EnableLeaderElection (LeaderElectionCfg c) \<longrightarrow> elected env (LeaderElectionCfg c)) \<and>
        allocator_built nu lib api env cfg cs r)"

lemma main_runs:
  assumes "ControllerRun r \<in> set (main_program nu lib api env)"
  shows "\<exists>cs. program_runs nu lib api env cs r"
  using assms unfolding program_runs_def
  by (auto simp: main_program_def dest!: election_run runControllers_run
      split: load_result.splits option.splits sum.splits if_splits)

lemma runs_main:
  assumes "program_runs nu lib api env cs r"
  shows "\<exists>xs ys. main_program nu lib api env = xs @ InformersStart (started_factory cs) # ControllerRun r # ys"
proof -
  from assms obtain c cfg where c: "load env initial_config = Loaded c" "logs_ValidateAndApply env = None"
    "BuildConfigFromFlags env (ApiServerURL c) (Kubeconfig c) = Inr cfg" "kubernetes_NewForConfig env cfg = None"
    "EnableLeaderElection (LeaderElectionCfg c) \<longrightarrow> elected env (LeaderElectionCfg c)" "allocator_built nu lib api env cfg cs r"
    unfolding program_runs_def by blast
  note run = runControllers_started [OF c(6)]
  show ?thesis
  proof (cases "EnableLeaderElection (LeaderElectionCfg c)")
    case True
    then obtain xs ys where "StartLeaderElection env (LeaderElectionCfg c) (runControllers nu lib api env cfg) =
        xs @ InformersStart (started_factory cs) # ControllerRun r # ys"
      using elected_run [OF _ run] c(5) by blast
    then have "main_program nu lib api env =
        (StartWebServer (bindingAddress c) # xs) @ InformersStart (started_factory cs) # ControllerRun r # ys"
      using c(1-4) True by (simp add: main_program_def)
    then show ?thesis by blast
  next
    case False
    then have "main_program nu lib api env =
        [StartWebServer (bindingAddress c)] @ InformersStart (started_factory cs) # ControllerRun r # []"
      using c(1-4) run by (simp add: main_program_def)
    then show ?thesis by blast
  qed
qed

lemma no_default_object: "createDefaultClusterCIDR nu no_params listed = Some listed"
  by (simp add: createDefaultClusterCIDR_def no_params_def)

lemma started_factory_fields:
  "informers (started_factory cs) = [ClusterCIDR_type \<mapsto> 0]"
  "running (started_factory cs) = [\<lparr>go_Type = ClusterCIDR_type, go_Informer = 0, go_Stop = 0\<rparr>]"
  "map inf_Resync (created (started_factory cs)) = [main_defaultResync]"
  by (simp_all add: started_factory_def register_informers_def cci_Informer_def cci_Lister_def InformerFor_def Start_def start_one_def
      NewSharedInformerFactory_def NewSharedInformerFactoryWithOptions_def defaultInformer_def NewFilteredClusterCIDRInformer_def
      is_started_def Let_def)

lemma program_system:
  assumes "program_runs nu lib api env cs r"
    "\<forall>listed. listClusterCIDRs api = Inr listed \<longrightarrow> (\<forall>ob \<in> set listed. spec_ok nu (obj_Spec ob))"
    "\<forall>nodes. nodes_List env = Inr nodes \<longrightarrow> (\<forall>node \<in> set nodes. pods_ok nu (node_PodCIDRs node))"
  shows "system nu lib r []"
proof -
  from assms(1) obtain nodes where n: "nodes_List env = Inr nodes"
    "NewMultiCIDRRangeAllocator nu lib api no_params (Some nodes) ([], []) = Ret r"
    by (auto simp: program_runs_def allocator_built_def)
  show ?thesis
    by (rule NewMultiCIDRRangeAllocator_system [OF n(2)])
      (use assms(2,3) n(1) in \<open>auto simp: no_default_object\<close>, simp_all add: no_params_def)
qed

end
