(* ===== verification/CrashFree.thy ===== *)
theory CrashFree
  imports Program Outcomes
begin

text \<open>When the program does not crash. The only panics of the handlers are accesses to the set of an address family that
  a ClusterCIDR does not configure. So let \<open>F\<close> be a set of families such that every ClusterCIDR has a range of each
  family of \<open>F\<close>, and every pod CIDR of a node is of a family of \<open>F\<close>; then neither start-up nor any event panics.\<close>

definition serves :: "family set \<Rightarrow> allocator \<Rightarrow> bool" where
  "serves F r \<longleftrightarrow> (\<forall>a < length (objs r). \<forall>f \<in> F. get_set f (objs r ! a) \<noteq> None)"

definition pods_within :: "NetUtils \<Rightarrow> family set \<Rightarrow> string list \<Rightarrow> bool" where
  "pods_within nu F pods \<longleftrightarrow> pods_ok nu pods \<and> (\<forall>n \<in> pod_nets nu pods. family_of n \<in> F)"

definition spec_serves :: "NetUtils \<Rightarrow> family set \<Rightarrow> ClusterCIDRSpec \<Rightarrow> bool" where
  "spec_serves nu F spec \<longleftrightarrow> spec_ok nu spec \<and> (V4 \<in> F \<longrightarrow> spec_IPv4 spec \<noteq> []) \<and> (V6 \<in> F \<longrightarrow> spec_IPv6 spec \<noteq> [])"

definition sound_state :: "family set \<Rightarrow> allocator \<Rightarrow> bool" where
  "sound_state F r \<longleftrightarrow> wf_alloc r \<and> serves F r"

lemma serves_shape:
  assumes "same_shape r r'" "serves F r"
  shows "serves F r'"
proof -
  have "get_set f (objs r' ! a) \<noteq> None" if a: "a < length (objs r')" and f: "f \<in> F" for a f
  proof -
    have l: "a < length (objs r)" using a assms(1) by (simp add: same_shape_def)
    then obtain s where "get_set f (objs r ! a) = Some s" using assms(2) f by (fastforce simp: serves_def)
    then show ?thesis using same_shape_set [OF assms(1) l] by fastforce
  qed
  then show ?thesis by (simp add: serves_def)
qed

lemma sound_shape: "wf_alloc r' \<Longrightarrow> same_shape r r' \<Longrightarrow> sound_state F r \<Longrightarrow> sound_state F r'"
  using serves_shape by (auto simp: sound_state_def)

lemma sound_kept: "kept r r' \<Longrightarrow> sound_state F r \<Longrightarrow> sound_state F r'"
  using sound_shape by (auto simp: kept_def)

lemma sound_emit [simp]: "sound_state F (emit e r) = sound_state F r"
  by (simp add: sound_state_def serves_def)

lemma sound_assoc:
  "sound_state F r \<Longrightarrow> sound_state F (upd_obj a (associate n) r)"
  "sound_state F r \<Longrightarrow> sound_state F (upd_obj a (dissociate n) r)"
  using assoc_wf wf_alloc_nth
  by (auto intro!: wf_alloc_upd simp: sound_state_def serves_def upd_obj_nth)

lemma pods_within_Cons:
  assumes "pods_within nu F (p # pods)"
  shows "pods_within nu F pods" "ParseCIDRSloppy nu p = Inr (ip, n) \<Longrightarrow> wf_net n \<and> family_of n \<in> F"
  using assms by (auto simp: pods_within_def pods_ok_def pod_nets_def)

section \<open>Occupying and releasing\<close>

lemma occupy_pods_no_panic:
  assumes "netutils_ok nu" "sound_state F r" "a < length (objs r)" "pods_within nu F pods" "occupy_pod_cidrs nu r a pods = (r', res)"
  shows "res \<noteq> Panic"
  using assms(2-)
proof (induction pods arbitrary: r)
  case (Cons p pods)
  show ?case
  proof (cases "ParseCIDRSloppy nu p")
    case (Inr x)
    obtain ip n where x: "x = (ip, n)" by force
    have n: "wf_net n" "family_of n \<in> F" using pods_within_Cons(2) [OF Cons.prems(3)] Inr x by auto
    obtain r1 o1 where o: "Occupy nu r a n = (r1, o1)" by force
    have w: "wf_alloc r" "get_set (family_of n) (objs r ! a) \<noteq> None"
      using Cons.prems(1,2) n(2) by (auto simp: sound_state_def serves_def)
    have k: "kept r r1" "o1 \<noteq> Panic" using Occupy_kept [OF assms(1) w(1) Cons.prems(2) n(1) o] w(2) by auto
    have s1: "sound_state F r1" "a < length (objs r1)" using sound_kept [OF k(1) Cons.prems(1)] keptD [OF k(1)] Cons.prems(2) by auto
    show ?thesis
      using Cons.IH [OF s1 pods_within_Cons(1) [OF Cons.prems(3)]] Cons.prems(4) Inr x o k(2) by (cases o1) auto
  qed (use Cons.prems in auto)
qed auto

lemma occupy_in_order_no_panic:
  assumes "netutils_ok nu" "sound_state F r" "set as \<subseteq> {..<length (objs r)}" "pods_within nu F (node_PodCIDRs node)"
    "occupy_in_order nu r node as = (r', res)"
  shows "res \<noteq> Panic"
  using assms(2-)
proof (induction as arbitrary: r)
  case (Cons a as)
  obtain r1 o1 where o: "occupy_pod_cidrs nu r a (node_PodCIDRs node) = (r1, o1)" by force
  have a: "a < length (objs r)" "set as \<subseteq> {..<length (objs r)}" using Cons.prems(2) by auto
  have p: "pods_ok nu (node_PodCIDRs node)" "wf_alloc r" using Cons.prems(1,3) by (simp_all add: pods_within_def sound_state_def)
  have k: "kept r r1" using occupy_pod_cidrs_kept [OF assms(1) p(2) a(1) p(1) o] by blast
  have np: "o1 \<noteq> Panic" by (rule occupy_pods_no_panic [OF assms(1) Cons.prems(1) a(1) Cons.prems(3) o])
  have s1: "sound_state F r1" "set as \<subseteq> {..<length (objs r1)}" using sound_kept [OF k Cons.prems(1)] keptD [OF k] a(2) by auto
  show ?case using Cons.IH [OF s1 Cons.prems(3)] Cons.prems(4) o np by (cases o1) (auto split: bool.splits)
qed auto

lemma ordered_no_panic: "wf_alloc r \<Longrightarrow> orderedMatchingClusterCIDRs lib r node occ \<noteq> Panic"
  using ordered_matching_spec [of r lib node occ] by auto

lemma matching_bound:
  assumes "wf_alloc r" "orderedMatchingClusterCIDRs lib r node occ = Ret l"
  shows "set l \<subseteq> {..<length (objs r)}"
  using ordered_matching_mapped [OF assms] mapped_bound [OF assms(1)] by blast

lemma occupyCIDRs_safe:
  assumes "netutils_ok nu" "sound_state F r" "pods_within nu F (node_PodCIDRs node)" "occupyCIDRs nu lib r node = (r', res)"
  shows "sound_state F r' \<and> res \<noteq> Panic"
proof
  have w: "wf_alloc r" "pods_ok nu (node_PodCIDRs node)" using assms(2,3) by (simp_all add: sound_state_def pods_within_def)
  show "sound_state F r'" using sound_kept occupyCIDRs_kept [OF assms(1) w assms(4)] assms(2) by blast
  show "res \<noteq> Panic"
    using assms(4) ordered_no_panic [OF w(1), of lib node True] matching_bound [OF w(1), of lib node True]
      occupy_in_order_no_panic [OF assms(1,2) _ assms(3)]
    by (auto simp: occupyCIDRs_def split: if_splits outcome.splits)
qed

lemma release_pods_no_panic:
  assumes "netutils_ok nu" "sound_state F r" "a < length (objs r)" "pods_within nu F pods" "release_pod_cidrs nu r a pods = (r', res)"
  shows "res \<noteq> Panic"
  using assms(2-)
proof (induction pods arbitrary: r)
  case (Cons p pods)
  show ?case
  proof (cases "ParseCIDRSloppy nu p")
    case (Inr x)
    obtain ip n where x: "x = (ip, n)" by force
    have n: "wf_net n" "family_of n \<in> F" using pods_within_Cons(2) [OF Cons.prems(3)] Inr x by auto
    obtain r1 o1 where o: "Release nu r a n = (r1, o1)" by force
    have w: "wf_alloc r" "get_set (family_of n) (objs r ! a) \<noteq> None"
      using Cons.prems(1,2) n(2) by (auto simp: sound_state_def serves_def)
    have k: "wf_alloc r1" "same_shape r r1" "o1 \<noteq> Panic"
      using Release_spares [OF assms(1) w(1) Cons.prems(2) n(1) o] w(2) by (auto simp: spares_def)
    have s1: "sound_state F r1" "a < length (objs r1)"
      using sound_shape [OF k(1,2) Cons.prems(1)] same_shape_mapped [OF k(2)] Cons.prems(2) by auto
    show ?thesis
      using Cons.IH [OF s1 pods_within_Cons(1) [OF Cons.prems(3)]] Cons.prems(4) Inr x o k(3) by (cases o1) auto
  qed (use Cons.prems in auto)
qed auto

lemma ReleaseCIDR_safe:
  assumes "netutils_ok nu" "sound_state F r" "\<forall>n \<in> set_option node. pods_within nu F (node_PodCIDRs n)"
    "ReleaseCIDR nu lib r node = (r', res)"
  shows "sound_state F r' \<and> res \<noteq> Panic"
proof (cases node)
  case (Some n)
  have w: "wf_alloc r" "pods_within nu F (node_PodCIDRs n)" "pods_ok nu (node_PodCIDRs n)"
    using assms(2,3) Some by (simp_all add: sound_state_def pods_within_def)
  have "sound_state F r'"
    using ReleaseCIDR_spec [OF assms(1) w(1,3) assms(4) [unfolded Some]] sound_shape [OF _ _ assms(2)] by blast
  moreover have "res \<noteq> Panic"
  proof (cases "allocatedClusterCIDR lib r n")
    case (Ret a)
    then obtain l where l: "orderedMatchingClusterCIDRs lib r n False = Ret l" "a \<in> set l"
      by (auto simp: allocatedClusterCIDR_def find_Some_iff split: outcome.splits option.splits)
    then have "a < length (objs r)" using matching_bound [OF w(1) l(1)] by blast
    from release_pods_no_panic [OF assms(1,2) this w(2)] show ?thesis
      using assms(4) Some Ret by (auto simp: ReleaseCIDR_def split: if_splits prod.splits outcome.splits)
  next
    case Panic
    then show ?thesis using ordered_no_panic [OF w(1), of lib n False]
      by (auto simp: allocatedClusterCIDR_def split: outcome.splits option.splits)
  qed (use assms(4) Some in \<open>auto simp: ReleaseCIDR_def split: if_splits\<close>)
  ultimately show ?thesis by blast
qed (use assms in \<open>auto simp: ReleaseCIDR_def\<close>)

section \<open>Allocating\<close>

lemma sound_data: "same_data r r' \<Longrightarrow> sound_state F r \<Longrightarrow> sound_state F r'"
  using same_dataD(1,5) [of r r'] serves_shape [of r r' F] by (simp add: sound_state_def)

lemma update_no_panic:
  assumes "netutils_ok nu" "wf_alloc r" "a < length (objs r)" "\<forall>c \<in> set cs. wf_net c \<and> c \<in> busy r a (family_of c)"
    "distinct (map family_of cs)" "updateCIDRsAllocation nu api r cs name a = (r', res)"
  shows "res \<noteq> Panic"
proof (cases "nodeLister_Get api name")
  case (Inr node)
  have rel: "\<exists>r2. release_cidrs nu r1 a cs = (r2, Ret ())" if "same_data r r1" for r1
    using release_cidrs_succeeds [OF assms(1), of r1 a cs] same_dataD [OF that] assms(2-5) by simp
  obtain r1 e where p: "patch_loop api r (node_Name node) (ipnetToStringList cs) cidrUpdateRetries 0 None = (r1, e)" by force
  have d: "same_data r r1" using patch_loop_state [OF p] by (simp add: same_data_def)
  have "\<exists>r2. release_cidrs nu (RecordNodeStatusChange node ''CIDRAssignmentFailed'' r1) a cs = (r2, Ret ())"
    by (rule rel) (simp add: RecordNodeStatusChange_def d)
  then show ?thesis using assms(6) Inr p rel [of r]
    by (auto simp: updateCIDRsAllocation_def Let_def split: if_splits option.splits)
qed (use assms(6) in \<open>auto simp: updateCIDRsAllocation_def\<close>)

lemma update_sound:
  assumes "netutils_ok nu" "sound_state F r" "a < length (objs r)" "\<forall>c \<in> set cs. wf_net c"
    "updateCIDRsAllocation nu api r cs name a = (r', res)"
  shows "sound_state F r'"
proof -
  have "wf_alloc r" using assms(2) by (simp add: sound_state_def)
  from update_spares [OF assms(1) this assms(3-5)] show ?thesis
  proof (elim disjE exE conjE)
    assume "spares r r' a (set cs)"
    then show ?thesis using sound_shape [OF _ _ assms(2)] by (simp add: spares_def)
  next
    fix node r1
    assume p: "patch_loop api r (node_Name node) (ipnetToStringList cs) cidrUpdateRetries 0 None = (r1, None)"
      and r': "r' = upd_obj a (associate (node_Name node)) r1"
    have "same_data r r1" using patch_loop_state [OF p] by (simp add: same_data_def)
    then show ?thesis using sound_data [OF _ assms(2)] sound_assoc(1) r' by blast
  qed
qed

lemma AllocateOrOccupyCIDR_safe:
  assumes "netutils_ok nu" "sound_state F r" "pods_within nu F (node_PodCIDRs node)"
    "AllocateOrOccupyCIDR nu lib api r (Some node) = (r', res)"
  shows "sound_state F r' \<and> res \<noteq> Panic"
proof (cases "node_PodCIDRs node = []")
  case True
  have w: "wf_alloc r" using assms(2) by (simp add: sound_state_def)
  obtain r1 o1 where p: "prioritizedCIDRs nu lib r node = (r1, o1)" by force
  note ps = prioritized_spec [OF assms(1) w p]
  have s1: "sound_state F r1" using ps sound_shape [OF _ _ assms(2)] by blast
  show ?thesis
  proof (cases o1)
    case (Ret x)
    obtain cs a where x: "x = (cs, a)" by force
    have fg: "a \<in> set (mapped r)" "fresh_grant r r1 cs a" using ps Ret x by auto
    have a: "a < length (objs r1)" using mapped_bound [OF w fg(1)] ps same_shape_mapped [of r r1] by simp
    have u: "updateCIDRsAllocation nu api r1 cs (node_Name node) a = (r', res)"
      using assms(4) True p Ret x fg(2) by (simp add: AllocateOrOccupyCIDR_def fresh_grant_def)
    have "res \<noteq> Panic"
      by (rule update_no_panic [OF assms(1) _ a _ _ u]) (use s1 fg(2) in \<open>auto simp: sound_state_def fresh_grant_def\<close>)
    moreover have "sound_state F r'"
      by (rule update_sound [OF assms(1) s1 a _ u]) (use fg(2) in \<open>simp add: fresh_grant_def\<close>)
    ultimately show ?thesis by blast
  next
    case (Fail e)
    then show ?thesis using assms(4) True p s1 by (auto simp: AllocateOrOccupyCIDR_def RecordNodeStatusChange_def)
  qed (use ps in simp)
next
  case False
  then show ?thesis using occupyCIDRs_safe [OF assms(1-3)] assms(4) by (simp add: AllocateOrOccupyCIDR_def)
qed

section \<open>ClusterCIDRs\<close>

lemma createClusterCIDRSet_serves:
  assumes "netutils_ok nu" "spec_serves nu F (obj_Spec obj)" "createClusterCIDRSet nu obj t = Ret c" "f \<in> F"
  shows "get_set f c \<noteq> None"
proof -
  have ok: "text_ok nu V4 (PerNodeHostBits (obj_Spec obj)) (spec_IPv4 (obj_Spec obj))"
    "text_ok nu V6 (PerNodeHostBits (obj_Spec obj)) (spec_IPv6 (obj_Spec obj))"
    using assms(2) by (simp_all add: spec_serves_def spec_ok_def)
  obtain s4 s6 where s: "make_cidr_set nu obj ''IPv4'' (spec_IPv4 (obj_Spec obj)) = Ret s4"
    "make_cidr_set nu obj ''IPv6'' (spec_IPv6 (obj_Spec obj)) = Ret s6" "IPv4CIDRSet c = s4" "IPv6CIDRSet c = s6"
    using assms(3) by (auto simp: createClusterCIDRSet_def split: outcome.splits)
  have "s4 = None \<Longrightarrow> spec_IPv4 (obj_Spec obj) = []" "s6 = None \<Longrightarrow> spec_IPv6 (obj_Spec obj) = []"
    using make_cidr_set_spec(2) [OF assms(1) ok(1) s(1)] make_cidr_set_spec(2) [OF assms(1) ok(2) s(2)] by auto
  then show ?thesis using assms(2,4) s(3,4) by (cases f) (auto simp: spec_serves_def)
qed

lemma createClusterCIDR_safe:
  assumes "netutils_ok nu" "sound_state F r" "spec_serves nu F (obj_Spec obj)" "createClusterCIDR nu lib api r obj t = (r', res)"
  shows "sound_state F r' \<and> res \<noteq> Panic"
proof -
  have ok: "wf_alloc r" "spec_ok nu (obj_Spec obj)" using assms(2,3) by (simp_all add: sound_state_def spec_serves_def)
  note cs = createClusterCIDR_spec [OF assms(1) ok assms(4)]
  have "objs r' = objs r \<or> (\<exists>c. createClusterCIDRSet nu obj t = Ret c \<and> objs r' = objs r @ [c])"
    using assms(4) by (auto simp: createClusterCIDR_def mapClusterCIDRSet_def Let_def split: sum.splits outcome.splits if_splits option.splits)
  then have "serves F r'"
  proof (elim disjE exE conjE)
    fix c assume c: "createClusterCIDRSet nu obj t = Ret c" "objs r' = objs r @ [c]"
    have "\<forall>f \<in> F. get_set f c \<noteq> None" using createClusterCIDRSet_serves [OF assms(1,3) c(1)] by blast
    then show ?thesis using assms(2) c(2) by (auto simp: sound_state_def serves_def nth_append less_Suc_eq)
  qed (use assms(2) in \<open>simp add: sound_state_def serves_def\<close>)
  then show ?thesis using cs by (simp add: sound_state_def)
qed

lemma get_set_terminating [simp]: "get_set f (c\<lparr>Terminating := b\<rparr>) = get_set f c"
  by (cases f) simp_all

lemma deleteClusterCIDR_safe:
  assumes "sound_state F r" "deleteClusterCIDR lib r obj = (r', res)"
  shows "sound_state F r' \<and> res \<noteq> Panic"
proof -
  have w: "wf_alloc r" using assms(1) by (simp add: sound_state_def)
  have "objs r' = objs r \<or> (\<exists>a. objs r' = objs (upd_obj a (\<lambda>c. c\<lparr>Terminating := True\<rparr>) r))"
    using assms(2) by (auto simp: deleteClusterCIDR_def Let_def split: sum.splits option.splits if_splits)
  then have "serves F r'"
    using assms(1) by (auto simp: sound_state_def serves_def upd_obj_nth)
  moreover have "res \<noteq> Panic"
    using assms(2) by (auto simp: deleteClusterCIDR_def Let_def split: sum.splits option.splits if_splits)
  ultimately show ?thesis using deleteClusterCIDR_spec [OF w assms(2)] by (simp add: sound_state_def)
qed

lemma reconcileDelete_safe:
  assumes "sound_state F r" "reconcileDelete lib api r obj = (r', res)"
  shows "sound_state F r' \<and> res \<noteq> Panic"
  using assms deleteClusterCIDR_safe [OF assms(1), of lib obj]
  by (auto simp: reconcileDelete_def Let_def split: if_splits prod.splits outcome.splits option.splits)

section \<open>Start-up and events\<close>

lemma bootstrap_safe:
  assumes "netutils_ok nu" "sound_state F r" "\<forall>ob \<in> set items. spec_serves nu F (obj_Spec ob)"
    "bootstrap_loop nu lib api r items = (r', res)"
  shows "sound_state F r' \<and> res \<noteq> Panic"
  using assms(2-)
proof (induction items arbitrary: r)
  case (Cons ob items)
  obtain r1 o1 where b: "reconcileBootstrap nu lib api r ob = (r1, o1)" by force
  have s: "sound_state F r1" "o1 \<noteq> Panic"
    using createClusterCIDR_safe [OF assms(1) Cons.prems(1) _ b [unfolded reconcileBootstrap_def]] Cons.prems(2) by simp_all
  have e: "sound_state F (emit ev r1)" for ev using s(1) by simp
  show ?case using Cons.IH [OF s(1)] Cons.IH [OF e] Cons.prems(2,3) b s(2) by (cases o1) auto
qed auto

lemma occupy_nodes_safe:
  assumes "netutils_ok nu" "sound_state F r" "\<forall>node \<in> set nodes. pods_within nu F (node_PodCIDRs node)"
    "occupy_nodes nu lib r nodes = (r', res)"
  shows "sound_state F r' \<and> res \<noteq> Panic"
  using assms(2-)
proof (induction nodes arbitrary: r)
  case (Cons node nodes)
  obtain r1 o1 where b: "occupyCIDRs nu lib r node = (r1, o1)" by force
  have s: "sound_state F r1" "o1 \<noteq> Panic" using occupyCIDRs_safe [OF assms(1) Cons.prems(1) _ b] Cons.prems(2) by auto
  show ?case using Cons.IH Cons.prems b s by (cases "node_PodCIDRs node = []"; cases o1) auto
qed auto

lemma start_up_safe:
  assumes "netutils_ok nu" "\<forall>listed. listClusterCIDRs api = Inr listed \<longrightarrow> (\<forall>ob \<in> set listed. spec_serves nu F (obj_Spec ob))"
    "\<forall>node \<in> set nodes. pods_within nu F (node_PodCIDRs node)"
  shows "case NewMultiCIDRRangeAllocator nu lib api no_params (Some nodes) ([], []) of
    Panic \<Rightarrow> False | Fail e \<Rightarrow> True | Ret r \<Rightarrow> sound_state F r"
proof (cases "listClusterCIDRs api")
  case (Inr listed)
  have s0: "sound_state F empty_allocator" by (simp add: sound_state_def serves_def empty_allocator_def wf_alloc_def mapped_def)
  obtain r1 o1 where b: "bootstrap_loop nu lib api empty_allocator listed = (r1, o1)" by force
  have s1: "sound_state F r1" "o1 \<noteq> Panic" using bootstrap_safe [OF assms(1) s0 _ b] assms(2) Inr by auto
  obtain r2 o2 where n: "occupy_nodes nu lib r1 nodes = (r2, o2)" by force
  have s2: "sound_state F r2" "o2 \<noteq> Panic" using occupy_nodes_safe [OF assms(1) s1(1) assms(3) n] by auto
  have "param_ServiceCIDR no_params = None" "param_SecondaryServiceCIDR no_params = None" by (simp_all add: no_params_def)
  then show ?thesis using Inr b n s1 s2
    by (cases o1; cases o2) (auto simp: NewMultiCIDRRangeAllocator_def no_default_object filter_service_def empty_allocator_def [symmetric])
qed (simp add: NewMultiCIDRRangeAllocator_def)

fun event_within :: "NetUtils \<Rightarrow> family set \<Rightarrow> run_event \<Rightarrow> bool" where
  "event_within nu F (CIDRWorker i api key shutdown) =
     (case clusterCIDRLister_Get api key of Inl _ \<Rightarrow> True | Inr ob \<Rightarrow> spec_serves nu F (obj_Spec ob))"
| "event_within nu F (NodeWorker i api key shutdown) =
     (case nodeLister_Get api key of Inl _ \<Rightarrow> True | Inr node \<Rightarrow> pods_within nu F (node_PodCIDRs node))"
| "event_within nu F (NodeDeleted obj) =
     (case deleted_node obj of None \<Rightarrow> True | Some node \<Rightarrow> pods_within nu F (node_PodCIDRs node))"
| "event_within nu F _ = True"

fun run_events :: "NetUtils \<Rightarrow> ('sel, 'req) LabelsLib \<Rightarrow> run_event list \<Rightarrow> run_state \<Rightarrow> run_state option" where
  "run_events nu lib [] s = Some s"
| "run_events nu lib (e # es) s = (case run_step nu lib e s of None \<Rightarrow> None | Some s' \<Rightarrow> run_events nu lib es s')"

lemma finish_safe:
  assumes "sound_state F r" "o1 \<noteq> Panic" "finish_item q key (r, o1) = (r', res)"
  shows "sound_state F r' \<and> res = Ret True"
  using assms by (cases o1) (auto simp: finish_item_def)

lemma node_item_safe:
  assumes "netutils_ok nu" "sound_state F r" "event_within nu F (NodeWorker i api key shutdown)"
    "processNextNodeWorkItem nu lib api r (key, shutdown) = (r', res)"
  shows "sound_state F r' \<and> (\<exists>b. res = Ret b)"
proof (cases shutdown)
  case False
  obtain r1 o1 where s: "syncNode nu lib api r key = (r1, o1)" by force
  have "sound_state F r1 \<and> o1 \<noteq> Panic"
  proof (cases "nodeLister_Get api key")
    case (Inr node)
    then have p: "pods_within nu F (node_PodCIDRs node)" using assms(3) by simp
    show ?thesis using s Inr ReleaseCIDR_safe [OF assms(1,2), of "Some node" lib r1 o1] p
        AllocateOrOccupyCIDR_safe [OF assms(1,2) p, of lib api r1 o1]
      by (auto simp: syncNode_def split: if_splits)
  qed (use assms(2) s in \<open>auto simp: syncNode_def split: if_splits\<close>)
  then show ?thesis using finish_safe [of F r1 o1 nodeQueue key r' res] assms(4) s False by (auto simp: processNextNodeWorkItem_def)
qed (use assms in \<open>auto simp: processNextNodeWorkItem_def\<close>)

lemma cidr_item_safe:
  assumes "netutils_ok nu" "sound_state F r" "event_within nu F (CIDRWorker i api key shutdown)"
    "processNextCIDRWorkItem nu lib api r (key, shutdown) = (r', res)"
  shows "sound_state F r' \<and> (\<exists>b. res = Ret b)"
proof (cases shutdown)
  case False
  obtain r1 o1 where s: "syncClusterCIDR nu lib api r key = (r1, o1)" by force
  have "sound_state F r1 \<and> o1 \<noteq> Panic"
  proof (cases "clusterCIDRLister_Get api key")
    case (Inr ob)
    then have p: "spec_serves nu F (obj_Spec ob)" using assms(3) by simp
    show ?thesis using s Inr reconcileDelete_safe [OF assms(2), of lib api ob r1 o1] createClusterCIDR_safe [OF assms(1,2) p, of lib api _ r1 o1]
      by (auto simp: syncClusterCIDR_def reconcileCreate_def split: if_splits)
  qed (use assms(2) s in \<open>auto simp: syncClusterCIDR_def split: if_splits\<close>)
  then show ?thesis using finish_safe [of F r1 o1 cidrQueue key r' res] assms(4) s False by (auto simp: processNextCIDRWorkItem_def)
qed (use assms in \<open>auto simp: processNextCIDRWorkItem_def\<close>)

lemma node_deleted_safe:
  assumes "netutils_ok nu" "sound_state F r" "event_within nu F (NodeDeleted obj)" "handleNodeDelete nu lib r obj = (r', res)"
  shows "sound_state F r' \<and> res \<noteq> Panic"
proof -
  obtain r1 o1 where s: "ReleaseCIDR nu lib r (deleted_node obj) = (r1, o1)" by force
  have "sound_state F r1 \<and> o1 \<noteq> Panic"
    by (rule ReleaseCIDR_safe [OF assms(1,2) _ s]) (use assms(3) in \<open>auto split: option.splits\<close>)
  then show ?thesis using assms(2,4) s
    by (cases obj; cases o1) (auto simp: handleNodeDelete_def)
qed

lemma event_safe:
  assumes "netutils_ok nu" "sound_state F (rn_alloc s)" "rn_phase s \<noteq> Crashed" "event_within nu F e" "run_step nu lib e s = Some s'"
  shows "sound_state F (rn_alloc s') \<and> rn_phase s' \<noteq> Crashed"
proof (cases e)
  case (CIDRWorker i api key shutdown)
  obtain r res where p: "processNextCIDRWorkItem nu lib api (rn_alloc s) (key, shutdown) = (r, res)" by force
  note c = cidr_item_safe [OF assms(1,2) assms(4) [unfolded CIDRWorker] p]
  then show ?thesis using CIDRWorker assms(3,5) p by (auto split: if_splits bool.splits)
next
  case (NodeWorker i api key shutdown)
  obtain r res where p: "processNextNodeWorkItem nu lib api (rn_alloc s) (key, shutdown) = (r, res)" by force
  note c = node_item_safe [OF assms(1,2) assms(4) [unfolded NodeWorker] p]
  then show ?thesis using NodeWorker assms(3,5) p by (auto split: if_splits bool.splits)
next
  case (NodeDeleted obj)
  obtain r res where p: "handleNodeDelete nu lib (rn_alloc s) obj = (r, res)" by force
  note c = node_deleted_safe [OF assms(1,2) assms(4) [unfolded NodeDeleted] p]
  then show ?thesis using NodeDeleted assms(3,5) p by (auto split: if_splits outcome.splits)
qed (use assms in \<open>auto simp: onClusterCIDRAdd_def onClusterCIDRUpdate_def onClusterCIDRDelete_def onNodeAdd_def onNodeUpdate_def
      split: if_splits option.splits\<close>)

lemma events_safe:
  assumes "netutils_ok nu" "sound_state F (rn_alloc s)" "rn_phase s \<noteq> Crashed" "\<forall>e \<in> set es. event_within nu F e"
    "run_events nu lib es s = Some s'"
  shows "sound_state F (rn_alloc s') \<and> rn_phase s' \<noteq> Crashed"
  using assms(2-)
proof (induction es arbitrary: s)
  case (Cons e es)
  obtain s1 where s1: "run_step nu lib e s = Some s1" "run_events nu lib es s1 = Some s'" using Cons.prems(4) by (auto split: option.splits)
  show ?case using Cons.IH [OF _ _ _ s1(2)] event_safe [OF assms(1) Cons.prems(1,2) _ s1(1)] Cons.prems(3) by simp
qed simp

lemma main_no_crash:
  assumes "netutils_ok nu" "\<forall>listed. listClusterCIDRs api = Inr listed \<longrightarrow> (\<forall>ob \<in> set listed. spec_serves nu F (obj_Spec ob))"
    "\<forall>nodes. nodes_List env = Inr nodes \<longrightarrow> (\<forall>node \<in> set nodes. pods_within nu F (node_PodCIDRs node))"
  shows "Crash \<notin> set (main_program nu lib api env)"
proof -
  have rc: "Crash \<notin> set (runControllers nu lib api env cfg)" for cfg
  proof (cases "nodes_List env")
    case (Inr nodes)
    then show ?thesis using start_up_safe [OF assms(1,2), of nodes lib] assms(3)
      by (auto simp: runControllers_def split: sum.splits outcome.splits)
  qed (auto simp: runControllers_def split: sum.splits)
  have oe: "Crash \<notin> set (on_event (runControllers nu lib api env cfg) ev)" for cfg ev using rc by (cases ev) auto
  have ue: "Crash \<notin> set (until_exit (concat (map (on_event (runControllers nu lib api env cfg)) evs)))" for cfg evs
    using oe until_exit_mem by fastforce
  have "Crash \<notin> set (StartLeaderElection env c (runControllers nu lib api env cfg))" for c cfg
    using ue by (simp add: StartLeaderElection_def Let_def split: option.split)
  then show ?thesis using rc
    by (simp add: main_program_def split: load_result.split option.split sum.split)
qed

end
