(* ===== verification/Signals.thy ===== *)
theory Signals
  imports MultiCIDRSet
begin

text \<open>\<open>pkg/signals\<close>: the handler of the shutdown signals. The first signal cancels the context of the program, the
  second ends the process. Signals go through a channel of capacity 2; \<open>signal.Notify\<close> does not block, a signal
  that finds the channel full is dropped. The handler is a goroutine with two receives.\<close>

datatype os_signal = Interrupt | SIGTERM | OtherSignal nat

datatype goos = Posix | Windows

definition posix_shutdownSignals :: "os_signal list" where
  "posix_shutdownSignals = [Interrupt, SIGTERM]"

definition windows_shutdownSignals :: "os_signal list" where
  "windows_shutdownSignals = [Interrupt]"

definition shutdownSignals :: "goos \<Rightarrow> os_signal list" where
  "shutdownSignals goos = (case goos of Posix \<Rightarrow> posix_shutdownSignals | Windows \<Rightarrow> windows_shutdownSignals)"

datatype handler_pc = FirstReceive | SecondReceive | HandlerEnded

record signal_state =
  onlyOneSignalHandler_closed :: bool
  sig_chan :: "os_signal list"
  sig_pc :: "handler_pc option"
  sig_ctx_done :: bool
  exit_code :: "int option"

definition process_begin :: signal_state where
  "process_begin = \<lparr> onlyOneSignalHandler_closed = False, sig_chan = [], sig_pc = None, sig_ctx_done = False, exit_code = None \<rparr>"

text \<open>Closing the closed channel \<open>onlyOneSignalHandler\<close> panics.\<close>

definition SetupSignalHandler :: "signal_state \<Rightarrow> signal_state outcome" where
  "SetupSignalHandler s =
     (if onlyOneSignalHandler_closed s then Panic
      else Ret (s\<lparr> onlyOneSignalHandler_closed := True, sig_chan := [], sig_pc := Some FirstReceive, sig_ctx_done := False \<rparr>))"

definition deliver :: "goos \<Rightarrow> os_signal \<Rightarrow> signal_state \<Rightarrow> signal_state" where
  "deliver goos sig s =
     (if sig_pc s \<noteq> None \<and> sig \<in> set (shutdownSignals goos) \<and> length (sig_chan s) < 2
      then s\<lparr>sig_chan := sig_chan s @ [sig]\<rparr> else s)"

text \<open>One receive of the handler; \<open>None\<close> when it is blocked.\<close>

definition handler_step :: "signal_state \<Rightarrow> signal_state option" where
  "handler_step s =
     (case (sig_pc s, sig_chan s) of
        (Some FirstReceive, _ # rest) \<Rightarrow> Some (s\<lparr>sig_chan := rest, sig_pc := Some SecondReceive, sig_ctx_done := True\<rparr>)
      | (Some SecondReceive, _ # rest) \<Rightarrow> Some (s\<lparr>sig_chan := rest, sig_pc := Some HandlerEnded, exit_code := Some 1\<rparr>)
      | _ \<Rightarrow> None)"

text \<open>A process with its handler set up, after \<open>n\<close> shutdown signals.\<close>

inductive handling :: "goos \<Rightarrow> nat \<Rightarrow> signal_state \<Rightarrow> bool" for goos :: goos where
  handler_set_up: "SetupSignalHandler process_begin = Ret s \<Longrightarrow> handling goos 0 s"
| signal_arrives: "handling goos n s \<Longrightarrow> exit_code s = None \<Longrightarrow>
    handling goos (if sig \<in> set (shutdownSignals goos) then Suc n else n) (deliver goos sig s)"
| signal_received: "handling goos n s \<Longrightarrow> handler_step s = Some s' \<Longrightarrow> handling goos n s'"

definition received :: "signal_state \<Rightarrow> nat" where
  "received s = (case sig_pc s of Some FirstReceive \<Rightarrow> 0 | Some SecondReceive \<Rightarrow> 1 | _ \<Rightarrow> 2)"

definition signals_ok :: "nat \<Rightarrow> signal_state \<Rightarrow> bool" where
  "signals_ok n s \<longleftrightarrow> sig_pc s \<noteq> None \<and> onlyOneSignalHandler_closed s \<and>
     received s + length (sig_chan s) \<le> n \<and> min n 2 \<le> received s + length (sig_chan s) \<and>
     (sig_ctx_done s \<longleftrightarrow> received s \<ge> 1) \<and> exit_code s = (if received s = 2 then Some 1 else None)"

lemma handling_ok: "handling goos n s \<Longrightarrow> signals_ok n s"
proof (induction rule: handling.induct)
  case (signal_received n s s')
  then show ?case
    by (auto simp: signals_ok_def handler_step_def received_def split: option.splits handler_pc.splits list.splits)
qed (auto simp: signals_ok_def received_def SetupSignalHandler_def process_begin_def deliver_def split: option.splits handler_pc.splits)

lemma handler_blocked:
  assumes "handling goos n s" "handler_step s = None"
  shows "received s = 2 \<or> sig_chan s = []"
  using assms(2) handling_ok [OF assms(1)]
  by (auto simp: signals_ok_def handler_step_def received_def split: option.splits handler_pc.splits list.splits)

lemma signal_cancels:
  assumes "handling goos n s" "1 \<le> n" "handler_step s = None"
  shows "sig_ctx_done s"
  using handler_blocked [OF assms(1,3)] handling_ok [OF assms(1)] assms(2) by (auto simp: signals_ok_def)

text \<open>C27. Whatever signals arrive and whenever the handler runs: the context is cancelled only by a
  shutdown signal, the process is ended, with status 1, only by a second one, and after the context was
  cancelled; no such signal is lost: when the handler has nothing left to receive, one signal has cancelled the
  context and two have ended the process. A second set-up of the handler panics.\<close>

theorem shutdown_signals:
  assumes "handling goos n s"
  shows "(sig_ctx_done s \<longrightarrow> 1 \<le> n) \<and> (exit_code s \<noteq> None \<longrightarrow> 2 \<le> n \<and> exit_code s = Some 1 \<and> sig_ctx_done s) \<and>
    (handler_step s = None \<longrightarrow> (1 \<le> n \<longrightarrow> sig_ctx_done s) \<and> (2 \<le> n \<longrightarrow> exit_code s = Some 1)) \<and>
    SetupSignalHandler s = Panic"
proof -
  note ok = handling_ok [OF assms, unfolded signals_ok_def]
  have "received s = 2 \<or> sig_chan s = []" if "handler_step s = None" using handler_blocked [OF assms that] .
  moreover have "received s \<le> 2" by (simp add: received_def split: option.split handler_pc.split)
  ultimately show ?thesis using ok by (auto simp: SetupSignalHandler_def split: if_splits)
qed

definition demo_handler :: signal_state where
  "demo_handler = \<lparr> onlyOneSignalHandler_closed = True, sig_chan = [], sig_pc = Some HandlerEnded, sig_ctx_done = True, exit_code = Some 1 \<rparr>"

lemma demo_handling: "handling Posix 2 demo_handler"
proof -
  let ?s0 = "\<lparr> onlyOneSignalHandler_closed = True, sig_chan = [], sig_pc = Some FirstReceive, sig_ctx_done = False, exit_code = None \<rparr>"
  have "handling Posix 0 ?s0" by (rule handling.handler_set_up) (simp add: SetupSignalHandler_def process_begin_def)
  from handling.signal_arrives [OF this, of SIGTERM] have "handling Posix 1 (?s0\<lparr>sig_chan := [SIGTERM]\<rparr>)"
    by (simp add: deliver_def shutdownSignals_def posix_shutdownSignals_def)
  from handling.signal_arrives [OF this, of Interrupt] have "handling Posix 2 (?s0\<lparr>sig_chan := [SIGTERM, Interrupt]\<rparr>)"
    by (simp add: deliver_def shutdownSignals_def posix_shutdownSignals_def numeral_2_eq_2)
  from handling.signal_received [OF this] have "handling Posix 2 (?s0\<lparr>sig_chan := [Interrupt], sig_pc := Some SecondReceive, sig_ctx_done := True\<rparr>)"
    by (simp add: handler_step_def)
  from handling.signal_received [OF this] show ?thesis by (simp add: handler_step_def demo_handler_def)
qed

theorem shutdown_signals_witness:
  "handler_step demo_handler = None \<and> exit_code demo_handler = Some 1 \<and> SetupSignalHandler demo_handler = Panic"
  using shutdown_signals [OF demo_handling] by (simp add: demo_handler_def handler_step_def)

end
