(* ===== verification/WebServer.thy ===== *)
theory WebServer
  imports MultiCIDRSet
begin

text \<open>\<open>pkg/util/server/server.go\<close>: the web server for probes and metrics. The multiplexer of \<open>net/http\<close> is a list of
  patterns with their handlers; the patterns used here match a path exactly. The goroutines of \<open>StartWebServer\<close> are
  steps on a state: one calls \<open>ListenAndServe\<close> again and again (\<open>wait.Until\<close> may call it whenever it is idle, and may
  stop once the context is done), the other waits for the end of the context and calls \<open>Shutdown\<close>. Of \<open>http.Server\<close> the
  state has the flag \<open>inShutdown\<close>: when it is set no listener is accepted any more and \<open>ListenAndServe\<close> returns
  \<open>ErrServerClosed\<close>. The handler of Prometheus is a parameter.\<close>

definition defaultTimeout :: int where
  "defaultTimeout = 5 * 10 ^ 9"

record http_Response =
  resp_Status :: nat
  resp_Body :: string
  req_BodyClosed :: bool

type_synonym Handler = "string \<Rightarrow> http_Response"

type_synonym ServeMux = "(string \<times> Handler) list"

definition StatusOK :: nat where "StatusOK = 200"
definition StatusNotFound :: nat where "StatusNotFound = 404"

definition makeHealthHandler :: Handler where
  "makeHealthHandler r = \<lparr> resp_Status = StatusOK, resp_Body = [], req_BodyClosed = True \<rparr>"

text \<open>Registering a pattern twice panics.\<close>

definition mux_Handle :: "string \<Rightarrow> Handler \<Rightarrow> ServeMux \<Rightarrow> ServeMux outcome" where
  "mux_Handle pattern h m = (if map_of m pattern = None then Ret (m @ [(pattern, h)]) else Panic)"

definition ServeHTTP :: "ServeMux \<Rightarrow> string \<Rightarrow> string \<Rightarrow> http_Response" where
  "ServeHTTP m path body =
     (case map_of m path of
        Some h \<Rightarrow> h body
      | None \<Rightarrow> \<lparr> resp_Status = StatusNotFound, resp_Body = ''404 page not found'', req_BodyClosed = False \<rparr>)"

record http_Server =
  srv_Addr :: string
  srv_Handler :: ServeMux
  srv_ReadTimeout :: int
  srv_WriteTimeout :: int
  srv_IdleTimeout :: int

definition web_mux :: "Handler \<Rightarrow> ServeMux outcome" where
  "web_mux promhttp_Handler =
     (case mux_Handle ''/readyz'' makeHealthHandler [] of
        Ret m1 \<Rightarrow>
          (case mux_Handle ''/healthz'' makeHealthHandler m1 of
             Ret m2 \<Rightarrow> mux_Handle ''/metrics'' promhttp_Handler m2
           | e \<Rightarrow> e)
      | e \<Rightarrow> e)"

definition web_server :: "Handler \<Rightarrow> string \<Rightarrow> http_Server outcome" where
  "web_server promhttp_Handler addr =
     (case web_mux promhttp_Handler of
        Ret mux \<Rightarrow> Ret \<lparr> srv_Addr = addr, srv_Handler = mux, srv_ReadTimeout = defaultTimeout,
                          srv_WriteTimeout = defaultTimeout, srv_IdleTimeout = defaultTimeout \<rparr>
      | Fail e \<Rightarrow> Fail e
      | Panic \<Rightarrow> Panic)"

section \<open>The goroutines\<close>

datatype serve_pc = Idle | Serving | ServeEnded

datatype stop_pc = AwaitingDone | InShutdown | StopEnded

datatype serve_error = ErrServerClosed | ServeErr string

record web_state =
  web_srv :: http_Server
  web_serve :: serve_pc
  web_stop :: stop_pc
  web_ctx_done :: bool
  web_inShutdown :: bool
  web_errors :: "serve_error list"
  web_answers :: "http_Response list"

datatype web_event =
    ContextDone
  | UntilCalls "string option"
  | ServeFails string
  | ServeClosed
  | UntilStops
  | StopWakes
  | ShutdownReturns bool
  | Request string string

definition StartWebServer_begin :: "Handler \<Rightarrow> string \<Rightarrow> web_state outcome" where
  "StartWebServer_begin promhttp_Handler addr =
     (case web_server promhttp_Handler addr of
        Ret srv \<Rightarrow> Ret \<lparr> web_srv = srv, web_serve = Idle, web_stop = AwaitingDone, web_ctx_done = False, web_inShutdown = False,
                         web_errors = [], web_answers = [] \<rparr>
      | Fail e \<Rightarrow> Fail e
      | Panic \<Rightarrow> Panic)"

text \<open>The function that \<open>wait.Until\<close> calls reports the error of \<open>ListenAndServe\<close> unless it is \<open>ErrServerClosed\<close>.\<close>

definition report_serve_error :: "serve_error \<Rightarrow> web_state \<Rightarrow> web_state" where
  "report_serve_error err s = (if err = ErrServerClosed then s else s\<lparr>web_errors := web_errors s @ [err]\<rparr>)"

fun web_step :: "web_event \<Rightarrow> web_state \<Rightarrow> web_state option" where
  "web_step ContextDone s = Some (s\<lparr>web_ctx_done := True\<rparr>)"
| "web_step (UntilCalls listenErr) s =
     (if web_serve s \<noteq> Idle then None
      else if web_inShutdown s then Some (report_serve_error ErrServerClosed s)
      else case listenErr of
             Some e \<Rightarrow> Some (report_serve_error (ServeErr e) s)
           | None \<Rightarrow> Some (s\<lparr>web_serve := Serving\<rparr>))"
| "web_step (ServeFails e) s =
     (if web_serve s = Serving \<and> \<not> web_inShutdown s
      then Some (report_serve_error (ServeErr e) (s\<lparr>web_serve := Idle\<rparr>)) else None)"
| "web_step ServeClosed s =
     (if web_serve s = Serving \<and> web_inShutdown s
      then Some (report_serve_error ErrServerClosed (s\<lparr>web_serve := Idle\<rparr>)) else None)"
| "web_step UntilStops s = (if web_serve s = Idle \<and> web_ctx_done s then Some (s\<lparr>web_serve := ServeEnded\<rparr>) else None)"
| "web_step StopWakes s =
     (if web_stop s = AwaitingDone \<and> web_ctx_done s then Some (s\<lparr>web_stop := InShutdown, web_inShutdown := True\<rparr>) else None)"
| "web_step (ShutdownReturns ok) s = (if web_stop s = InShutdown then Some (s\<lparr>web_stop := StopEnded\<rparr>) else None)"
| "web_step (Request path body) s =
     (if web_serve s = Serving \<and> \<not> web_inShutdown s
      then Some (s\<lparr>web_answers := web_answers s @ [ServeHTTP (srv_Handler (web_srv s)) path body]\<rparr>) else None)"

fun web_run :: "web_event list \<Rightarrow> web_state \<Rightarrow> web_state option" where
  "web_run [] s = Some s"
| "web_run (e # es) s = (case web_step e s of None \<Rightarrow> None | Some s' \<Rightarrow> web_run es s')"

inductive web_reach :: "Handler \<Rightarrow> string \<Rightarrow> web_state \<Rightarrow> bool" for promhttp_Handler addr where
  web_started: "StartWebServer_begin promhttp_Handler addr = Ret s \<Longrightarrow> web_reach promhttp_Handler addr s"
| web_stepped: "web_reach promhttp_Handler addr s \<Longrightarrow> web_step e s = Some s' \<Longrightarrow> web_reach promhttp_Handler addr s'"

section \<open>What the server answers, and when it stops\<close>

lemma web_mux_routes:
  "web_mux p = Ret [(''/readyz'', makeHealthHandler), (''/healthz'', makeHealthHandler), (''/metrics'', p)]"
  by (simp add: web_mux_def mux_Handle_def)

lemmas web_begin_simps = StartWebServer_begin_def web_server_def web_mux_routes

definition web_ok :: "Handler \<Rightarrow> string \<Rightarrow> web_state \<Rightarrow> bool" where
  "web_ok p addr s \<longleftrightarrow>
     web_server p addr = Ret (web_srv s) \<and>
     (web_serve s = ServeEnded \<longrightarrow> web_ctx_done s) \<and> (web_inShutdown s \<longrightarrow> web_ctx_done s) \<and>
     (web_inShutdown s \<longleftrightarrow> web_stop s \<noteq> AwaitingDone) \<and> ErrServerClosed \<notin> set (web_errors s)"

lemma web_step_ok: "web_ok p addr s \<Longrightarrow> web_step e s = Some s' \<Longrightarrow> web_ok p addr s'"
  by (cases e) (auto simp: web_ok_def report_serve_error_def split: if_splits option.splits)

lemma web_reach_ok: "web_reach p addr s \<Longrightarrow> web_ok p addr s"
proof (induction rule: web_reach.induct)
  case (web_stepped s e s')
  then show ?case using web_step_ok by blast
qed (auto simp: web_begin_simps web_ok_def)

lemma web_step_answers:
  "web_step e s = Some s' \<Longrightarrow> web_inShutdown s \<Longrightarrow> web_inShutdown s' \<and> web_answers s' = web_answers s \<and>
     (web_serve s \<noteq> Serving \<longrightarrow> web_serve s' \<noteq> Serving)"
  by (cases e) (auto simp: report_serve_error_def split: if_splits option.splits)

lemma web_run_answers:
  "web_run es s = Some s' \<Longrightarrow> web_inShutdown s \<Longrightarrow> web_answers s' = web_answers s \<and>
     (web_serve s \<noteq> Serving \<longrightarrow> web_serve s' \<noteq> Serving)"
  by (induction es s rule: web_run.induct) (auto split: option.splits dest!: web_step_answers)

lemma web_stop_run:
  assumes "web_ok p addr s" "web_ctx_done s"
  shows "\<exists>es s'. length es \<le> 4 \<and> web_run es s = Some s' \<and> web_serve s' = ServeEnded \<and> web_stop s' = StopEnded"
proof -
  define stop where "stop = (case web_stop s of AwaitingDone \<Rightarrow> [StopWakes, ShutdownReturns True] | InShutdown \<Rightarrow> [ShutdownReturns True] | StopEnded \<Rightarrow> [])"
  define serve where "serve = (case web_serve s of Idle \<Rightarrow> [UntilStops] | Serving \<Rightarrow> [ServeClosed, UntilStops] | ServeEnded \<Rightarrow> [])"
  have "length (stop @ serve) \<le> 4" by (simp add: stop_def serve_def split: stop_pc.split serve_pc.split)
  moreover have "\<exists>s'. web_run (stop @ serve) s = Some s' \<and> web_serve s' = ServeEnded \<and> web_stop s' = StopEnded"
    using assms by (auto simp: web_ok_def stop_def serve_def report_serve_error_def split: stop_pc.splits serve_pc.splits)
  ultimately show ?thesis by blast
qed



end
