(* ===== verification/Shutdown.thy ===== *)
theory Shutdown
  imports CrashFree Signals WebServer Demo
begin

text \<open>Shutdown across components: a signal cancels the context of the program; \<open>Run\<close> then shuts the queues down, and its
  workers, the web server and its goroutines end.\<close>

definition end_workers :: "(nat \<Rightarrow> run_event) \<Rightarrow> bool list \<Rightarrow> run_event list" where
  "end_workers ev workers = map ev (filter (\<lambda>i. workers ! i) [0..<length workers])"

lemma run_events_append:
  "run_events nu lib (es @ fs) s = (case run_events nu lib es s of None \<Rightarrow> None | Some s' \<Rightarrow> run_events nu lib fs s')"
  by (induction es arbitrary: s) (auto split: option.splits)

lemma clear_nth: "j < length ws \<Longrightarrow> fold (\<lambda>i ws. ws[i := False]) is ws ! j = (ws ! j \<and> j \<notin> set is)"
proof (induction "is" arbitrary: ws)
  case (Cons i "is")
  have "ws[i := False] ! j = (ws ! j \<and> j \<noteq> i)" using Cons.prems by (cases "i = j") simp_all
  then show ?case using Cons.IH [of "ws[i := False]"] Cons.prems by auto
qed simp

lemma length_clear [simp]: "length (fold (\<lambda>i ws. ws[i := False]) is ws) = length ws"
  by (induction "is" arbitrary: ws) auto

lemma clear_all: "list_all Not (fold (\<lambda>i ws. ws[i := False]) (filter (\<lambda>i. ws ! i) [0..<length ws]) ws)"
  by (simp add: list_all_length clear_nth)

lemma end_node_workers:
  assumes "rn_phase s = Draining" "distinct is" "\<forall>i \<in> set is. i < length (node_workers s) \<and> node_workers s ! i"
  shows "run_events nu lib (map (\<lambda>i. NodeWorker i api key True) is) s =
    Some (s\<lparr>node_workers := fold (\<lambda>i ws. ws[i := False]) is (node_workers s)\<rparr>)"
  using assms
proof (induction "is" arbitrary: s)
  case (Cons i "is")
  let ?s = "s\<lparr>node_workers := (node_workers s)[i := False]\<rparr>"
  have "run_step nu lib (NodeWorker i api key True) s = Some ?s"
    using Cons.prems by (simp add: may_get_def processNextNodeWorkItem_def)
  moreover have "\<forall>j \<in> set is. j < length (node_workers ?s) \<and> node_workers ?s ! j"
    using Cons.prems(2,3) by (auto simp: nth_list_update)
  ultimately show ?case using Cons.IH [of ?s] Cons.prems by simp
qed simp

lemma end_cidr_workers:
  assumes "rn_phase s = Draining" "distinct is" "\<forall>i \<in> set is. i < length (cidr_workers s) \<and> cidr_workers s ! i"
  shows "run_events nu lib (map (\<lambda>i. CIDRWorker i api key True) is) s =
    Some (s\<lparr>cidr_workers := fold (\<lambda>i ws. ws[i := False]) is (cidr_workers s)\<rparr>)"
  using assms
proof (induction "is" arbitrary: s)
  case (Cons i "is")
  let ?s = "s\<lparr>cidr_workers := (cidr_workers s)[i := False]\<rparr>"
  have "run_step nu lib (CIDRWorker i api key True) s = Some ?s"
    using Cons.prems by (simp add: may_get_def processNextCIDRWorkItem_def)
  moreover have "\<forall>j \<in> set is. j < length (cidr_workers ?s) \<and> cidr_workers ?s ! j"
    using Cons.prems(2,3) by (auto simp: nth_list_update)
  ultimately show ?case using Cons.IH [of ?s] Cons.prems by simp
qed simp

lemma drained_ends:
  assumes "rn_phase s = Draining"
  shows "\<exists>s'. run_events nu lib (end_workers (\<lambda>i. CIDRWorker i api key True) (cidr_workers s) @
      end_workers (\<lambda>i. NodeWorker i api key True) (node_workers s)) s = Some s' \<and>
    list_all Not (cidr_workers s') \<and> list_all Not (node_workers s') \<and> rn_alloc s' = rn_alloc s \<and> rn_phase s' = Draining"
proof -
  let ?s1 = "s\<lparr>cidr_workers := fold (\<lambda>i ws. ws[i := False]) (filter (\<lambda>i. cidr_workers s ! i) [0..<length (cidr_workers s)]) (cidr_workers s)\<rparr>"
  have "run_events nu lib (end_workers (\<lambda>i. CIDRWorker i api key True) (cidr_workers s)) s = Some ?s1"
    unfolding end_workers_def using assms by (intro end_cidr_workers) auto
  moreover have "run_events nu lib (end_workers (\<lambda>i. NodeWorker i api key True) (node_workers s)) ?s1 =
      Some (?s1\<lparr>node_workers := fold (\<lambda>i ws. ws[i := False]) (filter (\<lambda>i. node_workers s ! i) [0..<length (node_workers s)]) (node_workers ?s1)\<rparr>)"
    unfolding end_workers_def using assms by (intro end_node_workers) auto
  ultimately show ?thesis using assms by (simp add: run_events_append clear_all)
qed

lemma end_workers_length: "length (end_workers ev ws) \<le> length ws"
  by (simp add: end_workers_def length_filter_le [THEN le_trans])

lemma run_ends:
  assumes "rn_phase s \<noteq> Crashed" "rn_phase s = WaitingForCaches \<longrightarrow> cidr_workers s = [] \<and> node_workers s = []"
  shows "\<exists>es s'. length es \<le> 1 + length (cidr_workers s) + length (node_workers s) \<and> run_events nu lib es s = Some s' \<and>
    list_all Not (cidr_workers s') \<and> list_all Not (node_workers s') \<and> rn_alloc s' = rn_alloc s \<and> rn_phase s' = Draining"
proof -
  define first where "first = (case rn_phase s of WaitingForCaches \<Rightarrow> [CachesSynced False] | Working \<Rightarrow> [CtxDone] | _ \<Rightarrow> [])"
  let ?s = "s\<lparr>rn_phase := Draining\<rparr>"
  have f: "run_events nu lib first s = Some ?s" "length first \<le> 1"
    using assms(1) by (auto simp: first_def split: run_phase.splits)
  obtain api :: Api and key :: string where True by blast
  let ?es = "end_workers (\<lambda>i. CIDRWorker i api key True) (cidr_workers s) @ end_workers (\<lambda>i. NodeWorker i api key True) (node_workers s)"
  obtain s' where s': "run_events nu lib ?es ?s = Some s'" "list_all Not (cidr_workers s')" "list_all Not (node_workers s')"
    "rn_alloc s' = rn_alloc s" "rn_phase s' = Draining"
    using drained_ends [of ?s nu lib api key] by auto
  moreover have "length (first @ ?es) \<le> 1 + length (cidr_workers s) + length (node_workers s)"
    using f(2) end_workers_length [of "\<lambda>i. CIDRWorker i api key True" "cidr_workers s"]
      end_workers_length [of "\<lambda>i. NodeWorker i api key True" "node_workers s"] by simp
  ultimately show ?thesis using f(1)
    by (intro exI [of _ "first @ ?es"] exI [of _ s']) (simp add: run_events_append)
qed



end
