(* ===== verification/DeepCopy.thy ===== *)
theory DeepCopy
  imports Prelude
begin

text \<open>\<open>zz_generated.deepcopy.go\<close>: deep copies of the API objects. The controller copies an object before it edits its
  finalizers, since the original is shared with the informer cache; the point of a copy is that it shares no
  memory with the original. Memory is therefore explicit: a heap of cells with a next free address. The
  structs of apimachinery and of the core API (\<open>ObjectMeta\<close>, \<open>ListMeta\<close>, \<open>NodeSelector\<close>) and their own copies are the
  parameter \<open>CopyLib\<close>: what a value denotes, which cells it reaches, and its \<open>DeepCopyInto\<close>.\<close>

record spec_struct =
  ptr_NodeSelector :: "nat option"
  ptr_PerNodeHostBits :: int
  ptr_IPv4 :: string
  ptr_IPv6 :: string

record 'm object_struct =
  st_TypeMeta :: string
  st_ObjectMeta :: 'm
  st_Spec :: spec_struct

record 'l list_struct =
  li_TypeMeta :: string
  li_ListMeta :: 'l
  li_Items :: "nat option"

datatype ('m, 'l, 's, 'x) cell =
    FreeCell
  | SelectorCell 's
  | SpecCell spec_struct
  | ObjectCell "'m object_struct"
  | ItemsCell "'m object_struct list"
  | ListCell "'l list_struct"
  | LibCell 'x

record 'c heap =
  cells :: "nat \<Rightarrow> 'c"
  lim :: nat

definition new_cell :: "'c \<Rightarrow> 'c heap \<Rightarrow> nat \<times> 'c heap" where
  "new_cell v h = (lim h, h\<lparr>cells := (cells h)(lim h := v), lim := Suc (lim h)\<rparr>)"

definition set_cell :: "nat \<Rightarrow> 'c \<Rightarrow> 'c heap \<Rightarrow> 'c heap" where
  "set_cell a v h = h\<lparr>cells := (cells h)(a := v)\<rparr>"

text \<open>What \<open>DeepCopyInto\<close> promises of a type: the copy denotes the same value, old cells keep their contents, and the
  copy reaches new cells only.\<close>

definition agree :: "nat set \<Rightarrow> 'c heap \<Rightarrow> 'c heap \<Rightarrow> bool" where
  "agree A h h' \<longleftrightarrow> (\<forall>a \<in> A. cells h' a = cells h a)"

locale deep_copier =
  fixes reach :: "'c heap \<Rightarrow> 'a \<Rightarrow> nat set"
    and val :: "'c heap \<Rightarrow> 'a \<Rightarrow> 'v"
    and copy :: "'c heap \<Rightarrow> 'a \<Rightarrow> 'a \<times> 'c heap"
  assumes local_reach: "agree (reach h x) h h' \<Longrightarrow> reach h' x = reach h x"
    and local_val: "agree (reach h x) h h' \<Longrightarrow> val h' x = val h x"
    and copy_val: "reach h x \<subseteq> {..<lim h} \<Longrightarrow> val (snd (copy h x)) (fst (copy h x)) = val h x"
    and copy_old: "reach h x \<subseteq> {..<lim h} \<Longrightarrow> agree {..<lim h} h (snd (copy h x))"
    and copy_next: "reach h x \<subseteq> {..<lim h} \<Longrightarrow> lim h \<le> lim (snd (copy h x))"
    and copy_new: "reach h x \<subseteq> {..<lim h} \<Longrightarrow>
      reach (snd (copy h x)) (fst (copy h x)) \<subseteq> {lim h..<lim (snd (copy h x))}"
begin

lemma copy_keeps:
  assumes "reach h x \<subseteq> {..<lim h}"
  shows "val (snd (copy h x)) x = val h x" "reach (snd (copy h x)) x = reach h x"
proof -
  have "agree (reach h x) h (snd (copy h x))" using copy_old [OF assms] assms by (auto simp: agree_def)
  then show "val (snd (copy h x)) x = val h x" "reach (snd (copy h x)) x = reach h x" by (rule local_val, rule local_reach)
qed

text \<open>Writing through the copy does not change the original, nor the other way round.\<close>

lemma copy_independent:
  assumes "reach h x \<subseteq> {..<lim h}" "copy h x = (y, h')"
  shows "a \<in> reach h' y \<Longrightarrow> val (set_cell a v h') x = val h x"
    and "a \<in> reach h' x \<Longrightarrow> val (set_cell a v h') y = val h x"
proof -
  have n: "reach h' y \<subseteq> {lim h..<lim h'}" "reach h' x \<subseteq> {..<lim h}"
    using copy_new [OF assms(1)] copy_keeps(2) [OF assms(1)] assms by auto
  have w: "b \<notin> A \<Longrightarrow> agree A h' (set_cell b v h')" for b A by (auto simp: agree_def set_cell_def)
  show "val (set_cell a v h') x = val h x" if "a \<in> reach h' y"
  proof -
    have "a \<notin> reach h' x" using that n by (meson atLeastLessThan_iff lessThan_iff not_le subsetD)
    then show ?thesis using local_val [OF w] copy_keeps(1) [OF assms(1)] assms(2) by simp
  qed
  show "val (set_cell a v h') y = val h x" if "a \<in> reach h' x"
  proof -
    have "a \<notin> reach h' y" using that n by (meson atLeastLessThan_iff lessThan_iff not_le subsetD)
    then show ?thesis using local_val [OF w] copy_val [OF assms(1)] assms(2) by simp
  qed
qed

end

section \<open>The generated functions\<close>

record ('m, 'l, 's, 'x, 'mv, 'lv, 'sv) CopyLib =
  meta_reach :: "('m, 'l, 's, 'x) cell heap \<Rightarrow> 'm \<Rightarrow> nat set"
  meta_val :: "('m, 'l, 's, 'x) cell heap \<Rightarrow> 'm \<Rightarrow> 'mv"
  meta_DeepCopyInto :: "('m, 'l, 's, 'x) cell heap \<Rightarrow> 'm \<Rightarrow> 'm \<times> ('m, 'l, 's, 'x) cell heap"
  listmeta_reach :: "('m, 'l, 's, 'x) cell heap \<Rightarrow> 'l \<Rightarrow> nat set"
  listmeta_val :: "('m, 'l, 's, 'x) cell heap \<Rightarrow> 'l \<Rightarrow> 'lv"
  listmeta_DeepCopyInto :: "('m, 'l, 's, 'x) cell heap \<Rightarrow> 'l \<Rightarrow> 'l \<times> ('m, 'l, 's, 'x) cell heap"
  sel_reach :: "('m, 'l, 's, 'x) cell heap \<Rightarrow> 's \<Rightarrow> nat set"
  sel_val :: "('m, 'l, 's, 'x) cell heap \<Rightarrow> 's \<Rightarrow> 'sv"
  sel_DeepCopyInto :: "('m, 'l, 's, 'x) cell heap \<Rightarrow> 's \<Rightarrow> 's \<times> ('m, 'l, 's, 'x) cell heap"

definition lib_copies :: "('m, 'l, 's, 'x, 'mv, 'lv, 'sv) CopyLib \<Rightarrow> bool" where
  "lib_copies L \<longleftrightarrow> deep_copier (meta_reach L) (meta_val L) (meta_DeepCopyInto L) \<and>
     deep_copier (listmeta_reach L) (listmeta_val L) (listmeta_DeepCopyInto L) \<and>
     deep_copier (sel_reach L) (sel_val L) (sel_DeepCopyInto L)"

definition spec_DeepCopyInto ::
    "('m, 'l, 's, 'x, 'mv, 'lv, 'sv) CopyLib \<Rightarrow> ('m, 'l, 's, 'x) cell heap \<Rightarrow> spec_struct \<Rightarrow>
     spec_struct \<times> ('m, 'l, 's, 'x) cell heap" where
  "spec_DeepCopyInto L h s =
     (case ptr_NodeSelector s of
        None \<Rightarrow> (s, h)
      | Some a \<Rightarrow>
          (case new_cell FreeCell h of (p, h1) \<Rightarrow>
             (case cells h1 a of
                SelectorCell v \<Rightarrow>
                  (case sel_DeepCopyInto L h1 v of (v', h2) \<Rightarrow> (s\<lparr>ptr_NodeSelector := Some p\<rparr>, set_cell p (SelectorCell v') h2))
              | _ \<Rightarrow> (s\<lparr>ptr_NodeSelector := Some p\<rparr>, h1))))"

definition object_DeepCopyInto ::
    "('m, 'l, 's, 'x, 'mv, 'lv, 'sv) CopyLib \<Rightarrow> ('m, 'l, 's, 'x) cell heap \<Rightarrow> 'm object_struct \<Rightarrow>
     'm object_struct \<times> ('m, 'l, 's, 'x) cell heap" where
  "object_DeepCopyInto L h ob =
     (case meta_DeepCopyInto L h (st_ObjectMeta ob) of (m, h1) \<Rightarrow>
        (case spec_DeepCopyInto L h1 (st_Spec ob) of (s, h2) \<Rightarrow>
           (\<lparr> st_TypeMeta = st_TypeMeta ob, st_ObjectMeta = m, st_Spec = s \<rparr>, h2)))"

fun copy_items ::
    "('m, 'l, 's, 'x, 'mv, 'lv, 'sv) CopyLib \<Rightarrow> ('m, 'l, 's, 'x) cell heap \<Rightarrow> 'm object_struct list \<Rightarrow>
     'm object_struct list \<times> ('m, 'l, 's, 'x) cell heap" where
  "copy_items L h [] = ([], h)"
| "copy_items L h (ob # items) =
     (case object_DeepCopyInto L h ob of (ob', h1) \<Rightarrow>
        (case copy_items L h1 items of (items', h2) \<Rightarrow> (ob' # items', h2)))"

definition list_DeepCopyInto ::
    "('m, 'l, 's, 'x, 'mv, 'lv, 'sv) CopyLib \<Rightarrow> ('m, 'l, 's, 'x) cell heap \<Rightarrow> 'l list_struct \<Rightarrow>
     'l list_struct \<times> ('m, 'l, 's, 'x) cell heap" where
  "list_DeepCopyInto L h li =
     (case listmeta_DeepCopyInto L h (li_ListMeta li) of (m, h1) \<Rightarrow>
        (case li_Items li of
           None \<Rightarrow> (li\<lparr>li_ListMeta := m\<rparr>, h1)
         | Some a \<Rightarrow>
             (case new_cell FreeCell h1 of (p, h2) \<Rightarrow>
                (case cells h2 a of
                   ItemsCell items \<Rightarrow>
                     (case copy_items L h2 items of (items', h3) \<Rightarrow>
                        (li\<lparr>li_ListMeta := m, li_Items := Some p\<rparr>, set_cell p (ItemsCell items') h3))
                 | _ \<Rightarrow> (li\<lparr>li_ListMeta := m, li_Items := Some p\<rparr>, h2)))))"

text \<open>\<open>DeepCopy\<close> of a pointer: \<open>nil\<close> gives \<open>nil\<close>, otherwise a new struct is filled.\<close>

definition spec_DeepCopy ::
    "('m, 'l, 's, 'x, 'mv, 'lv, 'sv) CopyLib \<Rightarrow> ('m, 'l, 's, 'x) cell heap \<Rightarrow> nat option \<Rightarrow>
     nat option \<times> ('m, 'l, 's, 'x) cell heap" where
  "spec_DeepCopy L h ptr =
     (case ptr of
        None \<Rightarrow> (None, h)
      | Some a \<Rightarrow>
          (case new_cell FreeCell h of (out, h1) \<Rightarrow>
             (case cells h1 a of
                SpecCell s \<Rightarrow> (case spec_DeepCopyInto L h1 s of (s', h2) \<Rightarrow> (Some out, set_cell out (SpecCell s') h2))
              | _ \<Rightarrow> (Some out, h1))))"

definition object_DeepCopy ::
    "('m, 'l, 's, 'x, 'mv, 'lv, 'sv) CopyLib \<Rightarrow> ('m, 'l, 's, 'x) cell heap \<Rightarrow> nat option \<Rightarrow>
     nat option \<times> ('m, 'l, 's, 'x) cell heap" where
  "object_DeepCopy L h ptr =
     (case ptr of
        None \<Rightarrow> (None, h)
      | Some a \<Rightarrow>
          (case new_cell FreeCell h of (out, h1) \<Rightarrow>
             (case cells h1 a of
                ObjectCell ob \<Rightarrow> (case object_DeepCopyInto L h1 ob of (ob', h2) \<Rightarrow> (Some out, set_cell out (ObjectCell ob') h2))
              | _ \<Rightarrow> (Some out, h1))))"

definition list_DeepCopy ::
    "('m, 'l, 's, 'x, 'mv, 'lv, 'sv) CopyLib \<Rightarrow> ('m, 'l, 's, 'x) cell heap \<Rightarrow> nat option \<Rightarrow>
     nat option \<times> ('m, 'l, 's, 'x) cell heap" where
  "list_DeepCopy L h ptr =
     (case ptr of
        None \<Rightarrow> (None, h)
      | Some a \<Rightarrow>
          (case new_cell FreeCell h of (out, h1) \<Rightarrow>
             (case cells h1 a of
                ListCell li \<Rightarrow> (case list_DeepCopyInto L h1 li of (li', h2) \<Rightarrow> (Some out, set_cell out (ListCell li') h2))
              | _ \<Rightarrow> (Some out, h1))))"

text \<open>\<open>DeepCopyObject\<close> returns the copy as an interface, and a \<open>nil\<close> interface for \<open>nil\<close>.\<close>

definition object_DeepCopyObject ::
    "('m, 'l, 's, 'x, 'mv, 'lv, 'sv) CopyLib \<Rightarrow> ('m, 'l, 's, 'x) cell heap \<Rightarrow> nat option \<Rightarrow>
     nat option \<times> ('m, 'l, 's, 'x) cell heap" where
  "object_DeepCopyObject L h ptr = (case object_DeepCopy L h ptr of (Some c, h') \<Rightarrow> (Some c, h') | (None, h') \<Rightarrow> (None, h'))"

definition list_DeepCopyObject ::
    "('m, 'l, 's, 'x, 'mv, 'lv, 'sv) CopyLib \<Rightarrow> ('m, 'l, 's, 'x) cell heap \<Rightarrow> nat option \<Rightarrow>
     nat option \<times> ('m, 'l, 's, 'x) cell heap" where
  "list_DeepCopyObject L h ptr = (case list_DeepCopy L h ptr of (Some c, h') \<Rightarrow> (Some c, h') | (None, h') \<Rightarrow> (None, h'))"

section \<open>Copies compose\<close>

lemma deep_copierD:
  assumes "deep_copier reach val copy" "reach h x \<subseteq> {..<lim h}" "copy h x = (y, h')"
  shows "val h' y = val h x" "agree {..<lim h} h h'" "lim h \<le> lim h'" "reach h' y \<subseteq> {lim h..<lim h'}"
  using deep_copier.copy_val [OF assms(1,2)] deep_copier.copy_old [OF assms(1,2)] deep_copier.copy_next [OF assms(1,2)]
    deep_copier.copy_new [OF assms(1,2)] assms(3) by simp_all

lemma deep_copierI:
  assumes "\<And>h h' x. agree (reach h x) h h' \<Longrightarrow> reach h' x = reach h x \<and> val h' x = val h x"
    "\<And>h x y h'. reach h x \<subseteq> {..<lim h} \<Longrightarrow> copy h x = (y, h') \<Longrightarrow>
       val h' y = val h x \<and> agree {..<lim h} h h' \<and> lim h \<le> lim h' \<and> reach h' y \<subseteq> {lim h..<lim h'}"
  shows "deep_copier reach val copy"
  using assms(1) assms(2) [OF _ surjective_pairing] by unfold_locales auto

lemma agree_mono: "agree B h h' \<Longrightarrow> A \<subseteq> B \<Longrightarrow> agree A h h'"
  by (auto simp: agree_def)

lemma agree_trans: "agree A h h1 \<Longrightarrow> agree A h1 h2 \<Longrightarrow> agree A h h2"
  by (auto simp: agree_def)

lemmas deep_copier_local = deep_copier.local_reach deep_copier.local_val

text \<open>A value that is part of a struct.\<close>

lemma field_copier:
  assumes "deep_copier reach val copy" "\<And>x r. get (put x r) = x" "\<And>x r. rest (put x r) = rest r"
  shows "deep_copier (\<lambda>h r. reach h (get r)) (\<lambda>h r. (rest r, val h (get r))) (\<lambda>h r. apfst (\<lambda>y. put y r) (copy h (get r)))"
proof (rule deep_copierI)
  fix h h' :: "'a heap" and r
  assume "agree (reach h (get r)) h h'"
  then show "reach h' (get r) = reach h (get r) \<and> (rest r, val h' (get r)) = (rest r, val h (get r))"
    using deep_copier_local [OF assms(1)] by blast
next
  fix h h' r s assume r: "reach h (get r) \<subseteq> {..<lim h}" and c: "apfst (\<lambda>y. put y r) (copy h (get r)) = (s, h')"
  obtain y where y: "copy h (get r) = (y, h')" "s = put y r" using c by (cases "copy h (get r)") auto
  show "(rest s, val h' (get s)) = (rest r, val h (get r)) \<and> agree {..<lim h} h h' \<and> lim h \<le> lim h' \<and> reach h' (get s) \<subseteq> {lim h..<lim h'}"
    using deep_copierD [OF assms(1) r y(1)] y(2) assms(2,3) by simp
qed

lemma option_copier:
  assumes "deep_copier reach val copy"
  shows "deep_copier (\<lambda>h p. case p of None \<Rightarrow> {} | Some x \<Rightarrow> reach h x) (\<lambda>h. map_option (val h))
    (\<lambda>h p. case p of None \<Rightarrow> (None, h) | Some x \<Rightarrow> apfst Some (copy h x))"
proof (rule deep_copierI, goal_cases)
  case (1 h h' p)
  then show ?case using deep_copier_local [OF assms] by (cases p) auto
next
  case (2 h p q h')
  then show ?case
  proof (cases p)
    case (Some x)
    obtain y where y: "copy h x = (y, h')" "q = Some y" using 2 Some by (cases "copy h x") auto
    then show ?thesis using deep_copierD [OF assms _ y(1)] 2 Some by simp
  qed (simp add: agree_def)
qed

lemma pair_copier:
  assumes "deep_copier reach1 val1 copy1" "deep_copier reach2 val2 copy2"
  shows "deep_copier (\<lambda>h (x, y). reach1 h x \<union> reach2 h y) (\<lambda>h (x, y). (val1 h x, val2 h y))
    (\<lambda>h (x, y). case copy1 h x of (x', h1) \<Rightarrow> case copy2 h1 y of (y', h2) \<Rightarrow> ((x', y'), h2))"
proof (rule deep_copierI, goal_cases)
  case (1 h h' p)
  obtain x y where p: "p = (x, y)" by force
  have a: "agree (reach1 h x) h h'" "agree (reach2 h y) h h'" using 1 p by (simp_all add: agree_def)
  show ?case using deep_copier_local [OF assms(1) a(1)] deep_copier_local [OF assms(2) a(2)] p by simp
next
  case (2 h p q h2)
  obtain x y where p: "p = (x, y)" by force
  obtain x' h1 where x: "copy1 h x = (x', h1)" by force
  obtain y' where y: "copy2 h1 y = (y', h2)" and q: "q = (x', y')" using 2 p x by (cases "copy2 h1 y") auto
  have r: "reach1 h x \<subseteq> {..<lim h}" "reach2 h y \<subseteq> {..<lim h}" using 2 p by auto
  note d1 = deep_copierD [OF assms(1) r(1) x]
  have ry: "reach2 h1 y = reach2 h y" "val2 h1 y = val2 h y"
    using deep_copier_local [OF assms(2) agree_mono [OF d1(2) r(2)]] by auto
  then have "reach2 h1 y \<subseteq> {..<lim h1}" using r(2) d1(3) by auto
  note d2 = deep_copierD [OF assms(2) this y]
  have "reach1 h1 x' \<subseteq> {..<lim h1}" using d1(4) by auto
  note x2 = deep_copier_local [OF assms(1) agree_mono [OF d2(2) this]]
  have "agree {..<lim h} h h2" using agree_trans [OF d1(2) agree_mono [OF d2(2)]] d1(3) by auto
  moreover have "reach1 h1 x' \<subseteq> {lim h..<lim h2}" "reach2 h2 y' \<subseteq> {lim h..<lim h2}" using d1(3,4) d2(3,4) by auto
  ultimately show ?case using d1 d2 x2 ry p q by auto
qed

primrec copy_list :: "('h \<Rightarrow> 'a \<Rightarrow> 'a \<times> 'h) \<Rightarrow> 'h \<Rightarrow> 'a list \<Rightarrow> 'a list \<times> 'h" where
  "copy_list copy h [] = ([], h)"
| "copy_list copy h (x # xs) = (case copy h x of (x', h1) \<Rightarrow> case copy_list copy h1 xs of (xs', h2) \<Rightarrow> (x' # xs', h2))"

lemma list_copier:
  assumes "deep_copier reach val copy"
  shows "deep_copier (\<lambda>h xs. \<Union> (reach h ` set xs)) (\<lambda>h. map (val h)) (copy_list copy)"
proof (rule deep_copierI)
  fix h h' :: "'a heap" and xs
  assume "agree (\<Union> (reach h ` set xs)) h h'"
  then have a: "agree (reach h x) h h'" if "x \<in> set xs" for x using that by (auto simp: agree_def)
  have "reach h' x = reach h x \<and> val h' x = val h x" if "x \<in> set xs" for x
    using deep_copier_local [OF assms a [OF that]] by blast
  then show "\<Union> (reach h' ` set xs) = \<Union> (reach h ` set xs) \<and> map (val h') xs = map (val h) xs" by simp
next
  fix h h' xs ys assume "\<Union> (reach h ` set xs) \<subseteq> {..<lim h}" "copy_list copy h xs = (ys, h')"
  then show "map (val h') ys = map (val h) xs \<and> agree {..<lim h} h h' \<and> lim h \<le> lim h' \<and> \<Union> (reach h' ` set ys) \<subseteq> {lim h..<lim h'}"
  proof (induction xs arbitrary: h ys)
    case Nil
    then show ?case by (simp add: agree_def)
  next
    case (Cons x xs)
    obtain x' h1 where x: "copy h x = (x', h1)" by force
    obtain xs' where xs: "copy_list copy h1 xs = (xs', h')" and ys: "ys = x' # xs'"
      using Cons.prems(2) x by (cases "copy_list copy h1 xs") auto
    have r: "reach h x \<subseteq> {..<lim h}" "\<forall>z \<in> set xs. reach h z \<subseteq> {..<lim h}" using Cons.prems(1) by auto
    note d1 = deep_copierD [OF assms r(1) x]
    have s: "\<forall>z \<in> set xs. reach h1 z = reach h z \<and> val h1 z = val h z"
      using deep_copier_local [OF assms agree_mono [OF d1(2)]] r(2) by blast
    then have "\<Union> (reach h1 ` set xs) \<subseteq> {..<lim h1}" using r(2) d1(3) by fastforce
    note d2 = Cons.IH [OF this xs]
    have "reach h1 x' \<subseteq> {..<lim h1}" using d1(4) by auto
    note x2 = deep_copier_local [OF assms agree_mono [OF conjunct1 [OF conjunct2 [OF d2]] this]]
    have "agree {..<lim h1} h1 h'" using d2 by blast
    then have "agree {..<lim h} h h'" using agree_trans [OF d1(2) agree_mono] d1(3) by (meson lessThan_subset_iff)
    moreover have "reach h1 x' \<subseteq> {lim h..<lim h'}" "\<Union> (reach h' ` set xs') \<subseteq> {lim h..<lim h'}" using d1(3,4) d2 by fastforce+
    moreover have "map (val h1) xs = map (val h) xs" using s by simp
    ultimately show ?case using d1 d2 x2 ys by simp
  qed
qed

text \<open>A value behind a pointer: \<open>new\<close> allocates the cell, the copy of the contents is written into it.\<close>

definition box_copy :: "'c \<Rightarrow> ('c \<Rightarrow> 'a option) \<Rightarrow> ('a \<Rightarrow> 'c) \<Rightarrow> ('c heap \<Rightarrow> 'a \<Rightarrow> 'a \<times> 'c heap) \<Rightarrow> 'c heap \<Rightarrow> nat \<Rightarrow> nat \<times> 'c heap" where
  "box_copy free unwrap wrap copy h a =
     (case new_cell free h of (p, h1) \<Rightarrow>
        (case unwrap (cells h1 a) of
           Some v \<Rightarrow> (case copy h1 v of (v', h2) \<Rightarrow> (p, set_cell p (wrap v') h2))
         | None \<Rightarrow> (p, h1)))"

definition box_reach :: "('c \<Rightarrow> 'a option) \<Rightarrow> ('c heap \<Rightarrow> 'a \<Rightarrow> nat set) \<Rightarrow> 'c heap \<Rightarrow> nat \<Rightarrow> nat set" where
  "box_reach unwrap reach h a = insert a (case unwrap (cells h a) of Some v \<Rightarrow> reach h v | None \<Rightarrow> {})"

definition box_val :: "('c \<Rightarrow> 'a option) \<Rightarrow> ('c heap \<Rightarrow> 'a \<Rightarrow> 'v) \<Rightarrow> 'c heap \<Rightarrow> nat \<Rightarrow> 'v option" where
  "box_val unwrap val h a = map_option (val h) (unwrap (cells h a))"

lemma box_copier:
  assumes "deep_copier reach val copy" "unwrap free = None" "\<And>v. unwrap (wrap v) = Some v"
  shows "deep_copier (box_reach unwrap reach) (box_val unwrap val) (box_copy free unwrap wrap copy)"
proof (rule deep_copierI)
  fix h h' :: "'a heap" and a
  assume ag: "agree (box_reach unwrap reach h a) h h'"
  then have c: "cells h' a = cells h a" by (simp add: box_reach_def agree_def)
  show "box_reach unwrap reach h' a = box_reach unwrap reach h a \<and> box_val unwrap val h' a = box_val unwrap val h a"
  proof (cases "unwrap (cells h a)")
    case (Some v)
    then have "agree (reach h v) h h'" using ag by (simp add: box_reach_def agree_def)
    then show ?thesis using deep_copier_local [OF assms(1)] c Some by (simp add: box_reach_def box_val_def)
  qed (simp add: c box_reach_def box_val_def)
next
  fix h h' a p assume r: "box_reach unwrap reach h a \<subseteq> {..<lim h}" and b: "box_copy free unwrap wrap copy h a = (p, h')"
  define h1 where "h1 = h\<lparr>cells := (cells h)(lim h := free), lim := Suc (lim h)\<rparr>"
  have n: "new_cell free h = (lim h, h1)" "lim h1 = Suc (lim h)" "cells h1 a = cells h a" "agree {..<lim h} h h1" "cells h1 (lim h) = free"
    using r by (auto simp: new_cell_def h1_def agree_def box_reach_def)
  show "box_val unwrap val h' p = box_val unwrap val h a \<and> agree {..<lim h} h h' \<and> lim h \<le> lim h' \<and>
    box_reach unwrap reach h' p \<subseteq> {lim h..<lim h'}"
  proof (cases "unwrap (cells h a)")
    case None
    then have "p = lim h" "h' = h1" using b n by (simp_all add: box_copy_def)
    then show ?thesis using None n assms(2) by (simp add: box_val_def box_reach_def)
  next
    case (Some v)
    obtain v' h2 where v: "copy h1 v = (v', h2)" by force
    have p: "p = lim h" "h' = set_cell (lim h) (wrap v') h2" using b n Some v by (auto simp: box_copy_def)
    have rv: "reach h v \<subseteq> {..<lim h}" using r Some by (simp add: box_reach_def)
    note l1 = deep_copier_local [OF assms(1) agree_mono [OF n(4) rv]]
    then have "reach h1 v \<subseteq> {..<lim h1}" using rv n(2) by auto
    note d = deep_copierD [OF assms(1) this v]
    have "agree (reach h2 v') h2 h'" using d(4) n(2) p(2) by (auto simp: agree_def set_cell_def)
    note l2 = deep_copier_local [OF assms(1) this]
    have "agree {..<lim h} h h'" using n(2,4) d(2) p(2) by (auto simp: agree_def set_cell_def)
    then show ?thesis using p d l1 l2 n(2) Some assms(3) by (auto simp: box_val_def box_reach_def set_cell_def)
  qed
qed

section \<open>The generated functions are deep copies\<close>

definition as_selector :: "('m, 'l, 's, 'x) cell \<Rightarrow> 's option" where
  "as_selector c = (case c of SelectorCell v \<Rightarrow> Some v | _ \<Rightarrow> None)"

definition as_spec :: "('m, 'l, 's, 'x) cell \<Rightarrow> spec_struct option" where
  "as_spec c = (case c of SpecCell v \<Rightarrow> Some v | _ \<Rightarrow> None)"

definition as_object :: "('m, 'l, 's, 'x) cell \<Rightarrow> 'm object_struct option" where
  "as_object c = (case c of ObjectCell v \<Rightarrow> Some v | _ \<Rightarrow> None)"

definition as_items :: "('m, 'l, 's, 'x) cell \<Rightarrow> 'm object_struct list option" where
  "as_items c = (case c of ItemsCell v \<Rightarrow> Some v | _ \<Rightarrow> None)"

definition as_list :: "('m, 'l, 's, 'x) cell \<Rightarrow> 'l list_struct option" where
  "as_list c = (case c of ListCell v \<Rightarrow> Some v | _ \<Rightarrow> None)"

lemmas as_defs = as_selector_def as_spec_def as_object_def as_items_def as_list_def

text \<open>What a struct reaches and denotes.\<close>

definition spec_reach :: "('m, 'l, 's, 'x, 'mv, 'lv, 'sv) CopyLib \<Rightarrow> ('m, 'l, 's, 'x) cell heap \<Rightarrow> spec_struct \<Rightarrow> nat set" where
  "spec_reach L h s = (case ptr_NodeSelector s of None \<Rightarrow> {} | Some a \<Rightarrow> box_reach as_selector (sel_reach L) h a)"

type_synonym 'sv spec_value = "(int \<times> string \<times> string) \<times> 'sv option option"

definition spec_val :: "('m, 'l, 's, 'x, 'mv, 'lv, 'sv) CopyLib \<Rightarrow> ('m, 'l, 's, 'x) cell heap \<Rightarrow> spec_struct \<Rightarrow> 'sv spec_value" where
  "spec_val L h s = ((ptr_PerNodeHostBits s, ptr_IPv4 s, ptr_IPv6 s), map_option (box_val as_selector (sel_val L) h) (ptr_NodeSelector s))"

definition object_reach :: "('m, 'l, 's, 'x, 'mv, 'lv, 'sv) CopyLib \<Rightarrow> ('m, 'l, 's, 'x) cell heap \<Rightarrow> 'm object_struct \<Rightarrow> nat set" where
  "object_reach L h ob = meta_reach L h (st_ObjectMeta ob) \<union> spec_reach L h (st_Spec ob)"

type_synonym ('mv, 'sv) object_value = "string \<times> 'mv \<times> 'sv spec_value"

definition object_val :: "('m, 'l, 's, 'x, 'mv, 'lv, 'sv) CopyLib \<Rightarrow> ('m, 'l, 's, 'x) cell heap \<Rightarrow> 'm object_struct \<Rightarrow> ('mv, 'sv) object_value" where
  "object_val L h ob = (st_TypeMeta ob, meta_val L h (st_ObjectMeta ob), spec_val L h (st_Spec ob))"

definition list_reach :: "('m, 'l, 's, 'x, 'mv, 'lv, 'sv) CopyLib \<Rightarrow> ('m, 'l, 's, 'x) cell heap \<Rightarrow> 'l list_struct \<Rightarrow> nat set" where
  "list_reach L h li = listmeta_reach L h (li_ListMeta li) \<union>
     (case li_Items li of None \<Rightarrow> {} | Some a \<Rightarrow> box_reach as_items (\<lambda>h xs. \<Union> (object_reach L h ` set xs)) h a)"

definition list_val ::
    "('m, 'l, 's, 'x, 'mv, 'lv, 'sv) CopyLib \<Rightarrow> ('m, 'l, 's, 'x) cell heap \<Rightarrow> 'l list_struct \<Rightarrow>
     string \<times> 'lv \<times> ('mv, 'sv) object_value list option option" where
  "list_val L h li = (li_TypeMeta li, listmeta_val L h (li_ListMeta li),
     map_option (box_val as_items (\<lambda>h. map (object_val L h)) h) (li_Items li))"

lemma spec_copier:
  assumes "lib_copies L"
  shows "deep_copier (spec_reach L) (spec_val L) (spec_DeepCopyInto L)"
proof -
  have "deep_copier (sel_reach L) (sel_val L) (sel_DeepCopyInto L)" using assms by (simp add: lib_copies_def)
  from box_copier [OF this, of as_selector FreeCell SelectorCell]
  have "deep_copier (box_reach as_selector (sel_reach L)) (box_val as_selector (sel_val L))
    (box_copy FreeCell as_selector SelectorCell (sel_DeepCopyInto L))" by (simp add: as_selector_def)
  note o = field_copier [OF option_copier [OF this], of ptr_NodeSelector "\<lambda>p s. s\<lparr>ptr_NodeSelector := p\<rparr>"
      "\<lambda>s. (ptr_PerNodeHostBits s, ptr_IPv4 s, ptr_IPv6 s)"]
  have "spec_DeepCopyInto L = (\<lambda>h r. apfst (\<lambda>y. r\<lparr>ptr_NodeSelector := y\<rparr>) (case ptr_NodeSelector r of None \<Rightarrow> (None, h)
      | Some x \<Rightarrow> apfst Some (box_copy FreeCell as_selector SelectorCell (sel_DeepCopyInto L) h x)))"
    by (intro ext) (simp add: spec_DeepCopyInto_def box_copy_def as_selector_def split: option.split cell.split prod.split)
  moreover have "spec_reach L = (\<lambda>h r. case ptr_NodeSelector r of None \<Rightarrow> {} | Some x \<Rightarrow> box_reach as_selector (sel_reach L) h x)"
    by (intro ext) (simp add: spec_reach_def)
  moreover have "spec_val L = (\<lambda>h r. ((ptr_PerNodeHostBits r, ptr_IPv4 r, ptr_IPv6 r), map_option (box_val as_selector (sel_val L) h) (ptr_NodeSelector r)))"
    by (intro ext) (simp add: spec_val_def)
  ultimately show ?thesis using o by simp
qed

lemma object_copier:
  assumes "lib_copies L"
  shows "deep_copier (object_reach L) (object_val L) (object_DeepCopyInto L)"
proof -
  have "deep_copier (meta_reach L) (meta_val L) (meta_DeepCopyInto L)" using assms by (simp add: lib_copies_def)
  note o = field_copier [OF pair_copier [OF this spec_copier [OF assms]],
      of "\<lambda>ob. (st_ObjectMeta ob, st_Spec ob)" "\<lambda>(m, s) ob. ob\<lparr>st_ObjectMeta := m, st_Spec := s\<rparr>" st_TypeMeta]
  have "object_DeepCopyInto L = (\<lambda>h r. apfst (\<lambda>y. case y of (m, s) \<Rightarrow> r\<lparr>st_ObjectMeta := m, st_Spec := s\<rparr>)
      (case (st_ObjectMeta r, st_Spec r) of (x, y) \<Rightarrow> case meta_DeepCopyInto L h x of (x', h1) \<Rightarrow>
         case spec_DeepCopyInto L h1 y of (y', h2) \<Rightarrow> ((x', y'), h2)))"
    by (intro ext) (simp add: object_DeepCopyInto_def split: prod.split)
  moreover have "object_reach L = (\<lambda>h r. case (st_ObjectMeta r, st_Spec r) of (x, y) \<Rightarrow> meta_reach L h x \<union> spec_reach L h y)"
    by (intro ext) (simp add: object_reach_def)
  moreover have "object_val L = (\<lambda>h r. (st_TypeMeta r, case (st_ObjectMeta r, st_Spec r) of (x, y) \<Rightarrow> (meta_val L h x, spec_val L h y)))"
    by (intro ext) (simp add: object_val_def)
  ultimately show ?thesis using o by (simp add: case_prod_beta)
qed

lemma copy_items_list: "copy_items L = copy_list (object_DeepCopyInto L)"
proof (intro ext)
  fix h items show "copy_items L h items = copy_list (object_DeepCopyInto L) h items"
    by (induction items arbitrary: h) (simp_all split: prod.split)
qed

lemma list_struct_copier:
  assumes "lib_copies L"
  shows "deep_copier (list_reach L) (list_val L) (list_DeepCopyInto L)"
proof -
  have m: "deep_copier (listmeta_reach L) (listmeta_val L) (listmeta_DeepCopyInto L)" using assms by (simp add: lib_copies_def)
  from box_copier [OF list_copier [OF object_copier [OF assms]], of as_items FreeCell ItemsCell]
  have "deep_copier (box_reach as_items (\<lambda>h xs. \<Union> (object_reach L h ` set xs))) (box_val as_items (\<lambda>h. map (object_val L h)))
    (box_copy FreeCell as_items ItemsCell (copy_items L))" by (simp add: as_items_def copy_items_list)
  note o = field_copier [OF pair_copier [OF m option_copier [OF this]],
      of "\<lambda>li. (li_ListMeta li, li_Items li)" "\<lambda>(m, p) li. li\<lparr>li_ListMeta := m, li_Items := p\<rparr>" li_TypeMeta]
  have "list_DeepCopyInto L = (\<lambda>h r. apfst (\<lambda>y. case y of (m, p) \<Rightarrow> r\<lparr>li_ListMeta := m, li_Items := p\<rparr>)
      (case (li_ListMeta r, li_Items r) of (x, y) \<Rightarrow> case listmeta_DeepCopyInto L h x of (x', h1) \<Rightarrow>
         case (case y of None \<Rightarrow> (None, h1) | Some a \<Rightarrow> apfst Some (box_copy FreeCell as_items ItemsCell (copy_items L) h1 a)) of
           (y', h2) \<Rightarrow> ((x', y'), h2)))"
    by (intro ext) (auto simp: list_DeepCopyInto_def box_copy_def as_items_def split: option.split cell.split prod.split)
  moreover have "list_reach L = (\<lambda>h r. case (li_ListMeta r, li_Items r) of (x, y) \<Rightarrow> listmeta_reach L h x \<union>
      (case y of None \<Rightarrow> {} | Some a \<Rightarrow> box_reach as_items (\<lambda>h xs. \<Union> (object_reach L h ` set xs)) h a))"
    by (intro ext) (simp add: list_reach_def)
  moreover have "list_val L = (\<lambda>h r. (li_TypeMeta r, case (li_ListMeta r, li_Items r) of (x, y) \<Rightarrow>
      (listmeta_val L h x, map_option (box_val as_items (\<lambda>h. map (object_val L h)) h) y)))"
    by (intro ext) (simp add: list_val_def)
  ultimately show ?thesis using o by (simp add: case_prod_beta)
qed

text \<open>Pointers to structs.\<close>

lemma object_pointer_copier:
  assumes "lib_copies L"
  shows "deep_copier (box_reach as_object (object_reach L)) (box_val as_object (object_val L))
    (box_copy FreeCell as_object ObjectCell (object_DeepCopyInto L))"
  by (rule box_copier [OF object_copier [OF assms]]) (simp_all add: as_object_def)

lemma list_pointer_copier:
  assumes "lib_copies L"
  shows "deep_copier (box_reach as_list (list_reach L)) (box_val as_list (list_val L))
    (box_copy FreeCell as_list ListCell (list_DeepCopyInto L))"
  by (rule box_copier [OF list_struct_copier [OF assms]]) (simp_all add: as_list_def)

lemma spec_pointer_copier:
  assumes "lib_copies L"
  shows "deep_copier (box_reach as_spec (spec_reach L)) (box_val as_spec (spec_val L))
    (box_copy FreeCell as_spec SpecCell (spec_DeepCopyInto L))"
  by (rule box_copier [OF spec_copier [OF assms]]) (simp_all add: as_spec_def)

lemma spec_DeepCopy_box:
  "spec_DeepCopy L h (Some a) = apfst Some (box_copy FreeCell as_spec SpecCell (spec_DeepCopyInto L) h a)"
  by (simp add: spec_DeepCopy_def box_copy_def as_spec_def split: cell.split prod.split)

lemma object_DeepCopy_box:
  "object_DeepCopy L h (Some a) = apfst Some (box_copy FreeCell as_object ObjectCell (object_DeepCopyInto L) h a)"
  by (simp add: object_DeepCopy_def box_copy_def as_object_def split: cell.split prod.split)

lemma list_DeepCopy_box:
  "list_DeepCopy L h (Some a) = apfst Some (box_copy FreeCell as_list ListCell (list_DeepCopyInto L) h a)"
  by (simp add: list_DeepCopy_def box_copy_def as_list_def split: cell.split prod.split)

definition independent_copy ::
    "('c heap \<Rightarrow> 'a \<Rightarrow> nat set) \<Rightarrow> ('c heap \<Rightarrow> 'a \<Rightarrow> 'v) \<Rightarrow> 'c heap \<Rightarrow> 'a \<Rightarrow> 'c heap \<Rightarrow> 'a \<Rightarrow> bool" where
  "independent_copy reach val h x h' y \<longleftrightarrow>
     val h' y = val h x \<and> agree {..<lim h} h h' \<and> reach h' y \<inter> {..<lim h} = {} \<and>
     (\<forall>a v. a \<in> reach h' y \<longrightarrow> val (set_cell a v h') x = val h x) \<and>
     (\<forall>a v. a \<in> reach h' x \<longrightarrow> val (set_cell a v h') y = val h x)"

lemma copier_independent:
  assumes "deep_copier reach val copy" "reach h x \<subseteq> {..<lim h}"
  shows "independent_copy reach val h x (snd (copy h x)) (fst (copy h x))"
proof -
  obtain y h' where c: "copy h x = (y, h')" by force
  note d = deep_copierD [OF assms c]
  have "reach h' y \<inter> {..<lim h} = {}" using d(4) by auto
  then show ?thesis
    using d deep_copier.copy_independent [OF assms c] c by (simp add: independent_copy_def)
qed

text \<open>C26. \<open>DeepCopy\<close> of a pointer to a ClusterCIDR, a specification or a list gives a pointer to an equal
  value and leaves all existing memory as it is; the copy reaches only new memory, so no write through it can
  be seen through the original and none through the original in the copy. \<open>nil\<close> is copied to \<open>nil\<close>. It is assumed that the
  copies of the metadata and of node selectors, which are not of this program, are deep.\<close>

theorem deep_copy_shares_nothing:
  assumes "lib_copies L"
  shows "(box_reach as_object (object_reach L) h a \<subseteq> {..<lim h} \<longrightarrow>
      (\<exists>b h'. object_DeepCopy L h (Some a) = (Some b, h') \<and>
         independent_copy (box_reach as_object (object_reach L)) (box_val as_object (object_val L)) h a h' b)) \<and>
    (box_reach as_list (list_reach L) h a \<subseteq> {..<lim h} \<longrightarrow>
      (\<exists>b h'. list_DeepCopy L h (Some a) = (Some b, h') \<and>
         independent_copy (box_reach as_list (list_reach L)) (box_val as_list (list_val L)) h a h' b)) \<and>
    (box_reach as_spec (spec_reach L) h a \<subseteq> {..<lim h} \<longrightarrow>
      (\<exists>b h'. spec_DeepCopy L h (Some a) = (Some b, h') \<and>
         independent_copy (box_reach as_spec (spec_reach L)) (box_val as_spec (spec_val L)) h a h' b)) \<and>
    object_DeepCopyObject L h p = object_DeepCopy L h p \<and> list_DeepCopyObject L h p = list_DeepCopy L h p \<and>
    object_DeepCopy L h None = (None, h) \<and> list_DeepCopy L h None = (None, h) \<and> spec_DeepCopy L h None = (None, h)"
proof -
  note c = copier_independent [OF object_pointer_copier [OF assms], of h a] copier_independent [OF list_pointer_copier [OF assms], of h a]
    copier_independent [OF spec_pointer_copier [OF assms], of h a]
  have "object_DeepCopyObject L h p = object_DeepCopy L h p" "list_DeepCopyObject L h p = list_DeepCopy L h p"
    by (simp_all add: object_DeepCopyObject_def list_DeepCopyObject_def split: prod.split option.split)
  moreover have "object_DeepCopy L h None = (None, h)" "list_DeepCopy L h None = (None, h)" "spec_DeepCopy L h None = (None, h)"
    by (simp_all add: object_DeepCopy_def list_DeepCopy_def spec_DeepCopy_def)
  ultimately show ?thesis using c
    by (simp add: object_DeepCopy_box list_DeepCopy_box spec_DeepCopy_box apfst_def map_prod_def case_prod_beta)
qed

section \<open>An instance\<close>

text \<open>Metadata with a pointer to its finalizers; selectors and list metadata without pointers.\<close>

lemma value_copier: "deep_copier (\<lambda>h x. {}) (\<lambda>h x. x) (\<lambda>h x. (x, h))"
  by unfold_locales (simp_all add: agree_def)

definition as_lib :: "('m, 'l, 's, 'x) cell \<Rightarrow> 'x option" where
  "as_lib c = (case c of LibCell v \<Rightarrow> Some v | _ \<Rightarrow> None)"

type_synonym ref_meta = "string \<times> nat option"
type_synonym ref_cell = "(ref_meta, string, string, string list) cell"

definition ref_copylib :: "(ref_meta, string, string, string list, string \<times> string list option option, string, string) CopyLib" where
  "ref_copylib =
     \<lparr> meta_reach = (\<lambda>h (x, y). {} \<union> (case y of None \<Rightarrow> {} | Some a \<Rightarrow> box_reach as_lib (\<lambda>h x. {}) h a)),
       meta_val = (\<lambda>h (x, y). (x, map_option (box_val as_lib (\<lambda>h x. x) h) y)),
       meta_DeepCopyInto = (\<lambda>h (x, y). case (x, h) of (x', h1) \<Rightarrow>
          case (case y of None \<Rightarrow> (None, h1) | Some a \<Rightarrow> apfst Some (box_copy FreeCell as_lib LibCell (\<lambda>h x. (x, h)) h1 a)) of
            (y', h2) \<Rightarrow> ((x', y'), h2)),
       listmeta_reach = (\<lambda>h x. {}), listmeta_val = (\<lambda>h x. x), listmeta_DeepCopyInto = (\<lambda>h x. (x, h)),
       sel_reach = (\<lambda>h x. {}), sel_val = (\<lambda>h x. x), sel_DeepCopyInto = (\<lambda>h x. (x, h)) \<rparr>"

lemma ref_lib_copies: "lib_copies ref_copylib"
proof -
  have "deep_copier (box_reach as_lib (\<lambda>h x. {})) (box_val as_lib (\<lambda>h x. x)) (box_copy FreeCell as_lib LibCell (\<lambda>h x. (x, h)))"
    by (rule box_copier [OF value_copier]) (simp_all add: as_lib_def)
  from pair_copier [OF value_copier option_copier [OF this]]
  show ?thesis using value_copier by (simp add: lib_copies_def ref_copylib_def)
qed

interpretation ref_spec: deep_copier "spec_reach ref_copylib" "spec_val ref_copylib" "spec_DeepCopyInto ref_copylib"
  by (rule spec_copier [OF ref_lib_copies])

interpretation ref_object: deep_copier "object_reach ref_copylib" "object_val ref_copylib" "object_DeepCopyInto ref_copylib"
  by (rule object_copier [OF ref_lib_copies])

interpretation ref_list: deep_copier "list_reach ref_copylib" "list_val ref_copylib" "list_DeepCopyInto ref_copylib"
  by (rule list_struct_copier [OF ref_lib_copies])

definition demo_heap :: "ref_cell heap" where
  "demo_heap = \<lparr> cells = (\<lambda>_. FreeCell)(0 := LibCell [''finalizer''], 1 := SelectorCell ''env=prod'',
     2 := ObjectCell \<lparr> st_TypeMeta = ''ClusterCIDR'', st_ObjectMeta = (''cc'', Some 0),
       st_Spec = \<lparr> ptr_NodeSelector = Some 1, ptr_PerNodeHostBits = 8, ptr_IPv4 = ''10.0.0.0/16'', ptr_IPv6 = [] \<rparr> \<rparr>), lim = 3 \<rparr>"

theorem deep_copy_shares_nothing_witness:
  "\<exists>b h'. object_DeepCopy ref_copylib demo_heap (Some 2) = (Some b, h') \<and>
     box_val as_object (object_val ref_copylib) h' b =
       Some (''ClusterCIDR'', (''cc'', Some (Some [''finalizer''])), (8, ''10.0.0.0/16'', []), Some (Some ''env=prod'')) \<and>
     box_reach as_object (object_reach ref_copylib) h' b \<inter> {0, 1, 2} = {}"
proof -
  have r: "box_reach as_object (object_reach ref_copylib) demo_heap 2 \<subseteq> {..<lim demo_heap}"
    by (simp add: box_reach_def as_object_def object_reach_def spec_reach_def ref_copylib_def demo_heap_def as_selector_def as_lib_def)
  have v: "box_val as_object (object_val ref_copylib) demo_heap 2 =
      Some (''ClusterCIDR'', (''cc'', Some (Some [''finalizer''])), (8, ''10.0.0.0/16'', []), Some (Some ''env=prod''))"
    by (simp add: box_val_def as_object_def object_val_def spec_val_def ref_copylib_def demo_heap_def as_selector_def as_lib_def)
  have "{0, 1, 2} \<subseteq> {..<lim demo_heap}" by (simp add: demo_heap_def)
  then show ?thesis
    using deep_copy_shares_nothing [OF ref_lib_copies, of demo_heap 2] r v unfolding independent_copy_def by fastforce
qed

end
