(* ===== verification/FakeClient.thy ===== *)
theory FakeClient
  imports ClientSet ApiTypes
begin

text \<open>The registration of the ClusterCIDR types with a scheme (\<open>v1/register.go\<close>, \<open>scheme/register.go\<close>,
  \<open>fake/register.go\<close>) and the generated fake clientset, which answers from an object tracker instead of an API
  server. \<open>runtime.Scheme\<close>, the object tracker and \<open>testing.Fake\<close> are library code: parameters, with their documented
  behaviour as the laws \<open>scheme_law\<close> and \<open>testing_law\<close>. The tracker is shared by pointer: what the reactors of a
  clientset do depends on its state when they run.\<close>

section \<open>Schemes\<close>

record GroupKind =
  gk_Group :: string
  gk_Kind :: string

definition v1_Kind :: "string \<Rightarrow> GroupKind" where
  "v1_Kind kind = \<lparr> gk_Group = gv_Group SchemeGroupVersion, gk_Kind = kind \<rparr>"

record 'sch SchemeLib =
  NewScheme :: 'sch
  AddKnownTypes :: "'sch \<Rightarrow> GroupVersion \<Rightarrow> string list \<Rightarrow> 'sch outcome"
  AddToGroupVersion :: "'sch \<Rightarrow> GroupVersion \<Rightarrow> 'sch outcome"
  SchemeBuilder_AddToScheme :: "('sch \<Rightarrow> 'sch outcome) list \<Rightarrow> 'sch \<Rightarrow> 'sch outcome"
  Recognizes :: "'sch \<Rightarrow> GroupVersion \<Rightarrow> string \<Rightarrow> bool"
  meta_kinds :: "string list"

definition addKnownTypes :: "'sch SchemeLib \<Rightarrow> 'sch \<Rightarrow> 'sch outcome" where
  "addKnownTypes sl scheme =
     (case AddKnownTypes sl scheme SchemeGroupVersion [''ClusterCIDR'', ''ClusterCIDRList''] of
        Ret scheme1 \<Rightarrow> AddToGroupVersion sl scheme1 SchemeGroupVersion
      | e \<Rightarrow> e)"

definition v1_AddToScheme :: "'sch SchemeLib \<Rightarrow> 'sch \<Rightarrow> 'sch outcome" where
  "v1_AddToScheme sl = SchemeBuilder_AddToScheme sl [addKnownTypes sl]"

text \<open>\<open>utilruntime.Must\<close> panics on an error.\<close>

definition must :: "'a outcome \<Rightarrow> 'a outcome" where
  "must res = (case res of Ret x \<Rightarrow> Ret x | _ \<Rightarrow> Panic)"

definition scheme_AddToScheme :: "'sch SchemeLib \<Rightarrow> 'sch \<Rightarrow> 'sch outcome" where
  "scheme_AddToScheme sl = SchemeBuilder_AddToScheme sl [v1_AddToScheme sl]"

definition scheme_init :: "'sch SchemeLib \<Rightarrow> 'sch outcome" where
  "scheme_init sl =
     (case AddToGroupVersion sl (NewScheme sl) \<lparr> gv_Group = [], gv_Version = ''v1'' \<rparr> of
        Ret scheme \<Rightarrow> must (scheme_AddToScheme sl scheme)
      | e \<Rightarrow> e)"

definition fake_AddToScheme :: "'sch SchemeLib \<Rightarrow> 'sch \<Rightarrow> 'sch outcome" where
  "fake_AddToScheme sl = SchemeBuilder_AddToScheme sl [v1_AddToScheme sl]"

definition fake_init :: "'sch SchemeLib \<Rightarrow> 'sch outcome" where
  "fake_init sl =
     (case AddToGroupVersion sl (NewScheme sl) \<lparr> gv_Group = [], gv_Version = ''v1'' \<rparr> of
        Ret scheme \<Rightarrow> must (fake_AddToScheme sl scheme)
      | e \<Rightarrow> e)"

text \<open>A new scheme knows nothing; types that are not yet known under a version can be registered under their
  names; the types of the package \<open>meta/v1\<close> can be added to any version; a builder applies its functions.\<close>

definition scheme_law :: "'sch SchemeLib \<Rightarrow> bool" where
  "scheme_law sl \<longleftrightarrow>
     (\<forall>gv k. \<not> Recognizes sl (NewScheme sl) gv k) \<and>
     (\<forall>s gv names. (\<forall>k \<in> set names. \<not> Recognizes sl s gv k) \<longrightarrow>
        (\<exists>s'. AddKnownTypes sl s gv names = Ret s' \<and>
           (\<forall>gv' k. Recognizes sl s' gv' k \<longleftrightarrow> Recognizes sl s gv' k \<or> gv' = gv \<and> k \<in> set names))) \<and>
     (\<forall>s gv. \<exists>s'. AddToGroupVersion sl s gv = Ret s' \<and>
        (\<forall>gv' k. Recognizes sl s gv' k \<longrightarrow> Recognizes sl s' gv' k) \<and>
        (\<forall>gv' k. Recognizes sl s' gv' k \<longrightarrow> Recognizes sl s gv' k \<or> k \<in> set (meta_kinds sl))) \<and>
     (\<forall>f. SchemeBuilder_AddToScheme sl [f] = f) \<and>
     ''ClusterCIDR'' \<notin> set (meta_kinds sl) \<and> ''ClusterCIDRList'' \<notin> set (meta_kinds sl)"

definition scheme_ready :: "'sch SchemeLib \<Rightarrow> 'sch \<Rightarrow> bool" where
  "scheme_ready sl s \<longleftrightarrow>
     (\<forall>k. k \<notin> set (meta_kinds sl) \<longrightarrow> (Recognizes sl s SchemeGroupVersion k \<longleftrightarrow> k \<in> {''ClusterCIDR'', ''ClusterCIDRList''}))"

lemma addKnownTypes_ready:
  assumes "scheme_law sl" "\<forall>gv k. Recognizes sl s gv k \<longrightarrow> k \<in> set (meta_kinds sl)"
  shows "\<exists>s'. addKnownTypes sl s = Ret s' \<and> scheme_ready sl s'"
proof -
  let ?names = "[''ClusterCIDR'', ''ClusterCIDRList'']"
  have "\<forall>k \<in> set ?names. \<not> Recognizes sl s SchemeGroupVersion k" using assms by (auto simp: scheme_law_def)
  then obtain s1 where s1: "AddKnownTypes sl s SchemeGroupVersion ?names = Ret s1"
    "\<forall>gv' k. Recognizes sl s1 gv' k \<longleftrightarrow> Recognizes sl s gv' k \<or> gv' = SchemeGroupVersion \<and> k \<in> set ?names"
    using assms(1) unfolding scheme_law_def by blast
  obtain s2 where s2: "AddToGroupVersion sl s1 SchemeGroupVersion = Ret s2"
    "\<forall>gv' k. Recognizes sl s1 gv' k \<longrightarrow> Recognizes sl s2 gv' k"
    "\<forall>gv' k. Recognizes sl s2 gv' k \<longrightarrow> Recognizes sl s1 gv' k \<or> k \<in> set (meta_kinds sl)"
    using assms(1) unfolding scheme_law_def by blast
  have "scheme_ready sl s2" using s1(2) s2(2,3) assms(2) unfolding scheme_ready_def by (metis empty_iff insert_iff list.set(1,2))
  then show ?thesis using s1(1) s2(1) by (simp add: addKnownTypes_def)
qed

lemma init_ready:
  assumes "scheme_law sl"
  shows "fake_init sl = scheme_init sl \<and> (\<exists>s. scheme_init sl = Ret s \<and> scheme_ready sl s)"
proof -
  obtain s0 where s0: "AddToGroupVersion sl (NewScheme sl) \<lparr> gv_Group = [], gv_Version = ''v1'' \<rparr> = Ret s0"
    "\<forall>gv k. Recognizes sl s0 gv k \<longrightarrow> k \<in> set (meta_kinds sl)"
    using assms unfolding scheme_law_def by meson
  have b: "SchemeBuilder_AddToScheme sl [f] = f" for f using assms unfolding scheme_law_def by blast
  obtain s where "addKnownTypes sl s0 = Ret s" "scheme_ready sl s" using addKnownTypes_ready [OF assms s0(2)] by blast
  then show ?thesis using s0(1)
    by (simp add: scheme_init_def fake_init_def scheme_AddToScheme_def fake_AddToScheme_def v1_AddToScheme_def b must_def)
qed

section \<open>The fake clientset\<close>

datatype runtime_Object = ClusterCIDR_object ClusterCIDRObject | OtherObject string string

fun runtime_kind :: "runtime_Object \<Rightarrow> string" where
  "runtime_kind (ClusterCIDR_object _) = ''ClusterCIDR''"
| "runtime_kind (OtherObject kind _) = kind"

fun runtime_name :: "runtime_Object \<Rightarrow> string" where
  "runtime_name (ClusterCIDR_object obj) = obj_Name obj"
| "runtime_name (OtherObject _ name) = name"

record ListOptions =
  lo_LabelSelector :: string
  lo_FieldSelector :: string
  lo_ResourceVersion :: string

definition no_options :: ListOptions where
  "no_options = \<lparr> lo_LabelSelector = [], lo_FieldSelector = [], lo_ResourceVersion = [] \<rparr>"

datatype testing_Action =
    WatchActionImpl GroupVersionResource string ListOptions
  | OtherAction GroupVersionResource string

fun GetResource :: "testing_Action \<Rightarrow> GroupVersionResource" where
  "GetResource (WatchActionImpl gvr _ _) = gvr"
| "GetResource (OtherAction gvr _) = gvr"

fun GetNamespace :: "testing_Action \<Rightarrow> string" where
  "GetNamespace (WatchActionImpl _ ns _) = ns"
| "GetNamespace (OtherAction _ ns) = ns"

type_synonym ('trk, 'w) watch_reaction = "'trk \<Rightarrow> testing_Action \<Rightarrow> bool \<times> 'w option \<times> go_error option"

record ('sch, 'trk, 'react, 'fake, 'w) TestingLib =
  NewObjectTracker :: "'sch \<Rightarrow> 'trk"
  tracker_Add :: "'trk \<Rightarrow> runtime_Object \<Rightarrow> go_error + 'trk"
  tracker_Get :: "'trk \<Rightarrow> string \<Rightarrow> string \<Rightarrow> runtime_Object option"
  tracker_Watch :: "'trk \<Rightarrow> GroupVersionResource \<Rightarrow> string \<Rightarrow> ListOptions \<Rightarrow> go_error + 'w"
  ObjectReaction :: 'react
  zero_Fake :: 'fake
  AddReactor :: "'fake \<Rightarrow> string \<Rightarrow> string \<Rightarrow> 'react \<Rightarrow> 'fake"
  AddWatchReactor :: "'fake \<Rightarrow> string \<Rightarrow> ('trk, 'w) watch_reaction \<Rightarrow> 'fake"
  InvokesWatch :: "'fake \<Rightarrow> 'trk \<Rightarrow> testing_Action \<Rightarrow> go_error + 'w"

record ('trk, 'fake) fake_Clientset =
  cs_Fake :: 'fake
  cs_discovery :: 'fake
  cs_tracker :: 'trk

fun add_objects :: "('sch, 'trk, 'react, 'fake, 'w) TestingLib \<Rightarrow> 'trk \<Rightarrow> runtime_Object list \<Rightarrow> 'trk outcome" where
  "add_objects tst o1 [] = Ret o1"
| "add_objects tst o1 (obj # objects) =
     (case tracker_Add tst o1 obj of Inl err \<Rightarrow> Panic | Inr o2 \<Rightarrow> add_objects tst o2 objects)"

definition watch_reactor :: "('sch, 'trk, 'react, 'fake, 'w) TestingLib \<Rightarrow> ('trk, 'w) watch_reaction" where
  "watch_reactor tst o1 action =
     (let opts = (case action of WatchActionImpl _ _ options \<Rightarrow> options | OtherAction _ _ \<Rightarrow> no_options);
          gvr = GetResource action;
          ns = GetNamespace action
      in case tracker_Watch tst o1 gvr ns opts of
           Inl err \<Rightarrow> (False, None, Some err)
         | Inr w \<Rightarrow> (True, Some w, None))"

definition NewSimpleClientset ::
    "('sch, 'trk, 'react, 'fake, 'w) TestingLib \<Rightarrow> 'sch \<Rightarrow> runtime_Object list \<Rightarrow> ('trk, 'fake) fake_Clientset outcome" where
  "NewSimpleClientset tst scheme objects =
     (case add_objects tst (NewObjectTracker tst scheme) objects of
        Ret o1 \<Rightarrow>
          let fake = AddWatchReactor tst (AddReactor tst (zero_Fake tst) ''*'' ''*'' (ObjectReaction tst)) ''*'' (watch_reactor tst)
          in Ret \<lparr> cs_Fake = fake, cs_discovery = fake, cs_tracker = o1 \<rparr>
      | Fail e \<Rightarrow> Fail e
      | Panic \<Rightarrow> Panic)"

definition fake_Discovery :: "('trk, 'fake) fake_Clientset \<Rightarrow> 'fake" where
  "fake_Discovery c = cs_discovery c"

definition fake_Tracker :: "('trk, 'fake) fake_Clientset \<Rightarrow> 'trk" where
  "fake_Tracker c = cs_tracker c"

definition IsWatchListSemanticsUnSupported :: "('trk, 'fake) fake_Clientset \<Rightarrow> bool" where
  "IsWatchListSemanticsUnSupported c = True"

record 'fake FakeNetworkingV1 =
  fnv_Fake :: 'fake

definition fake_NetworkingV1 :: "('trk, 'fake) fake_Clientset \<Rightarrow> 'fake FakeNetworkingV1" where
  "fake_NetworkingV1 c = \<lparr> fnv_Fake = cs_Fake c \<rparr>"

text \<open>The result is an interface that holds a nil pointer, so it is not nil itself.\<close>

definition fake_RESTClient :: "'fake FakeNetworkingV1 \<Rightarrow> 'client option option" where
  "fake_RESTClient c = Some None"

record ListMeta =
  lm_ResourceVersion :: string
  lm_Continue :: string

record ClusterCIDRList =
  list_ListMeta :: ListMeta
  list_Items :: "ClusterCIDRObject list"

text \<open>What \<open>gentype.NewFakeClientWithList\<close> is given. A slice of pointers to the items of a list is the list of their values.\<close>

record 'fake fakeClusterCIDRs =
  fcc_Fake :: 'fake
  fcc_namespace :: string
  fcc_resource :: GroupVersionResource
  fcc_kind :: GroupKind
  fcc_copyListMeta :: "ClusterCIDRList \<Rightarrow> ClusterCIDRList \<Rightarrow> ClusterCIDRList"
  fcc_getItems :: "ClusterCIDRList \<Rightarrow> ClusterCIDRObject list"
  fcc_setItems :: "ClusterCIDRList \<Rightarrow> ClusterCIDRObject list \<Rightarrow> ClusterCIDRList"

definition newFakeClusterCIDRs :: "'fake FakeNetworkingV1 \<Rightarrow> 'fake fakeClusterCIDRs" where
  "newFakeClusterCIDRs fake =
     \<lparr> fcc_Fake = fnv_Fake fake, fcc_namespace = [], fcc_resource = WithResource SchemeGroupVersion ''clustercidrs'',
       fcc_kind = v1_Kind ''ClusterCIDR'',
       fcc_copyListMeta = (\<lambda>dst src. dst\<lparr>list_ListMeta := list_ListMeta src\<rparr>),
       fcc_getItems = list_Items,
       fcc_setItems = (\<lambda>list items. list\<lparr>list_Items := items\<rparr>) \<rparr>"

definition fake_ClusterCIDRs :: "'fake FakeNetworkingV1 \<Rightarrow> 'fake fakeClusterCIDRs" where
  "fake_ClusterCIDRs c = newFakeClusterCIDRs c"

definition ClusterCIDRs :: "'client NetworkingV1Client \<Rightarrow> 'client clusterCIDRs" where
  "ClusterCIDRs c = newClusterCIDRs c"

text \<open>A new tracker is empty; it takes an object whose kind the scheme knows unless it has one of its kind and
  name already; a watch goes to the first watch reactor that handles it, and is an error when none does.\<close>

definition testing_law :: "'sch SchemeLib \<Rightarrow> ('sch, 'trk, 'react, 'fake, 'w) TestingLib \<Rightarrow> 'sch \<Rightarrow> ('trk \<Rightarrow> bool) \<Rightarrow> bool" where
  "testing_law sl tst sch valid \<longleftrightarrow>
     valid (NewObjectTracker tst sch) \<and> (\<forall>k n. tracker_Get tst (NewObjectTracker tst sch) k n = None) \<and>
     (\<forall>t obj. valid t \<and> Recognizes sl sch SchemeGroupVersion (runtime_kind obj) \<longrightarrow>
        (case tracker_Add tst t obj of
           Inl _ \<Rightarrow> tracker_Get tst t (runtime_kind obj) (runtime_name obj) \<noteq> None
         | Inr t' \<Rightarrow> valid t' \<and> tracker_Get tst t (runtime_kind obj) (runtime_name obj) = None \<and>
             (\<forall>k n. tracker_Get tst t' k n = (if k = runtime_kind obj \<and> n = runtime_name obj then Some obj else tracker_Get tst t k n)))) \<and>
     (\<forall>react r t a. InvokesWatch tst (AddWatchReactor tst (AddReactor tst (zero_Fake tst) ''*'' ''*'' react) ''*'' r) t a =
        (case r t a of
           (True, Some w, _) \<Rightarrow> Inr w
         | (True, None, Some e) \<Rightarrow> Inl e
         | _ \<Rightarrow> Inl (Errorf ''unhandled watch'')))"

definition cidr_object :: "ClusterCIDRObject list \<Rightarrow> string \<Rightarrow> runtime_Object option" where
  "cidr_object os name = map_of (map (\<lambda>obj. (obj_Name obj, ClusterCIDR_object obj)) os) name"

lemma add_objects_spec:
  assumes law: "testing_law sl tst sch valid" and ready: "Recognizes sl sch SchemeGroupVersion ''ClusterCIDR''" and "valid t"
  defines "get \<equiv> tracker_Get tst"
  shows "case add_objects tst t (map ClusterCIDR_object os) of
      Ret t' \<Rightarrow> distinct (map obj_Name os) \<and> (\<forall>obj \<in> set os. get t ''ClusterCIDR'' (obj_Name obj) = None) \<and>
        (\<forall>n. get t' ''ClusterCIDR'' n = (case cidr_object os n of Some x \<Rightarrow> Some x | None \<Rightarrow> get t ''ClusterCIDR'' n))
    | Fail e \<Rightarrow> False
    | Panic \<Rightarrow> \<not> (distinct (map obj_Name os) \<and> (\<forall>obj \<in> set os. get t ''ClusterCIDR'' (obj_Name obj) = None))"
  using \<open>valid t\<close>
proof (induction os arbitrary: t)
  case (Cons obj os)
  have L: "case tracker_Add tst t' ob of
      Inl _ \<Rightarrow> tracker_Get tst t' (runtime_kind ob) (runtime_name ob) \<noteq> None
    | Inr t2 \<Rightarrow> valid t2 \<and> tracker_Get tst t' (runtime_kind ob) (runtime_name ob) = None \<and>
        (\<forall>k n. tracker_Get tst t2 k n = (if k = runtime_kind ob \<and> n = runtime_name ob then Some ob else tracker_Get tst t' k n))"
    if "valid t' \<and> Recognizes sl sch SchemeGroupVersion (runtime_kind ob)" for t' ob
    using law that unfolding testing_law_def by blast
  have add: "case tracker_Add tst t (ClusterCIDR_object obj) of
       Inl _ \<Rightarrow> get t ''ClusterCIDR'' (obj_Name obj) \<noteq> None
     | Inr t' \<Rightarrow> valid t' \<and> get t ''ClusterCIDR'' (obj_Name obj) = None \<and>
         (\<forall>k n. get t' k n = (if k = ''ClusterCIDR'' \<and> n = obj_Name obj then Some (ClusterCIDR_object obj) else get t k n))"
    using L [of t "ClusterCIDR_object obj"] ready Cons.prems unfolding get_def by (simp split: sum.splits)
  show ?case
  proof (cases "tracker_Add tst t (ClusterCIDR_object obj)")
    case (Inr t1)
    then have t1: "valid t1" "get t ''ClusterCIDR'' (obj_Name obj) = None"
      "\<And>n. get t1 ''ClusterCIDR'' n = (if n = obj_Name obj then Some (ClusterCIDR_object obj) else get t ''ClusterCIDR'' n)"
      using add by auto
    note IH = Cons.IH [OF t1(1)]
    show ?thesis
    proof (cases "add_objects tst t1 (map ClusterCIDR_object os)")
      case (Ret t')
      then have d: "distinct (map obj_Name os)" "\<forall>ob \<in> set os. obj_Name ob \<noteq> obj_Name obj \<and> get t ''ClusterCIDR'' (obj_Name ob) = None"
        and g: "\<forall>n. get t' ''ClusterCIDR'' n = (case cidr_object os n of Some x \<Rightarrow> Some x | None \<Rightarrow> get t1 ''ClusterCIDR'' n)"
        using IH t1(3) by (auto split: if_splits)
      have "cidr_object os (obj_Name obj) = None" using d(2) by (auto simp: cidr_object_def map_of_eq_None_iff)
      then have "get t' ''ClusterCIDR'' n = (case cidr_object (obj # os) n of Some x \<Rightarrow> Some x | None \<Rightarrow> get t ''ClusterCIDR'' n)" for n
        using g t1(3) by (auto simp: cidr_object_def split: option.split)
      then show ?thesis using Inr Ret d t1(2) by auto
    next
      case Panic
      then show ?thesis using IH Inr t1(2,3) by (auto split: if_splits) (metis imageI)
    qed (use IH in simp)
  qed (use add in auto)
qed (simp add: cidr_object_def)

text \<open>The packages of the clientset and of its fake register the same types, and their initialisation
  does not panic: a ClusterCIDR and a list of them are known under \<open>networking.x-k8s.io/v1\<close>. A fake clientset for a list
  of ClusterCIDRs exists exactly when their names are distinct, otherwise its constructor panics; its tracker has
  just these objects; a watch on it is answered by the tracker, for the resource, the namespace and the options of the
  watch, and for any later state of the tracker; and its client names the resource the real client names.\<close>

theorem fake_clientset:
  assumes "scheme_law sl" "fake_init sl = Ret sch" "testing_law sl tst sch valid"
  shows "scheme_init sl = Ret sch \<and> Recognizes sl sch SchemeGroupVersion ''ClusterCIDR'' \<and>
    Recognizes sl sch SchemeGroupVersion ''ClusterCIDRList'' \<and>
    (case NewSimpleClientset tst sch (map ClusterCIDR_object os) of
       Ret cs \<Rightarrow> distinct (map obj_Name os) \<and> (\<forall>n. tracker_Get tst (fake_Tracker cs) ''ClusterCIDR'' n = cidr_object os n) \<and>
         (\<forall>t gvr ns opts w. tracker_Watch tst t gvr ns opts = Inr w \<longrightarrow>
            InvokesWatch tst (fnv_Fake (fake_NetworkingV1 cs)) t (WatchActionImpl gvr ns opts) = Inr w) \<and>
         gvr_Resource (fcc_resource (fake_ClusterCIDRs (fake_NetworkingV1 cs))) = ccs_resource (ClusterCIDRs c) \<and>
         fcc_namespace (fake_ClusterCIDRs (fake_NetworkingV1 cs)) = ccs_namespace (ClusterCIDRs c)
     | Fail e \<Rightarrow> False
     | Panic \<Rightarrow> \<not> distinct (map obj_Name os))"
proof -
  have i: "scheme_init sl = Ret sch" "scheme_ready sl sch" using init_ready [OF assms(1)] assms(2) by auto
  then have r: "Recognizes sl sch SchemeGroupVersion ''ClusterCIDR''" "Recognizes sl sch SchemeGroupVersion ''ClusterCIDRList''"
    using assms(1) by (simp_all add: scheme_ready_def scheme_law_def)
  have e: "valid (NewObjectTracker tst sch)" "\<And>k n. tracker_Get tst (NewObjectTracker tst sch) k n = None"
    and w: "\<And>react r t a. InvokesWatch tst (AddWatchReactor tst (AddReactor tst (zero_Fake tst) ''*'' ''*'' react) ''*'' r) t a =
        (case r t a of (True, Some w, _) \<Rightarrow> Inr w | (True, None, Some e) \<Rightarrow> Inl e | _ \<Rightarrow> Inl (Errorf ''unhandled watch''))"
    using assms(3) unfolding testing_law_def by blast+
  note a = add_objects_spec [OF assms(3) r(1) e(1), of os]
  show ?thesis
  proof (cases "add_objects tst (NewObjectTracker tst sch) (map ClusterCIDR_object os)")
    case (Ret t)
    then show ?thesis using a i(1) r e(2) w
      by (auto simp: NewSimpleClientset_def Let_def fake_Tracker_def fake_NetworkingV1_def fake_ClusterCIDRs_def newFakeClusterCIDRs_def
          ClusterCIDRs_def newClusterCIDRs_def WithResource_def watch_reactor_def split: option.splits)
  qed (use a i(1) r e(2) in \<open>auto simp: NewSimpleClientset_def\<close>)
qed

section \<open>An instance\<close>

type_synonym ref_scheme = "(GroupVersion \<times> string) list"

fun ref_builder :: "(ref_scheme \<Rightarrow> ref_scheme outcome) list \<Rightarrow> ref_scheme \<Rightarrow> ref_scheme outcome" where
  "ref_builder [] s = Ret s"
| "ref_builder (f # fs) s = (case f s of Ret s' \<Rightarrow> ref_builder fs s' | e \<Rightarrow> e)"

definition ref_schemes :: "ref_scheme SchemeLib" where
  "ref_schemes =
     \<lparr> NewScheme = [],
       AddKnownTypes = (\<lambda>s gv names. if \<exists>k \<in> set names. (gv, k) \<in> set s then Panic else Ret (map (Pair gv) names @ s)),
       AddToGroupVersion = (\<lambda>s gv. Ret ((gv, ''WatchEvent'') # s)),
       SchemeBuilder_AddToScheme = ref_builder,
       Recognizes = (\<lambda>s gv k. (gv, k) \<in> set s),
       meta_kinds = [''WatchEvent''] \<rparr>"

type_synonym ref_tracker = "ref_scheme \<times> ((string \<times> string) \<times> runtime_Object) list"

fun ref_InvokesWatch :: "(ref_tracker, nat) watch_reaction list \<Rightarrow> ref_tracker \<Rightarrow> testing_Action \<Rightarrow> go_error + nat" where
  "ref_InvokesWatch [] t a = Inl (Errorf ''unhandled watch'')"
| "ref_InvokesWatch (r # rs) t a =
     (case r t a of
        (True, Some w, _) \<Rightarrow> Inr w
      | (True, None, Some e) \<Rightarrow> Inl e
      | _ \<Rightarrow> ref_InvokesWatch rs t a)"

definition ref_testing :: "(ref_scheme, ref_tracker, unit, (ref_tracker, nat) watch_reaction list, nat) TestingLib" where
  "ref_testing =
     \<lparr> NewObjectTracker = (\<lambda>s. (s, [])),
       tracker_Add = (\<lambda>(s, m) obj.
         if (SchemeGroupVersion, runtime_kind obj) \<notin> set s \<or> map_of m (runtime_kind obj, runtime_name obj) \<noteq> None
         then Inl (Errorf ''already exists'') else Inr (s, ((runtime_kind obj, runtime_name obj), obj) # m)),
       tracker_Get = (\<lambda>(s, m) k n. map_of m (k, n)),
       tracker_Watch = (\<lambda>(s, m) gvr ns opts. Inr (length m)),
       ObjectReaction = (),
       zero_Fake = [],
       AddReactor = (\<lambda>f _ _ _. f),
       AddWatchReactor = (\<lambda>f _ r. f @ [r]),
       InvokesWatch = ref_InvokesWatch \<rparr>"

lemma ref_scheme_law: "scheme_law ref_schemes"
proof -
  have "ref_builder [f] = f" for f by (rule ext) (simp split: outcome.split)
  then show ?thesis by (auto simp: scheme_law_def ref_schemes_def)
qed

lemma ref_testing_law: "testing_law ref_schemes ref_testing s (\<lambda>t. fst t = s)"
  by (auto simp: testing_law_def ref_schemes_def ref_testing_def split: sum.splits bool.split option.split prod.split)

definition demo_cidr :: "string \<Rightarrow> ClusterCIDRObject" where
  "demo_cidr name = \<lparr> obj_Name = name, obj_Generation = 1, obj_ResourceVersion = ''1'', obj_Finalizers = [], obj_DeletionTimestamp = None,
     obj_Spec = \<lparr> spec_NodeSelector = None, PerNodeHostBits = 8, spec_IPv4 = ''10.0.0.0/16'', spec_IPv6 = [] \<rparr> \<rparr>"

theorem fake_clientset_witness:
  "\<exists>sch. scheme_init ref_schemes = Ret sch \<and>
     (\<exists>cs. NewSimpleClientset ref_testing sch (map ClusterCIDR_object [demo_cidr ''a'', demo_cidr ''b'']) = Ret cs \<and>
        tracker_Get ref_testing (fake_Tracker cs) ''ClusterCIDR'' ''b'' = Some (ClusterCIDR_object (demo_cidr ''b''))) \<and>
     NewSimpleClientset ref_testing sch (map ClusterCIDR_object [demo_cidr ''a'', demo_cidr ''a'']) = Panic"
proof -
  obtain sch where s: "fake_init ref_schemes = Ret sch" using init_ready [OF ref_scheme_law] by metis
  note f = fake_clientset [OF ref_scheme_law s ref_testing_law, where c = "\<lparr> restClient = () \<rparr>"]
  have n: "obj_Name (demo_cidr a) = a" for a by (simp add: demo_cidr_def)
  have "case NewSimpleClientset ref_testing sch (map ClusterCIDR_object [demo_cidr ''a'', demo_cidr ''b'']) of
      Ret cs \<Rightarrow> tracker_Get ref_testing (fake_Tracker cs) ''ClusterCIDR'' ''b'' = Some (ClusterCIDR_object (demo_cidr ''b''))
    | Fail _ \<Rightarrow> False | Panic \<Rightarrow> False"
    using f [of "[demo_cidr ''a'', demo_cidr ''b'']"]
    by (cases "NewSimpleClientset ref_testing sch (map ClusterCIDR_object [demo_cidr ''a'', demo_cidr ''b''])")
      (auto simp: n cidr_object_def)
  moreover have "NewSimpleClientset ref_testing sch (map ClusterCIDR_object [demo_cidr ''a'', demo_cidr ''a'']) = Panic"
    using f [of "[demo_cidr ''a'', demo_cidr ''a'']"]
    by (cases "NewSimpleClientset ref_testing sch (map ClusterCIDR_object [demo_cidr ''a'', demo_cidr ''a''])") auto
  ultimately show ?thesis using f by (auto split: outcome.splits)
qed

end
