(* ===== verification/FakeNodes.thy ===== *)
theory FakeNodes
  imports MultiCIDRSet
begin

text \<open>\<open>pkg/controller/ipam/test/utils.go\<close>: the fake node client the tests run the controller against. Its operations hold
  a lock, so each is one step on the record of the lists it keeps. The handler stores copies of nodes and never
  changes a stored node in place, so nodes are values. A send on a wait channel is counted; it needs a receiver.
  JSON and the patch libraries are parameters. An operation returns the pointer, \<open>None\<close> when nil, and the error.\<close>

record 'st test_Node =
  tn_Name :: string
  tn_ResourceVersion :: string
  tn_PodCIDRs :: "string list"
  tn_Status :: 'st

record 'st FakeNodeHandler =
  Existing :: "'st test_Node list"
  CreatedNodes :: "'st test_Node list"
  DeletedNodes :: "'st test_Node list"
  UpdatedNodes :: "'st test_Node list"
  UpdatedNodeStatuses :: "'st test_Node list"
  RequestCount :: nat
  DeleteWaitChan :: "nat option"
  PatchWaitChan :: "nat option"

record 'st Hooks =
  CreateHook :: "('st FakeNodeHandler \<Rightarrow> 'st test_Node \<Rightarrow> bool \<times> 'st FakeNodeHandler) option"
  AsyncCalls :: "('st FakeNodeHandler \<Rightarrow> 'st FakeNodeHandler) list"

type_synonym ('st, 'x) node_result = "'x option \<times> go_error option \<times> 'st FakeNodeHandler"

definition counted :: "'st FakeNodeHandler \<Rightarrow> 'st FakeNodeHandler" where
  "counted m = m\<lparr>RequestCount := RequestCount m + 1\<rparr>"

definition contains_node :: "'st test_Node \<Rightarrow> 'st test_Node list \<Rightarrow> bool" where
  "contains_node node nodes \<longleftrightarrow> list_ex (\<lambda>n. tn_Name node = tn_Name n) nodes"

definition NewNode :: "'st \<Rightarrow> string \<Rightarrow> 'st test_Node" where
  "NewNode capacity name = \<lparr> tn_Name = name, tn_ResourceVersion = [], tn_PodCIDRs = [], tn_Status = capacity \<rparr>"

definition GetUpdatedNodesCopy :: "'st FakeNodeHandler \<Rightarrow> 'st test_Node list" where
  "GetUpdatedNodesCopy m = UpdatedNodes m"

definition node_Create :: "'st Hooks \<Rightarrow> 'st FakeNodeHandler \<Rightarrow> 'st test_Node \<Rightarrow> ('st, 'st test_Node) node_result" where
  "node_Create hooks m node =
     (if list_ex (\<lambda>n. tn_Name n = tn_Name node) (Existing m)
      then (None, Some (Errorf ''already exists''), counted m)
      else (case (case CreateHook hooks of None \<Rightarrow> (True, m) | Some hook \<Rightarrow> hook m node) of
              (True, m1) \<Rightarrow> (Some node, None, counted (m1\<lparr>CreatedNodes := CreatedNodes m1 @ [node]\<rparr>))
            | (False, m1) \<Rightarrow> (None, Some (Errorf ''create error''), counted m1)))"

definition runAsyncCalls :: "'st Hooks \<Rightarrow> 'st FakeNodeHandler \<Rightarrow> 'st FakeNodeHandler" where
  "runAsyncCalls hooks m = fold (\<lambda>a. a) (AsyncCalls hooks) m"

definition named :: "string \<Rightarrow> 'st test_Node list \<Rightarrow> 'st test_Node option" where
  "named name nodes = find (\<lambda>n. tn_Name n = name) nodes"

definition node_Get :: "'st Hooks \<Rightarrow> 'st FakeNodeHandler \<Rightarrow> string \<Rightarrow> ('st, 'st test_Node) node_result" where
  "node_Get hooks m name =
     (let m' = runAsyncCalls hooks (counted m)
      in case named name (UpdatedNodes m) of
           Some n \<Rightarrow> (Some n, None, m')
         | None \<Rightarrow>
             (case named name (Existing m) of
                Some n \<Rightarrow> (Some n, None, m')
              | None \<Rightarrow> (None, Some (Errorf ''not found''), m')))"

fun list_updated :: "'st test_Node list \<Rightarrow> 'st test_Node list \<Rightarrow> 'st test_Node list \<Rightarrow> 'st test_Node list" where
  "list_updated deleted nodes [] = nodes"
| "list_updated deleted nodes (n # ns) = list_updated deleted (if contains_node n deleted then nodes else nodes @ [n]) ns"

fun list_missing :: "'st test_Node list \<Rightarrow> 'st test_Node list \<Rightarrow> 'st test_Node list \<Rightarrow> 'st test_Node list" where
  "list_missing deleted nodes [] = nodes"
| "list_missing deleted nodes (n # ns) =
     list_missing deleted (if contains_node n deleted \<or> contains_node n nodes then nodes else nodes @ [n]) ns"

definition node_List :: "'st FakeNodeHandler \<Rightarrow> 'st test_Node list \<times> 'st FakeNodeHandler" where
  "node_List m =
     (let nodes1 = list_updated (DeletedNodes m) [] (UpdatedNodes m);
          nodes2 = list_missing (DeletedNodes m) nodes1 (Existing m);
          nodes3 = list_missing (DeletedNodes m) nodes2 (CreatedNodes m)
      in (nodes3, counted m))"

definition signal_wait :: "nat option \<Rightarrow> nat option" where
  "signal_wait ch = map_option Suc ch"

definition node_Delete :: "'st \<Rightarrow> 'st FakeNodeHandler \<Rightarrow> string \<Rightarrow> go_error option \<times> 'st FakeNodeHandler" where
  "node_Delete capacity m name =
     (None, (counted (m\<lparr>DeletedNodes := DeletedNodes m @ [NewNode capacity name]\<rparr>))\<lparr>DeleteWaitChan := signal_wait (DeleteWaitChan m)\<rparr>)"

definition node_DeleteCollection :: "'st FakeNodeHandler \<Rightarrow> go_error option \<times> 'st FakeNodeHandler" where
  "node_DeleteCollection m = (None, m)"

fun update_nodes :: "'st test_Node \<Rightarrow> 'st test_Node list \<Rightarrow> go_error + 'st test_Node list" where
  "update_nodes node [] = Inr [node]"
| "update_nodes node (u # us) =
     (if tn_Name u = tn_Name node
      then if tn_ResourceVersion u \<noteq> tn_ResourceVersion node then Inl (Errorf ''fake conflict'') else Inr (node # us)
      else case update_nodes node us of Inl e \<Rightarrow> Inl e | Inr us' \<Rightarrow> Inr (u # us'))"

definition node_Update :: "'st FakeNodeHandler \<Rightarrow> 'st test_Node \<Rightarrow> ('st, 'st test_Node) node_result" where
  "node_Update m node =
     (case update_nodes node (UpdatedNodes m) of
        Inl e \<Rightarrow> (None, Some e, counted m)
      | Inr updated \<Rightarrow> (Some node, None, counted (m\<lparr>UpdatedNodes := updated\<rparr>)))"

fun index_of :: "string \<Rightarrow> 'st test_Node list \<Rightarrow> nat option" where
  "index_of name [] = None"
| "index_of name (n # ns) = (if tn_Name n = name then Some 0 else map_option Suc (index_of name ns))"

definition node_UpdateStatus :: "'st FakeNodeHandler \<Rightarrow> 'st test_Node \<Rightarrow> ('st, 'st test_Node) node_result" where
  "node_UpdateStatus m node =
     (let status = (\<lambda>updated. counted (m\<lparr>UpdatedNodes := updated, UpdatedNodeStatuses := UpdatedNodeStatuses m @ [node]\<rparr>))
      in case index_of (tn_Name node) (UpdatedNodes m) of
           Some i \<Rightarrow> (Some node, None, status ((UpdatedNodes m)[i := (UpdatedNodes m ! i)\<lparr>tn_Status := tn_Status node\<rparr>]))
         | None \<Rightarrow>
             (case named (tn_Name node) (Existing m) of
                Some orig \<Rightarrow> (Some node, None, status (UpdatedNodes m @ [orig\<lparr>tn_Status := tn_Status node\<rparr>]))
              | None \<Rightarrow> (None, Some (Errorf ''not found node''), counted m)))"

section \<open>Patches\<close>

datatype PatchType = JSONPatchType | MergePatchType | StrategicMergePatchType | ApplyPatchType

record ('st, 'js, 'data) PatchLib =
  json_Marshal :: "'st test_Node \<Rightarrow> go_error + 'js"
  json_Unmarshal :: "'js \<Rightarrow> go_error + 'st test_Node"
  jsonpatch_DecodeApply :: "'data \<Rightarrow> 'js \<Rightarrow> go_error + 'js"
  jsonpatch_MergePatch :: "'js \<Rightarrow> 'data \<Rightarrow> go_error + 'js"
  strategicpatch_Merge :: "'js \<Rightarrow> 'data \<Rightarrow> go_error + 'js"
  zero_Node :: "'st test_Node"

text \<open>The loops of \<open>Patch\<close> have no \<open>break\<close>: the last node of the name counts.\<close>

fun last_index :: "string \<Rightarrow> 'st test_Node list \<Rightarrow> nat option" where
  "last_index name [] = None"
| "last_index name (n # ns) =
     (case last_index name ns of Some i \<Rightarrow> Some (Suc i) | None \<Rightarrow> if tn_Name n = name then Some 0 else None)"

definition patch_target :: "('st, 'js, 'data) PatchLib \<Rightarrow> 'st FakeNodeHandler \<Rightarrow> string \<Rightarrow> 'st test_Node" where
  "patch_target lib m name =
     (case last_index name (UpdatedNodes m) of
        Some i \<Rightarrow> UpdatedNodes m ! i
      | None \<Rightarrow> (case last_index name (Existing m) of Some i \<Rightarrow> Existing m ! i | None \<Rightarrow> zero_Node lib))"

definition apply_patch :: "('st, 'js, 'data) PatchLib \<Rightarrow> PatchType \<Rightarrow> 'data \<Rightarrow> 'js \<Rightarrow> 'js option" where
  "apply_patch lib pt data js =
     (let keep = (\<lambda>r. case r of Inl _ \<Rightarrow> None | Inr x \<Rightarrow> Some x)
      in case pt of
           JSONPatchType \<Rightarrow> keep (jsonpatch_DecodeApply lib data js)
         | MergePatchType \<Rightarrow> keep (jsonpatch_MergePatch lib js data)
         | StrategicMergePatchType \<Rightarrow> keep (strategicpatch_Merge lib js data)
         | ApplyPatchType \<Rightarrow> None)"

definition patched_by :: "'st FakeNodeHandler \<Rightarrow> 'st FakeNodeHandler" where
  "patched_by m = (counted m)\<lparr>PatchWaitChan := signal_wait (PatchWaitChan m)\<rparr>"

definition node_Patch ::
    "('st, 'js, 'data) PatchLib \<Rightarrow> 'st FakeNodeHandler \<Rightarrow> string \<Rightarrow> PatchType \<Rightarrow> 'data \<Rightarrow> ('st, 'st test_Node) node_result" where
  "node_Patch lib m name pt data =
     (case json_Marshal lib (patch_target lib m name) of
        Inl e \<Rightarrow> (None, Some e, patched_by m)
      | Inr original \<Rightarrow>
          (case json_Unmarshal lib original of
             Inl _ \<Rightarrow> (None, None, patched_by m)
           | Inr _ \<Rightarrow>
               (case apply_patch lib pt data original of
                  None \<Rightarrow> (None, None, patched_by m)
                | Some patched \<Rightarrow>
                    (case json_Unmarshal lib patched of
                       Inl _ \<Rightarrow> (None, None, patched_by m)
                     | Inr updatedNode \<Rightarrow>
                         (case last_index name (UpdatedNodes m) of
                            None \<Rightarrow> (Some updatedNode, None, patched_by (m\<lparr>UpdatedNodes := UpdatedNodes m @ [updatedNode]\<rparr>))
                          | Some i \<Rightarrow>
                              if tn_ResourceVersion updatedNode \<noteq> tn_ResourceVersion (UpdatedNodes m ! i)
                              then (None, Some (Errorf ''fake conflict''), patched_by m)
                              else (Some updatedNode, None, patched_by (m\<lparr>UpdatedNodes := (UpdatedNodes m)[i := updatedNode]\<rparr>)))))))"

definition node_PatchStatus ::
    "('st, 'js, 'data) PatchLib \<Rightarrow> 'st FakeNodeHandler \<Rightarrow> string \<Rightarrow> 'data \<Rightarrow> ('st, 'st test_Node) node_result" where
  "node_PatchStatus lib m nodeName data = node_Patch lib (counted m) nodeName StrategicMergePatchType data"

text \<open>An apply configuration: the result of marshalling it and its name, which may be missing.\<close>

definition node_Apply ::
    "('st, 'js, 'data) PatchLib \<Rightarrow> 'st FakeNodeHandler \<Rightarrow> go_error + 'data \<Rightarrow> string option \<Rightarrow> ('st, 'st test_Node) node_result" where
  "node_Apply lib m marshalled name =
     (case marshalled of
        Inl e \<Rightarrow> (None, Some e, m)
      | Inr data \<Rightarrow>
          (case name of
             None \<Rightarrow> (None, Some (Errorf ''deployment.Name must be provided to Apply''), m)
           | Some n \<Rightarrow> node_Patch lib m n ApplyPatchType data))"

definition node_ApplyStatus ::
    "('st, 'js, 'data) PatchLib \<Rightarrow> 'st FakeNodeHandler \<Rightarrow> go_error + 'data \<Rightarrow> string option \<Rightarrow> ('st, 'st test_Node) node_result" where
  "node_ApplyStatus lib m marshalled name =
     (case marshalled of
        Inl e \<Rightarrow> (None, Some e, m)
      | Inr data \<Rightarrow>
          (case name of
             None \<Rightarrow> (None, Some (Errorf ''deployment.Name must be provided to Apply''), m)
           | Some n \<Rightarrow> node_Patch lib m n ApplyPatchType data))"

section \<open>The nodes a test sees\<close>

text \<open>The contents of the store by name: updated nodes hide existing and created ones, deleted names are gone.\<close>

definition deleted_names :: "'st FakeNodeHandler \<Rightarrow> string set" where
  "deleted_names m = tn_Name ` set (DeletedNodes m)"

definition node_view :: "'st FakeNodeHandler \<Rightarrow> string \<Rightarrow> 'st test_Node option" where
  "node_view m n = (if n \<in> deleted_names m then None else named n (UpdatedNodes m @ Existing m @ CreatedNodes m))"

definition unique_updates :: "'st FakeNodeHandler \<Rightarrow> bool" where
  "unique_updates m \<longleftrightarrow> distinct (map tn_Name (UpdatedNodes m))"

lemma named_simps [simp]:
  "named n [] = None"
  "named n (x # xs) = (if tn_Name x = n then Some x else named n xs)"
  by (simp_all add: named_def)

lemma named_append: "named n (xs @ ys) = (case named n xs of Some x \<Rightarrow> Some x | None \<Rightarrow> named n ys)"
  by (induction xs) auto

lemma named_None: "named n xs = None \<longleftrightarrow> n \<notin> tn_Name ` set xs"
  by (induction xs) auto

lemma named_Some: "named n xs = Some x \<Longrightarrow> x \<in> set xs \<and> tn_Name x = n"
  by (induction xs) (auto split: if_splits)

lemma contains_iff: "contains_node x xs \<longleftrightarrow> tn_Name x \<in> tn_Name ` set xs"
  by (auto simp: contains_node_def list_ex_iff)

lemma named_filter: "named n (filter (\<lambda>x. tn_Name x \<notin> D) xs) = (if n \<in> D then None else named n xs)"
  by (induction xs) auto

lemma list_updated_filter: "list_updated d nodes us = nodes @ filter (\<lambda>x. tn_Name x \<notin> tn_Name ` set d) us"
  by (induction us arbitrary: nodes) (auto simp: contains_iff)

lemma list_missing_named:
  "named n (list_missing d nodes ns) =
     (case named n nodes of Some x \<Rightarrow> Some x | None \<Rightarrow> if n \<in> tn_Name ` set d then None else named n ns)"
proof (induction ns arbitrary: nodes)
  case (Cons x ns)
  show ?case
    using Cons.IH named_None [of "tn_Name x" nodes] by (auto simp: contains_iff named_append split: option.splits)
qed (auto split: option.splits)

lemma list_missing_distinct: "distinct (map tn_Name nodes) \<Longrightarrow> distinct (map tn_Name (list_missing d nodes ns))"
  by (induction ns arbitrary: nodes) (auto simp: contains_iff)

lemma node_List_view:
  assumes "unique_updates m"
  shows "named n (fst (node_List m)) = node_view m n" "distinct (map tn_Name (fst (node_List m)))"
proof -
  show "named n (fst (node_List m)) = node_view m n"
    by (auto simp: node_List_def Let_def list_missing_named list_updated_filter named_filter node_view_def deleted_names_def
        named_append split: option.split)
  have "distinct (map tn_Name (filter (\<lambda>x. tn_Name x \<notin> D) (UpdatedNodes m)))" for D
    using assms by (simp add: unique_updates_def distinct_map_filter)
  then show "distinct (map tn_Name (fst (node_List m)))"
    by (simp add: node_List_def Let_def list_updated_filter list_missing_distinct)
qed

lemma update_nodes_named:
  "update_nodes node us = Inr us' \<Longrightarrow> named n us' = (if n = tn_Name node then Some node else named n us)"
  by (induction us arbitrary: us') (auto split: if_splits sum.splits)

lemma update_nodes_names:
  "update_nodes node us = Inr us' \<Longrightarrow> map tn_Name us' =
     (if tn_Name node \<in> set (map tn_Name us) then map tn_Name us else map tn_Name us @ [tn_Name node])"
  by (induction us arbitrary: us') (auto split: if_splits sum.splits)

lemma named_update:
  assumes "distinct (map tn_Name us)" "i < length us" "tn_Name u = tn_Name (us ! i)"
  shows "named n (us[i := u]) = (if n = tn_Name u then Some u else named n us)" "map tn_Name (us[i := u]) = map tn_Name us"
proof -
  show "named n (us[i := u]) = (if n = tn_Name u then Some u else named n us)" using assms
  proof (induction us arbitrary: i)
    case (Cons x us)
    show ?case
    proof (cases i)
      case (Suc j)
      have "tn_Name (us ! j) \<in> tn_Name ` set us" using Cons.prems(2) Suc by simp
      then have "tn_Name x \<noteq> tn_Name u" using Cons.prems(1,3) Suc by auto
      then show ?thesis using Cons.IH [of j] Cons.prems Suc by auto
    qed (use Cons.prems in auto)
  qed simp
  show "map tn_Name (us[i := u]) = map tn_Name us" using assms(2,3) by (simp add: map_update list_update_same_conv)
qed

lemma index_of_Some: "index_of name us = Some i \<Longrightarrow> i < length us \<and> tn_Name (us ! i) = name"
  by (induction us arbitrary: i) (auto split: if_splits)

lemma index_of_None: "index_of name us = None \<Longrightarrow> named name us = None"
  by (induction us) (auto split: if_splits)

lemma last_index_Some: "last_index name us = Some i \<Longrightarrow> i < length us \<and> tn_Name (us ! i) = name"
  by (induction us arbitrary: i) (auto split: if_splits option.splits)

lemma last_index_None: "last_index name us = None \<Longrightarrow> named name us = None"
  by (induction us) (auto split: if_splits option.splits)

lemmas view_simps = node_view_def deleted_names_def unique_updates_def counted_def patched_by_def

text \<open>Every way to write the updated nodes puts one node under its name.\<close>

definition puts :: "'st FakeNodeHandler \<Rightarrow> 'st test_Node \<Rightarrow> 'st FakeNodeHandler \<Rightarrow> bool" where
  "puts m u m' \<longleftrightarrow> unique_updates m' \<and>
     node_view m' = (node_view m)(tn_Name u := if tn_Name u \<in> deleted_names m then None else Some u)"

lemma puts_intro:
  assumes "Existing m' = Existing m" "CreatedNodes m' = CreatedNodes m" "DeletedNodes m' = DeletedNodes m"
    "distinct (map tn_Name (UpdatedNodes m'))" "\<And>n. named n (UpdatedNodes m') = (if n = tn_Name u then Some u else named n (UpdatedNodes m))"
  shows "puts m u m'"
  using assms by (auto simp: puts_def view_simps named_append fun_eq_iff)

lemma puts_append:
  assumes "unique_updates m" "named (tn_Name u) (UpdatedNodes m) = None" "UpdatedNodes m' = UpdatedNodes m @ [u]"
    "Existing m' = Existing m" "CreatedNodes m' = CreatedNodes m" "DeletedNodes m' = DeletedNodes m"
  shows "puts m u m'"
proof (rule puts_intro)
  show "distinct (map tn_Name (UpdatedNodes m'))" using assms(1-3) by (auto simp: unique_updates_def named_None)
  show "named n (UpdatedNodes m') = (if n = tn_Name u then Some u else named n (UpdatedNodes m))" for n
    using assms(2,3) by (cases "n = tn_Name u") (simp_all add: named_append split: option.split)
qed (use assms in auto)

lemma puts_replace:
  assumes "unique_updates m" "i < length (UpdatedNodes m)" "tn_Name u = tn_Name (UpdatedNodes m ! i)" "UpdatedNodes m' = (UpdatedNodes m)[i := u]"
    "Existing m' = Existing m" "CreatedNodes m' = CreatedNodes m" "DeletedNodes m' = DeletedNodes m"
  shows "puts m u m'"
  using assms named_update [of "UpdatedNodes m" i u] by (intro puts_intro) (simp_all add: unique_updates_def)

lemma node_Update_puts:
  assumes "unique_updates m" "node_Update m node = (res, err, m')"
  shows "(err = None \<and> res = Some node \<and> puts m node m') \<or> (err \<noteq> None \<and> res = None \<and> node_view m' = node_view m \<and> unique_updates m')"
proof (cases "update_nodes node (UpdatedNodes m)")
  case (Inr us)
  then have "puts m node (counted (m\<lparr>UpdatedNodes := us\<rparr>))"
    using assms(1) update_nodes_named [OF Inr] update_nodes_names [OF Inr] by (intro puts_intro) (auto simp: view_simps)
  then show ?thesis using assms(2) Inr by (auto simp: node_Update_def)
qed (use assms in \<open>auto simp: node_Update_def view_simps\<close>)

lemma node_UpdateStatus_puts:
  assumes "unique_updates m" "node_UpdateStatus m node = (res, err, m')"
  shows "(err = None \<and> res = Some node \<and> (\<exists>u. tn_Name u = tn_Name node \<and> tn_Status u = tn_Status node \<and> puts m u m')) \<or>
    (err \<noteq> None \<and> res = None \<and> node_view m' = node_view m \<and> unique_updates m')"
proof -
  let ?st = "\<lambda>updated. counted (m\<lparr>UpdatedNodes := updated, UpdatedNodeStatuses := UpdatedNodeStatuses m @ [node]\<rparr>)"
  show ?thesis
  proof (cases "index_of (tn_Name node) (UpdatedNodes m)")
    case (Some i)
    let ?u = "(UpdatedNodes m ! i)\<lparr>tn_Status := tn_Status node\<rparr>"
    note i = index_of_Some [OF Some]
    have "puts m ?u (?st ((UpdatedNodes m)[i := ?u]))"
      using assms(1) i by (intro puts_replace) (simp_all add: counted_def)
    then show ?thesis using assms(2) Some i
      by (intro disjI1 conjI exI [of _ ?u]) (simp_all add: node_UpdateStatus_def Let_def)
  next
    case None
    note n = index_of_None [OF None]
    show ?thesis
    proof (cases "named (tn_Name node) (Existing m)")
      case (Some orig)
      let ?u = "orig\<lparr>tn_Status := tn_Status node\<rparr>"
      have o: "tn_Name orig = tn_Name node" using named_Some [OF Some] by simp
      have "puts m ?u (?st (UpdatedNodes m @ [?u]))"
        using assms(1) n o by (intro puts_append) (simp_all add: counted_def)
      then show ?thesis using assms(2) None Some o
        by (intro disjI1 conjI exI [of _ ?u]) (simp_all add: node_UpdateStatus_def Let_def)
    qed (use assms None in \<open>auto simp: node_UpdateStatus_def view_simps\<close>)
  qed
qed

lemma node_Patch_puts:
  assumes "unique_updates m" "node_Patch lib m name pt data = (res, err, m')"
  shows "(\<exists>u. res = Some u \<and> err = None \<and> (tn_Name u = name \<longrightarrow> puts m u m')) \<or>
    (res = None \<and> node_view m' = node_view m \<and> unique_updates m')"
proof (cases "\<exists>js js' u. json_Marshal lib (patch_target lib m name) = Inr js \<and> apply_patch lib pt data js = Some js' \<and>
    json_Unmarshal lib js' = Inr u \<and> (\<exists>o1. json_Unmarshal lib js = Inr o1)")
  case True
  then obtain js js' u o1 where p: "json_Marshal lib (patch_target lib m name) = Inr js" "json_Unmarshal lib js = Inr o1"
    "apply_patch lib pt data js = Some js'" "json_Unmarshal lib js' = Inr u" by blast
  show ?thesis
  proof (cases "last_index name (UpdatedNodes m)")
    case None
    then have "puts m u (patched_by (m\<lparr>UpdatedNodes := UpdatedNodes m @ [u]\<rparr>))" if "tn_Name u = name"
      using assms(1) last_index_None [OF None] that by (intro puts_append) (simp_all add: patched_by_def counted_def)
    then show ?thesis using assms(2) p None by (auto simp: node_Patch_def)
  next
    case (Some i)
    have "puts m u (patched_by (m\<lparr>UpdatedNodes := (UpdatedNodes m)[i := u]\<rparr>))" if "tn_Name u = name"
      using assms(1) last_index_Some [OF Some] that by (intro puts_replace) (simp_all add: patched_by_def counted_def)
    then show ?thesis using assms p Some by (auto simp: node_Patch_def view_simps split: if_splits)
  qed
next
  case False
  then show ?thesis using assms
    by (auto simp: node_Patch_def view_simps split: sum.splits option.splits)
qed

lemma update_nodes_conflict:
  "(\<exists>e. update_nodes node us = Inl e) \<longleftrightarrow>
     (\<exists>u. named (tn_Name node) us = Some u \<and> tn_ResourceVersion u \<noteq> tn_ResourceVersion node)"
  by (induction us) (auto split: sum.splits)

text \<open>The fake node client as a map from names to nodes. \<open>List\<close> returns the contents of this map, each name
  once: updated nodes before existing and created ones, deleted names not at all. \<open>Update\<close> puts the node under its
  name, unless an updated node of the name has another resource version, which is a conflict and changes nothing, and
  \<open>Get\<close> then returns the node; \<open>Delete\<close> removes the name. \<open>UpdateStatus\<close> and a successful \<open>Patch\<close> that keeps the name
  put one node, an unsuccessful one changes nothing. \<open>Apply\<close> and \<open>ApplyStatus\<close> never change a node and never return
  one, although they report no error for a node that can be marshalled.\<close>

theorem fake_nodes:
  assumes "unique_updates m"
  shows "(\<forall>n. named n (fst (node_List m)) = node_view m n) \<and> distinct (map tn_Name (fst (node_List m))) \<and>
    (case node_Update m node of
       (res, None, m') \<Rightarrow> puts m node m' \<and> fst (node_Get hooks m' (tn_Name node)) = Some node
     | (res, Some e, m') \<Rightarrow> node_view m' = node_view m \<and>
         (\<exists>u. named (tn_Name node) (UpdatedNodes m) = Some u \<and> tn_ResourceVersion u \<noteq> tn_ResourceVersion node)) \<and>
    (case node_UpdateStatus m node of
       (res, None, m') \<Rightarrow> \<exists>u. tn_Name u = tn_Name node \<and> tn_Status u = tn_Status node \<and> puts m u m'
     | (res, Some e, m') \<Rightarrow> node_view m' = node_view m) \<and>
    (case node_Patch lib m name pt data of
       (Some u, err, m') \<Rightarrow> err = None \<and> (tn_Name u = name \<longrightarrow> puts m u m')
     | (None, err, m') \<Rightarrow> node_view m' = node_view m) \<and>
    node_view (snd (node_Delete capacity m name)) = (node_view m)(name := None) \<and>
    (case node_Apply lib m (Inr data) (Some name) of
       (res, err, m') \<Rightarrow> res = None \<and> node_view m' = node_view m \<and>
         (err = None \<longleftrightarrow> (\<exists>js. json_Marshal lib (patch_target lib m name) = Inr js))) \<and>
    node_ApplyStatus lib m (Inr data) (Some name) = node_Apply lib m (Inr data) (Some name)"
proof (intro conjI)
  show "\<forall>n. named n (fst (node_List m)) = node_view m n" "distinct (map tn_Name (fst (node_List m)))"
    using node_List_view [OF assms] by auto
  show "case node_Update m node of
       (res, None, m') \<Rightarrow> puts m node m' \<and> fst (node_Get hooks m' (tn_Name node)) = Some node
     | (res, Some e, m') \<Rightarrow> node_view m' = node_view m \<and>
         (\<exists>u. named (tn_Name node) (UpdatedNodes m) = Some u \<and> tn_ResourceVersion u \<noteq> tn_ResourceVersion node)"
  proof (cases "update_nodes node (UpdatedNodes m)")
    case (Inl e)
    then show ?thesis using update_nodes_conflict [of node "UpdatedNodes m"] by (auto simp: node_Update_def view_simps)
  next
    case (Inr us)
    then show ?thesis using node_Update_puts [OF assms, of node] update_nodes_named [OF Inr, of "tn_Name node"]
      by (auto simp: node_Update_def node_Get_def Let_def counted_def)
  qed
  show "case node_UpdateStatus m node of
       (res, None, m') \<Rightarrow> \<exists>u. tn_Name u = tn_Name node \<and> tn_Status u = tn_Status node \<and> puts m u m'
     | (res, Some e, m') \<Rightarrow> node_view m' = node_view m"
    using node_UpdateStatus_puts [OF assms, of node] by (cases "node_UpdateStatus m node") (auto split: option.split)
  show "case node_Patch lib m name pt data of
       (Some u, err, m') \<Rightarrow> err = None \<and> (tn_Name u = name \<longrightarrow> puts m u m')
     | (None, err, m') \<Rightarrow> node_view m' = node_view m"
    using node_Patch_puts [OF assms, of lib name pt data] by (cases "node_Patch lib m name pt data") (auto split: option.split)
  show "node_view (snd (node_Delete capacity m name)) = (node_view m)(name := None)"
    by (auto simp: node_Delete_def view_simps NewNode_def fun_eq_iff)
  show "case node_Apply lib m (Inr data) (Some name) of
       (res, err, m') \<Rightarrow> res = None \<and> node_view m' = node_view m \<and>
         (err = None \<longleftrightarrow> (\<exists>js. json_Marshal lib (patch_target lib m name) = Inr js))"
    by (auto simp: node_Apply_def node_Patch_def apply_patch_def view_simps split: sum.split)
qed (simp add: node_Apply_def node_ApplyStatus_def)

definition demo_nodes :: "nat FakeNodeHandler" where
  "demo_nodes = \<lparr> Existing = [NewNode 10 ''n0''], CreatedNodes = [NewNode 10 ''n1''], DeletedNodes = [], UpdatedNodes = [],
     UpdatedNodeStatuses = [], RequestCount = 0, DeleteWaitChan = None, PatchWaitChan = None \<rparr>"

definition demo_patches :: "(nat, nat test_Node, string list) PatchLib" where
  "demo_patches = \<lparr> json_Marshal = Inr, json_Unmarshal = Inr, jsonpatch_DecodeApply = (\<lambda>_ _. Inl (Errorf ''no patch'')),
     jsonpatch_MergePatch = (\<lambda>js d. Inr (js\<lparr>tn_PodCIDRs := d\<rparr>)), strategicpatch_Merge = (\<lambda>js d. Inr (js\<lparr>tn_PodCIDRs := d\<rparr>)),
     zero_Node = NewNode 0 [] \<rparr>"

theorem fake_nodes_witness:
  "map tn_Name (fst (node_List demo_nodes)) = [''n0'', ''n1''] \<and>
   (\<exists>u m'. node_Patch demo_patches demo_nodes ''n0'' StrategicMergePatchType [''10.0.0.0/28''] = (Some u, None, m') \<and>
      tn_PodCIDRs u = [''10.0.0.0/28''] \<and> puts demo_nodes u m') \<and>
   node_view (snd (node_Delete 10 demo_nodes ''n0'')) ''n0'' = None"
proof -
  have "unique_updates demo_nodes" by (simp add: unique_updates_def demo_nodes_def)
  note f = fake_nodes [OF this, where lib = demo_patches and name = "''n0''" and pt = StrategicMergePatchType and
      data = "[''10.0.0.0/28'']" and capacity = 10]
  have p: "\<exists>u m'. node_Patch demo_patches demo_nodes ''n0'' StrategicMergePatchType [''10.0.0.0/28''] = (Some u, None, m') \<and>
      tn_PodCIDRs u = [''10.0.0.0/28''] \<and> tn_Name u = ''n0''"
    by (simp add: node_Patch_def demo_patches_def demo_nodes_def NewNode_def patch_target_def apply_patch_def Let_def)
  have l: "map tn_Name (fst (node_List demo_nodes)) = [''n0'', ''n1'']"
    by (simp add: node_List_def demo_nodes_def NewNode_def Let_def contains_node_def)
  have d: "node_view (snd (node_Delete 10 demo_nodes ''n0'')) ''n0'' = None" using f by simp
  from p f show ?thesis using l d by fastforce
qed

end
