(* ===== verification/Spec2Isabelle.thy ===== *)
theory Spec2Isabelle
  imports CRDRules Shutdown DeepCopy FakeClient FakeNodes
begin

text \<open>A verification development for the Kubernetes node IPAM controller (\<open>sigs.k8s.io/node-ipam-controller\<close>).

  \<^bold>\<open>The program.\<close> The controller watches \<open>ClusterCIDR\<close> resources, each an IPv4 and/or an IPv6 range with a node
  selector and a number of host bits per node, and gives every node one block of addresses (a pod CIDR) per
  address family of a matching \<open>ClusterCIDR\<close>. \<open>main.go\<close> builds clients and informers and calls
  \<open>NewMultiCIDRRangeAllocator\<close>; informer callbacks put keys on two work queues; workers take them and call
  \<open>syncClusterCIDR\<close> and \<open>syncNode\<close>, which run the operations of the allocator under one lock. The allocator keeps
  internal \<open>ClusterCIDR\<close> objects in the map \<open>cidrMap\<close> from selector texts to lists of objects; each object has a
  \<open>MultiCIDRSet\<close> per configured family, and a set records the blocks in use under their texts.

  \<^bold>\<open>Theories, in the order of the program.\<close>
  \<^item> \<open>Prelude\<close>, \<open>GoBits\<close>, \<open>GoNet\<close>, \<open>GoNetString\<close>, \<open>GoHeap\<close>: byte strings and numbers, Go's integers at their width, the
    parts of the packages \<open>net\<close>, \<open>encoding/binary\<close> and \<open>container/heap\<close> the program uses. The locale \<open>heap_client\<close> of
    \<open>GoHeap\<close> states what a comparison has to fulfil and proves that pushing and popping sorts.
  \<^item> \<open>MultiCIDRSet\<close>: \<open>multicidrset/multi_cidr_set.go\<close>, one definition per method. \<open>CIDRGeometry\<close> proves the address
    arithmetic (\<open>indexToCIDRBlock\<close>, \<open>getIndexForIP\<close>, \<open>getBeginningAndEndIndices\<close>) equal to the description of
    blocks as runs of addresses, in both families; \<open>CIDRSetOps\<close> has the invariant \<open>wf_set\<close> and the effect of each
    method on the set \<open>used\<close> of block numbers; \<open>CIDRPool\<close> states the contract of a pool of blocks as a locale and
    interprets it on the set; \<open>NetUtilsRef\<close> has the instance of \<open>k8s.io/utils/net\<close>; \<open>CIDRSetProps\<close> the properties.
  \<^item> \<open>PriorityQueue\<close>: the internal objects, held in a store by address, and \<open>multi_cidr_priority_queue.go\<close>, an
    interpretation of \<open>heap_client\<close>.
  \<^item> \<open>ApiTypes\<close>, \<open>Selector\<close>, \<open>LabelsRef\<close>: \<open>types.go\<close>, the selector functions at the end of
    \<open>multi_cidr_range_allocator.go\<close>, and the labels package as a parameter with a law and an instance.
  \<^item> \<open>Allocator\<close>: every operation of \<open>multi_cidr_range_allocator.go\<close> that runs under the lock. A state is the record
    \<open>allocator\<close>: the store \<open>objs\<close>, \<open>cidrMap\<close> as an association list whose order stands for the iteration order of
    the Go map (the theorems hold for every order), and the calls made so far on the API server, the event
    recorder and the work queues. The answers of the API server and of the listers are the record \<open>Api\<close>.
  \<^item> \<open>Controller\<close>, \<open>WorkQueue\<close>: start-up, informer callbacks, sync handlers and worker loops. The locale
    \<open>work_handler\<close> of \<open>WorkQueue\<close> is interpreted on the node and the ClusterCIDR handler.
  \<^item> \<open>AllocatorLemmas\<close>, \<open>MatchingOrder\<close>, \<open>AllocatorSafety\<close>, \<open>AllocatorOps\<close>, \<open>ClusterCIDRLife\<close>, \<open>Outcomes\<close>: the invariant
    \<open>wf_alloc\<close> of the state and what every operation does to the blocks in use (\<open>busy\<close>), the associated nodes and
    the mapped objects.
  \<^item> \<open>System\<close>, \<open>Ledger\<close>: the controller over time as the step relation \<open>system\<close>, with the list of grants (what was
    written to nodes and not released) as a ghost component; the abstract ledger it refines.
  \<^item> \<open>Validation\<close>: \<open>pkg/apis/clustercidr/v1/validation/validation.go\<close>.
  \<^item> \<open>InformerFactory\<close>: the generated informer factory, the ClusterCIDR informer and its lister, with the goroutines
    it starts as steps (\<open>factory_step\<close>); the locale \<open>informer_sharing\<close> is the interface the clients of a factory rely
    on. \<open>ClientSet\<close>: the generated clientset constructors, on a store of configurations since they copy and
    change what pointers point to. \<open>DeepCopy\<close>: the generated deep copies on an explicit heap; the locale
    \<open>deep_copier\<close> is their contract, and structs, options, pairs, lists and pointers keep it.
  \<^item> \<open>RunLoop\<close>: \<open>Run\<close> with its workers, the informer callbacks and the shutdown as events of \<open>run_step\<close>. \<open>Signals\<close>: the
    handler of shutdown signals. \<open>Program\<close>: \<open>main.go\<close> and \<open>leaderelection.go\<close>; the program is the list of what it does
    (\<open>action\<close>) with the answers of flags, environment, client constructors and leader election (\<open>Environment\<close>).
  \<^item> \<open>CrashFree\<close>: under which condition on the address families no handler, and so neither start-up nor \<open>Run\<close>, panics.
  \<^item> \<open>WebServer\<close>: \<open>pkg/util/server/server.go\<close>, its routes and its goroutines as steps (\<open>web_step\<close>). \<open>Shutdown\<close>: signals, \<open>Run\<close> and
    the web server together.
  \<^item> \<open>CRDRules\<close>: the validation markers of \<open>types.go\<close>, as the API server evaluates them on objects with absent fields, and
    what the controller does with objects they admit.
  \<^item> \<open>FakeClient\<close>: the registration of types with schemes and the generated fake clientset. \<open>FakeNodes\<close>: the fake node
    client of \<open>pkg/controller/ipam/test/utils.go\<close> as a map from names to nodes.
  \<^item> \<open>Demo\<close>: a concrete cluster for the instances of the theorems. \<open>QueueProps\<close>, \<open>AllocProps\<close>, \<open>NodeProps\<close> and
    \<open>LifeProps\<close> hold the properties of the choice of objects, of allocation and occupation, of release, service
    ranges and node updates, and of the life and validation of ClusterCIDRs; this theory has those of the
    whole controller and of the program.

  \<^bold>\<open>What the theorems show.\<close> Blocks partition a range and are found by index and by address; \<open>Occupy\<close> and \<open>Release\<close>
  mark and free exactly the blocks a CIDR touches; \<open>NextCandidate\<close> is fair; an allocation returns a block that
  overlaps nothing in use in any object, or there is none; objects are tried in the documented priority;
  CIDRs already on nodes, and service ranges, are never given to another node; deletion waits for the nodes;
  a failed update gives the blocks back unless its outcome is unknown; in every reachable state, from start-up
  through any sequence of work items, no two nodes hold overlapping CIDRs; the program starts the controller
  only as leader when it has to, with its informer running, and all its interleavings keep that safety;
  it never crashes when every ClusterCIDR has a range of each family in which nodes have pod CIDRs;
  informers are shared, run once and are gone after \<open>Shutdown\<close>; constructors leave the configuration of their
  caller alone; a deep copy shares no memory; one signal cancels, two end the process, and after the first the
  workers and the web server can end in a bounded number of steps; the web server answers the probes until it is
  shut down; exactly which objects and updates the API server admits; the fakes hold what was put into them. Some theorems state behaviour that
  differs from what comments say: the nil set of an unconfigured family, the IPv4 block kept when IPv6 fails,
  the terminating default object, node masks compared across families; the leader election id is an identity,
  not the name of a lock; fields documented as immutable can be added and removed, which leaves objects behind, and
  negative host bits are admitted.

  \<^bold>\<open>Errors, loops and bounds.\<close> A fallible function returns \<open>outcome\<close>: a value, an error, or \<open>Panic\<close> for a nil
  dereference or an index out of range. Errors keep the fixed part of the message and the wrapped error, not the
  formatted arguments. Loops over blocks and over candidates recurse on a count that starts at \<open>MaxCIDRs\<close>, as
  the Go loops do, and the lemmas show that this count suffices; \<open>listClusterCIDRs\<close> and the patch loop have the
  bounds 11 and 3 of the code. The worker loops end with the shutdown of their queue, which is an input. Go \<open>int\<close> values are \<open>int\<close>, with the conversions to \<open>uint32\<close>, \<open>uint64\<close> and \<open>int32\<close>
  written out where the code has them.

  \<^bold>\<open>Hypotheses.\<close> \<open>netutils_ok\<close>: \<open>IsIPv4\<close>, \<open>IsIPv6\<close> and their CIDR variants decide the family, and \<open>ParseCIDRSloppy\<close>
  reads back what \<open>IPNet.String\<close> prints for a canonical network. \<open>labels_law\<close>: a selector printed and parsed has
  the same requirements. \<open>pods_ok\<close>, \<open>spec_ok\<close> and \<open>canonical_text\<close> say that texts, where they parse, parse to
  canonical networks. \<open>releasable\<close>: the pod CIDRs of a deleted node are its own or overlap no grant of another
  node. \<open>event_ok\<close> asks the same of every event of \<open>Run\<close>. \<open>spec_serves\<close>, \<open>pods_within\<close> and
  \<open>event_within\<close> add the address families to these conditions. \<open>lib_copies\<close>: the deep copies of metadata and node
  selectors are deep. \<open>scheme_law\<close> and \<open>testing_law\<close>: what the fake clientset relies on of schemes and of the object tracker. All are met by the instances \<open>ref_netutils\<close> and \<open>ref_labels\<close> on the concrete cluster. IPv6 ranges inside
  \<open>::/80\<close>, which contain the IPv4-mapped addresses, are outside of \<open>wf_set\<close>.

  \<^bold>\<open>Atomicity.\<close> A work item and the release of a deleted node hold \<open>r.lock\<close> while they change the allocator, and the
  methods of the factory hold its lock, so interleavings are sequences of whole handlers. A callback of the leader
  election is one step.

  \<^bold>\<open>Not modelled.\<close> Logging, time and rate limits; the registration of metrics; codecs; \<open>Watch\<close>, the polling helper and the
  informer of the test utilities, which only call libraries; documentation files and interface types without code. The
  informers, REST clients, work queues and the leader election of client-go, schemes and the object tracker, flag
  parsing, the evaluation of CIDR functions in rules and the API server are parameters; that
  the election gives the lead to one identity at a time is not assumed, and nothing is claimed about two processes.\<close>

section \<open>The controller over time\<close>



text \<open>A run: one ClusterCIDR is created, then a node is synced twice.\<close>

definition run0 :: allocator where
  "run0 = fst (createClusterCIDR ref_netutils ref_labels (demo_api False) empty_allocator (demo_object []) False)"

definition run1 :: allocator where
  "run1 = fst (AllocateOrOccupyCIDR ref_netutils ref_labels (demo_api False) run0 (Some (demo_node [])))"

definition run2 :: allocator where
  "run2 = fst (AllocateOrOccupyCIDR ref_netutils ref_labels (demo_api False) run1 (Some (demo_node [])))"

definition run_grants :: "grant list" where
  "run_grants = granted ref_netutils ref_labels (demo_api False) run1 (demo_node []) @
     granted ref_netutils ref_labels (demo_api False) run0 (demo_node [])"

lemma demo_spec_ok: "spec_ok ref_netutils (obj_Spec (demo_object fins))"
proof -
  have "obj_Spec (demo_object fins) = obj_Spec (demo_object [])" by (simp add: demo_object_def)
  moreover have "spec_ok ref_netutils (obj_Spec (demo_object []))"
    using valid_spec_ok [OF demo_valid] by (simp add: demo_object_def demo_texts)
  ultimately show ?thesis by simp
qed

lemma run_reachable: "system ref_netutils ref_labels run2 run_grants"
proof -
  have pods: "pods_ok ref_netutils (node_PodCIDRs (demo_node []))" by (simp add: demo_node_def pods_ok_def)
  have "system ref_netutils ref_labels run0 []"
    unfolding run0_def
    by (rule system.create [OF system.initial demo_spec_ok surjective_pairing])
  then have "system ref_netutils ref_labels run1 (granted ref_netutils ref_labels (demo_api False) run0 (demo_node []))"
    using system.node_sync [OF _ pods surjective_pairing, of ref_labels run0 "[]" "demo_api False"] by (simp add: run1_def)
  then show ?thesis
    unfolding run2_def run_grants_def by (rule system.node_sync [OF _ pods surjective_pairing])
qed

lemma run0_created:
  obtains c w where "run0 = emit w (mapClusterCIDRSet empty_allocator ''env=prod'' c)" "wf_cc c" "\<not> Terminating c"
    "\<And>f s. get_set f c = Some s \<Longrightarrow> used s = {}"
proof -
  obtain c where c: "createClusterCIDRSet ref_netutils (demo_object []) False = Ret c" "has_set c"
    using demo_created unfolding has_set_def by blast
  obtain w where "run0 = emit w (mapClusterCIDRSet empty_allocator ''env=prod'' c)"
    using createClusterCIDR_success [OF demo_key c, of "demo_api False" empty_allocator] by (auto simp: run0_def)
  then show ?thesis using that createClusterCIDRSet_spec(2) [OF ref_netutils_ok demo_spec_ok c] by blast
qed

lemma run_grants_nonempty: "run_grants \<noteq> []"
proof -
  obtain c w where r0: "run0 = emit w (mapClusterCIDRSet empty_allocator ''env=prod'' c)" and c: "wf_cc c" "\<not> Terminating c"
    and u: "\<And>f s. get_set f c = Some s \<Longrightarrow> used s = {}"
    by (rule run0_created) blast
  have st: "objs run0 = [c]" "cidrMap run0 = [(''env=prod'', [0])]"
    by (simp_all add: r0 mapClusterCIDRSet_def empty_allocator_def)
  have w: "wf_alloc run0" using c(1) st by (simp add: wf_alloc_def mapped_def)
  have o: "orderedMatchingClusterCIDRs ref_labels run0 (demo_node []) True = Ret [0]"
    using demo_ordered_first [of run0 "[]"] st c(2) by simp
  have nc: "\<not> conflicts run0 d" for d
    using u st by (auto simp: conflicts_def mapped_def busy_def split: option.splits)
  have "\<exists>i. in_range s i \<and> i \<notin> used s \<and> \<not> conflicts run0 (blk s i)" if "get_set f (objs run0 ! 0) = Some s" for f s
  proof -
    have "get_set f c = Some s" using that st by simp
    then have s: "wf_set s" "used s = {}" using c(1) u [of f s] by (simp_all add: wf_cc_def)
    show ?thesis using nc wf_setD(4) [OF s(1)] s(2) by (intro exI [of _ "nextCandidate s"]) simp
  qed
  then obtain r' cs where p: "prioritizedCIDRs ref_netutils ref_labels run0 (demo_node []) = (r', Ret (cs, 0))"
    using first_object_allocates [OF ref_netutils_ok w o] by blast
  have ne: "cs \<noteq> []" using prioritized_spec [OF ref_netutils_ok w p] by (auto simp: fresh_grant_def)
  have "snd (patch_loop (demo_api False) r' ''n0'' (ipnetToStringList cs) cidrUpdateRetries 0 None) = None"
    by (simp add: cidrUpdateRetries_def eval_nat_numeral Let_def)
  then obtain r2 where l: "patch_loop (demo_api False) r' ''n0'' (ipnetToStringList cs) cidrUpdateRetries 0 None = (r2, None)"
    by (metis prod.collapse)
  have n: "node_Name (demo_node []) = ''n0''" "node_PodCIDRs (demo_node []) = []" by (simp_all add: demo_node_def)
  have "granted ref_netutils ref_labels (demo_api False) run0 (demo_node []) = [(''n0'', cs, 0)]"
    unfolding granted_def p n demo_api_sel(1) using ne l n by simp
  then show ?thesis by (simp add: run_grants_def)
qed



section \<open>Start-up and work items\<close>

lemma bootstrap_total:
  assumes "netutils_ok nu" "wf_alloc r" "\<forall>ob \<in> set items. spec_ok nu (obj_Spec ob)"
  shows "\<exists>r'. bootstrap_loop nu lib api r items = (r', Ret ())"
  using assms(2-)
proof (induction items arbitrary: r)
  case (Cons ob items)
  obtain r1 o1 where b: "createClusterCIDR nu lib api r ob (obj_Generation ob > 1) = (r1, o1)" by force
  have "wf_alloc r1" "o1 \<noteq> Panic" using createClusterCIDR_spec [OF assms(1) Cons.prems(1) _ b] Cons.prems(2) by auto
  then show ?case using Cons b by (cases o1) (simp_all add: reconcileBootstrap_def)
qed simp



text \<open>Processing an item of either work queue takes a reachable state of the controller
  to a reachable state, whatever the informer caches and the API server answer, as long as a synced
  ClusterCIDR is sound and a synced node's pod CIDRs parse to CIDRs that are the node's own or overlap no
  grant of another node.\<close>

theorem work_items_are_steps:
  assumes "system nu lib r G"
    "\<forall>ob. clusterCIDRLister_Get api key = Inr ob \<longrightarrow> spec_ok nu (obj_Spec ob)"
    "\<forall>node. nodeLister_Get api key = Inr node \<longrightarrow> pods_ok nu (node_PodCIDRs node) \<and> releasable nu G node"
  shows "(\<exists>G'. system nu lib (fst (processNextNodeWorkItem nu lib api r (key, stop))) G') \<and>
    system nu lib (fst (processNextCIDRWorkItem nu lib api r (key, stop))) G"
proof (intro conjI)
  obtain r1 o1 where s: "syncNode nu lib api r key = (r1, o1)" by force
  obtain G' where "system nu lib r1 G'" using system_syncNode [OF assms(1) _ s] assms(3) by blast
  then have "system nu lib (fst (finish_item nodeQueue key (r1, o1))) G'" by (rule system_finish [OF _ surjective_pairing])
  then show "\<exists>G'. system nu lib (fst (processNextNodeWorkItem nu lib api r (key, stop))) G'"
    using assms(1) s by (cases stop) (auto simp: processNextNodeWorkItem_def)
next
  obtain r1 o1 where s: "syncClusterCIDR nu lib api r key = (r1, o1)" by force
  have "system nu lib r1 G" using system_syncClusterCIDR [OF assms(1) _ s] assms(2) by blast
  then have "system nu lib (fst (finish_item cidrQueue key (r1, o1))) G" by (rule system_finish [OF _ surjective_pairing])
  then show "system nu lib (fst (processNextCIDRWorkItem nu lib api r (key, stop))) G"
    using assms(1) s by (cases stop) (auto simp: processNextCIDRWorkItem_def)
qed

theorem work_items_are_steps_witness:
  "(\<exists>G'. system ref_netutils ref_labels (fst (processNextNodeWorkItem ref_netutils ref_labels (demo_api False) run2 (''n0'', False))) G') \<and>
   system ref_netutils ref_labels (fst (processNextCIDRWorkItem ref_netutils ref_labels (demo_api False) run2 (''n0'', False))) run_grants"
  by (rule work_items_are_steps [OF run_reachable])
    (auto simp: demo_api_def demo_node_def pods_ok_def releasable_def pod_nets_def demo_spec_ok)



section \<open>The program\<close>

text \<open>C5. The program runs the controller exactly when the flags and the logging configuration load, the REST
  configuration and both clientsets can be built, the nodes can be listed and \<open>NewMultiCIDRRangeAllocator\<close> returns
  an allocator; and, with leader election, only when lock identity, namespace and lock were obtained and the
  election said that this process leads. It starts the informers immediately before, and the only informer of
  its own factory, the one of the ClusterCIDRs, is then running with a resync period of 30 seconds.\<close>

theorem program_start:
  "(ControllerRun r \<in> set (main_program nu lib api env) \<longleftrightarrow>
     (\<exists>c cfg cs nodes. load env initial_config = Loaded c \<and> logs_ValidateAndApply env = None \<and>
        BuildConfigFromFlags env (ApiServerURL c) (Kubeconfig c) = Inr cfg \<and> kubernetes_NewForConfig env cfg = None \<and>
        fst (NewForConfig (rest_lib env) [cfg] 0) = Inr cs \<and> nodes_List env = Inr nodes \<and>
        NewMultiCIDRRangeAllocator nu lib api no_params (Some nodes) ([], []) = Ret r \<and>
        (EnableLeaderElection (LeaderElectionCfg c) \<longrightarrow> elected env (LeaderElectionCfg c)))) \<and>
   (ControllerRun r \<in> set (main_program nu lib api env) \<longrightarrow>
     (\<exists>xs ys f. main_program nu lib api env = xs @ InformersStart f # ControllerRun r # ys \<and>
        running f = [\<lparr>go_Type = ClusterCIDR_type, go_Informer = 0, go_Stop = 0\<rparr>] \<and>
        inf_Resync (created f ! 0) = 30000000000))"
proof -
  have iff: "(\<exists>cs. program_runs nu lib api env cs r) \<longleftrightarrow> ControllerRun r \<in> set (main_program nu lib api env)"
    using main_runs [of r nu lib api env] runs_main [of nu lib api env _ r] by fastforce
  have "\<exists>xs ys f. main_program nu lib api env = xs @ InformersStart f # ControllerRun r # ys \<and>
      running f = [\<lparr>go_Type = ClusterCIDR_type, go_Informer = 0, go_Stop = 0\<rparr>] \<and> inf_Resync (created f ! 0) = 30000000000"
    if p: "program_runs nu lib api env cs r" for cs
  proof -
    have "created (started_factory cs) \<noteq> []" "inf_Resync (created (started_factory cs) ! 0) = main_defaultResync"
      using started_factory_fields(3) [of cs] by (cases "created (started_factory cs)"; simp)+
    then show ?thesis using runs_main [OF p] started_factory_fields(2) [of cs] by (fastforce simp: main_defaultResync_def)
  qed
  then show ?thesis unfolding iff [symmetric] by (auto simp: program_runs_def allocator_built_def)
qed

definition demo_program_config :: config where
  "demo_program_config = initial_config\<lparr>WebserverBindAddr := '':8081'', LeaderElectionCfg := (LeaderElectionCfg initial_config)
     \<lparr>LeaderElectionNamespace := ''kube-system'', ResourceLock := ''leases'', ResourceName := ''node-ipam-controller''\<rparr>\<rparr>"

definition demo_environment :: "(int \<times> int, string, unit, string, string, string) Environment" where
  "demo_environment =
     \<lparr> os_Getenv = (\<lambda>v. if v = ''POD_NAME'' then ''pod-0'' else []), GetHostname = Inr, flags_ParseArgs = (\<lambda>c. Loaded demo_program_config),
       logs_ValidateAndApply = None, BuildConfigFromFlags = (\<lambda>url path. Inr (demo_config 10)), kubernetes_NewForConfig = (\<lambda>cfg. None),
       rest_lib = demo_rest, nodes_List = Inr [], resourcelock_New = (\<lambda>lec. None),
       leaderelection_events = (\<lambda>lec. [OnNewLeader ''pod-1'', OnNewLeader (lec_Identity lec), OnStartedLeading, OnStoppedLeading]) \<rparr>"

lemma demo_elected: "elected demo_environment (LeaderElectionCfg demo_program_config)"
  by (simp add: elected_def demo_environment_def demo_program_config_def initial_config_def lockID_def lockNamespace_def)

lemma demo_clientset: "\<exists>cs. fst (NewForConfig demo_rest [demo_config 10] 0) = Inr cs"
  by (simp add: NewForConfig_def shallow_copy_def NewForConfigAndClient_def typed_NewForConfigAndClient_def setConfigDefaults_def
      demo_rest_def demo_config_def Let_def)

lemma demo_bootstrap:
  "\<exists>r. NewMultiCIDRRangeAllocator ref_netutils ref_labels (demo_api False) no_params (Some []) ([], []) = Ret r"
proof -
  have "wf_alloc empty_allocator" by (simp add: empty_allocator_def wf_alloc_def mapped_def)
  moreover have l: "listClusterCIDRs (demo_api False) = Inr [demo_object []]"
    by (simp add: listClusterCIDRs_def demo_api_def eval_nat_numeral)
  ultimately obtain r where "bootstrap_loop ref_netutils ref_labels (demo_api False) empty_allocator [demo_object []] = (r, Ret ())"
    using bootstrap_total [OF ref_netutils_ok, of empty_allocator "[demo_object []]"] demo_spec_ok by force
  then show ?thesis using l
    by (simp add: NewMultiCIDRRangeAllocator_def no_default_object empty_allocator_def filter_service_def) (simp add: no_params_def)
qed

lemma demo_program_answers:
  "load demo_environment initial_config = Loaded demo_program_config" "logs_ValidateAndApply demo_environment = None"
  "BuildConfigFromFlags demo_environment url path = Inr (demo_config 10)" "kubernetes_NewForConfig demo_environment cfg = None"
  "rest_lib demo_environment = demo_rest" "nodes_List demo_environment = Inr []"
  by (simp_all add: load_def demo_environment_def)

lemma demo_program_runs:
  obtains cs r where "program_runs ref_netutils ref_labels (demo_api False) demo_environment cs r"
  using demo_clientset demo_bootstrap demo_elected demo_program_answers
  unfolding program_runs_def allocator_built_def by metis

theorem program_start_witness:
  "\<exists>xs ys f r. main_program ref_netutils ref_labels (demo_api False) demo_environment = xs @ InformersStart f # ControllerRun r # ys \<and>
     go_Type (hd (running f)) = ClusterCIDR_type"
proof -
  from demo_clientset demo_bootstrap obtain cs r where
    "fst (NewForConfig demo_rest [demo_config 10] 0) = Inr cs"
    "NewMultiCIDRRangeAllocator ref_netutils ref_labels (demo_api False) no_params (Some []) ([], []) = Ret r" by blast
  then have "ControllerRun r \<in> set (main_program ref_netutils ref_labels (demo_api False) demo_environment)"
    using program_start [THEN conjunct1, of r ref_netutils ref_labels "demo_api False" demo_environment]
    by (simp add: demo_program_answers demo_elected)
  then show ?thesis
    using program_start [THEN conjunct2, of r ref_netutils ref_labels "demo_api False" demo_environment] by fastforce
qed





end
